(* ===== verification/Prelude.thy ===== *)
theory Prelude
  imports Main "HOL-Library.Word" "HOL-Library.Multiset"
begin

text \<open>
  What every other theory of the development uses: Rust's \<^verbatim>\<open>Result\<close> with a third
  outcome for a panic, the stateful operations built on it, checked integer
  arithmetic, little-endian integers, and byte slices (reading
  \<^verbatim>\<open>&bytes[o..o + n]\<close> and writing it with \<^verbatim>\<open>copy_from_slice\<close>) with the rules
  that move a read past a write.
\<close>

unbundle bit_operations_syntax

type_synonym u8 = "8 word"
type_synonym u16 = "16 word"
type_synonym u32 = "32 word"
type_synonym u64 = "64 word"
type_synonym usize = nat
type_synonym bytes = "u8 list"

text \<open>
  The collections of the development: \<open>act_simps\<close> runs the stateful operations,
  \<open>frame_simps\<close> moves reads past writes to other bytes.
\<close>

named_theorems act_simps
named_theorems frame_simps

section \<open>Results and stateful operations\<close>

text \<open>
  A call returns a value, returns an error (\<^verbatim>\<open>Err\<close>), or panics: a failed
  \<^verbatim>\<open>expect\<close>, an index out of range, or an arithmetic overflow, which Rust's
  checked builds turn into a panic.
\<close>

datatype ('a, 'e) result = Ok 'a | Err 'e | Panic

fun and_then :: "('a, 'e) result \<Rightarrow> ('a \<Rightarrow> ('b, 'e) result) \<Rightarrow> ('b, 'e) result" where
  "and_then (Ok x) f = f x"
| "and_then (Err e) f = Err e"
| "and_then Panic f = Panic"

fun map_err :: "('e \<Rightarrow> 'f) \<Rightarrow> ('a, 'e) result \<Rightarrow> ('a, 'f) result" where
  "map_err g (Ok x) = Ok x"
| "map_err g (Err e) = Err (g e)"
| "map_err g Panic = Panic"

fun expect :: "('a, 'e) result \<Rightarrow> ('a, 'f) result" where
  "expect (Ok x) = Ok x"
| "expect (Err e) = Panic"
| "expect Panic = Panic"

fun ok_or :: "'a option \<Rightarrow> 'e \<Rightarrow> ('a, 'e) result" where
  "ok_or (Some x) e = Ok x"
| "ok_or None e = Err e"

fun is_ok :: "('a, 'e) result \<Rightarrow> bool" where
  "is_ok (Ok x) = True"
| "is_ok (Err e) = False"
| "is_ok Panic = False"

lemma and_then_Ok_iff: "and_then r f = Ok y \<longleftrightarrow> (\<exists>x. r = Ok x \<and> f x = Ok y)"
  by (cases r) auto

lemma and_then_Panic_iff: "and_then r f = Panic \<longleftrightarrow> r = Panic \<or> (\<exists>x. r = Ok x \<and> f x = Panic)"
  by (cases r) auto

lemma map_err_Ok_iff [simp]: "map_err g r = Ok y \<longleftrightarrow> r = Ok y"
  by (cases r) auto

lemma map_err_Panic_iff [simp]: "map_err g r = Panic \<longleftrightarrow> r = Panic"
  by (cases r) auto

lemma ok_or_Ok_iff [simp]: "ok_or x e = Ok y \<longleftrightarrow> x = Some y"
  by (cases x) auto

lemma ok_or_not_Panic [simp]: "ok_or x e \<noteq> Panic"
  by (cases x) auto

text \<open>
  A method on \<^verbatim>\<open>&mut self\<close>: it returns its result together with the state it
  leaves, also when it fails, so the writes made before an early return stay.
\<close>

type_synonym ('s, 'a, 'e) act = "'s \<Rightarrow> ('a, 'e) result \<times> 's"

definition ret :: "'a \<Rightarrow> ('s, 'a, 'e) act" where
  "ret x = (\<lambda>s. (Ok x, s))"

definition fail :: "'e \<Rightarrow> ('s, 'a, 'e) act" where
  "fail e = (\<lambda>s. (Err e, s))"

definition query :: "('s \<Rightarrow> ('a, 'e) result) \<Rightarrow> ('s, 'a, 'e) act" where
  "query f = (\<lambda>s. (f s, s))"

definition bind_act :: "('s, 'a, 'e) act \<Rightarrow> ('a \<Rightarrow> ('s, 'b, 'e) act) \<Rightarrow> ('s, 'b, 'e) act" where
  "bind_act m f = (\<lambda>s. case m s of
     (Ok x, s') \<Rightarrow> f x s'
   | (Err e, s') \<Rightarrow> (Err e, s')
   | (Panic, s') \<Rightarrow> (Panic, s'))"

definition seq_act :: "('s, 'a, 'e) act \<Rightarrow> ('s, 'b, 'e) act \<Rightarrow> ('s, 'b, 'e) act" where
  "seq_act m k = bind_act m (\<lambda>_. k)"

definition expect_act :: "('s, 'a, 'e) act \<Rightarrow> ('s, 'a, 'f) act" where
  "expect_act m = (\<lambda>s. case m s of (r, s') \<Rightarrow> (expect r, s'))"

definition map_err_act :: "('e \<Rightarrow> 'f) \<Rightarrow> ('s, 'a, 'e) act \<Rightarrow> ('s, 'a, 'f) act" where
  "map_err_act g m = (\<lambda>s. case m s of (r, s') \<Rightarrow> (map_err g r, s'))"

text \<open>\<^verbatim>\<open>for x in xs { out.extend(f(x)?) }\<close>.\<close>

fun for_each :: "('k \<Rightarrow> ('s, 'b list, 'e) act) \<Rightarrow> 'k list \<Rightarrow> ('s, 'b list, 'e) act" where
  "for_each f [] = ret []"
| "for_each f (k # ks) = bind_act (f k) (\<lambda>xs. bind_act (for_each f ks) (\<lambda>ys. ret (xs @ ys)))"

text \<open>A change of the state that cannot fail, and a scope whose values are dropped on every way
  out of it.\<close>

definition update :: "('s \<Rightarrow> 's) \<Rightarrow> ('s, unit, 'e) act" where
  "update f = (\<lambda>s. (Ok (), f s))"

definition scoped :: "('s, 'a, 'e) act \<Rightarrow> ('s \<Rightarrow> 's) \<Rightarrow> ('s, 'a, 'e) act" where
  "scoped m cleanup = (\<lambda>s. case m s of (r, s') \<Rightarrow> (r, cleanup s'))"

lemma update_run [act_simps]: "update f s = (Ok (), f s)"
  by (simp add: update_def)

lemma scoped_run [act_simps]: "scoped m c s = (case m s of (r, s') \<Rightarrow> (r, c s'))"
  by (simp add: scoped_def)

lemma ret_apply [act_simps]: "ret x s = (Ok x, s)"
  by (simp add: ret_def)

lemma fail_apply [act_simps]: "fail e s = (Err e, s)"
  by (simp add: fail_def)

lemma query_apply [act_simps]: "query f s = (f s, s)"
  by (simp add: query_def)

lemma bind_act_run [act_simps]:
  "bind_act m f s = (case m s of
     (Ok x, s') \<Rightarrow> f x s' | (Err e, s') \<Rightarrow> (Err e, s') | (Panic, s') \<Rightarrow> (Panic, s'))"
  by (simp add: bind_act_def)

lemma seq_act_run [act_simps]:
  "seq_act m k s = (case m s of
     (Ok x, s') \<Rightarrow> k s' | (Err e, s') \<Rightarrow> (Err e, s') | (Panic, s') \<Rightarrow> (Panic, s'))"
  by (simp add: seq_act_def bind_act_def)

lemma map_err_act_run [act_simps]:
  "map_err_act g m s = (case m s of (r, s') \<Rightarrow> (map_err g r, s'))"
  by (simp add: map_err_act_def)

lemma expect_act_run [act_simps]:
  "expect_act m s = (case m s of (r, s') \<Rightarrow> (expect r, s'))"
  by (simp add: expect_act_def)

lemma bind_act_OkE:
  assumes "bind_act m f s = (Ok y, s'')"
  obtains x s' where "m s = (Ok x, s')" and "f x s' = (Ok y, s'')"
  using assms by (auto simp: bind_act_def split: prod.splits result.splits)

lemma seq_act_OkE:
  assumes "seq_act m k s = (Ok y, s'')"
  obtains x s' where "m s = (Ok x, s')" and "k s' = (Ok y, s'')"
  using assms by (auto simp: seq_act_def elim: bind_act_OkE)

text \<open>A part of the state, read by \<open>f\<close>, that an operation never changes, whatever its result.\<close>

definition keeps :: "('s \<Rightarrow> 'b) \<Rightarrow> ('s, 'a, 'e) act \<Rightarrow> bool" where
  "keeps f m \<longleftrightarrow> (\<forall>s. f (snd (m s)) = f s)"

named_theorems keeps_intros

lemma keepsD: "keeps f m \<Longrightarrow> m s = (r, s') \<Longrightarrow> f s' = f s"
  unfolding keeps_def by (metis snd_conv)

lemma keepsI: "(\<And>s. f (snd (m s)) = f s) \<Longrightarrow> keeps f m"
  by (simp add: keeps_def)

lemma keeps_basic [keeps_intros]: "keeps f (ret x)" "keeps f (fail e)" "keeps f (query g)"
  by (simp_all add: keeps_def act_simps)

lemma keeps_update [keeps_intros]: "(\<And>s. f (g s) = f s) \<Longrightarrow> keeps f (update g)"
  by (simp add: keeps_def act_simps)

lemma keeps_bind [keeps_intros]: "keeps f m \<Longrightarrow> (\<And>x. keeps f (k x)) \<Longrightarrow> keeps f (bind_act m k)"
proof (rule keepsI)
  fix s
  assume m: "keeps f m" and k: "\<And>x. keeps f (k x)"
  obtain r s' where r: "m s = (r, s')" by (metis prod.exhaust)
  have "f (snd (k x s')) = f s'" for x
    using k unfolding keeps_def by simp
  then show "f (snd (bind_act m k s)) = f s"
    using r keepsD [OF m r] by (simp add: bind_act_def split: result.split)
qed

lemma keeps_seq [keeps_intros]: "keeps f m \<Longrightarrow> keeps f k \<Longrightarrow> keeps f (seq_act m k)"
  by (simp add: seq_act_def keeps_intros)

lemma keeps_map_err [keeps_intros]: "keeps f m \<Longrightarrow> keeps f (map_err_act g m)"
  by (rule keepsI) (auto simp: act_simps split: prod.split dest: keepsD)

lemma keeps_scoped [keeps_intros]: "keeps f m \<Longrightarrow> (\<And>s. f (c s) = f s) \<Longrightarrow> keeps f (scoped m c)"
  by (rule keepsI) (auto simp: act_simps split: prod.split dest: keepsD)

lemma keeps_for_each [keeps_intros]: "(\<And>k. keeps f (m k)) \<Longrightarrow> keeps f (for_each m ks)"
  by (induction ks) (auto intro!: keeps_intros)

section \<open>Integers\<close>

text \<open>\<^verbatim>\<open>usize\<close> is 64 bits wide; machine words keep their own width.\<close>

abbreviation (input) usize_limit :: nat where
  "usize_limit \<equiv> 18446744073709551616"

definition checked_add_usize :: "usize \<Rightarrow> usize \<Rightarrow> usize option" where
  "checked_add_usize a b = (if a + b < usize_limit then Some (a + b) else None)"

definition checked_mul_usize :: "usize \<Rightarrow> usize \<Rightarrow> usize option" where
  "checked_mul_usize a b = (if a * b < usize_limit then Some (a * b) else None)"

definition checked_sub_usize :: "usize \<Rightarrow> usize \<Rightarrow> usize option" where
  "checked_sub_usize a b = (if b \<le> a then Some (a - b) else None)"

definition sub_usize :: "usize \<Rightarrow> usize \<Rightarrow> (usize, 'e) result" where
  "sub_usize a b = (if b \<le> a then Ok (a - b) else Panic)"

definition checked_add_word :: "'a::len word \<Rightarrow> 'a word \<Rightarrow> 'a word option" where
  "checked_add_word a b = (if unat a + unat b < 2 ^ LENGTH('a) then Some (a + b) else None)"

definition checked_sub_word :: "'a::len word \<Rightarrow> 'a word \<Rightarrow> 'a word option" where
  "checked_sub_word a b = (if b \<le> a then Some (a - b) else None)"

definition saturating_add_word :: "'a::len word \<Rightarrow> 'a word \<Rightarrow> 'a word" where
  "saturating_add_word a b = (if unat a + unat b < 2 ^ LENGTH('a) then a + b else - 1)"

text \<open>The casts \<^verbatim>\<open>n as u16\<close> and \<^verbatim>\<open>n as u32\<close>, which truncate.\<close>

definition as_u16 :: "usize \<Rightarrow> u16" where
  "as_u16 n = of_nat n"

definition as_u32 :: "usize \<Rightarrow> u32" where
  "as_u32 n = of_nat n"

definition u16_try_from :: "usize \<Rightarrow> u16 option" where
  "u16_try_from n = (if n < 65536 then Some (as_u16 n) else None)"

definition u32_try_from :: "usize \<Rightarrow> u32 option" where
  "u32_try_from n = (if n < 4294967296 then Some (as_u32 n) else None)"

lemma checked_add_word_Some:
  "checked_add_word a b = Some c \<Longrightarrow> unat c = unat a + unat b"
  by (auto simp: checked_add_word_def unat_word_ariths split: if_splits)

lemma unat_plus_one: "unat a + 1 < 2 ^ LENGTH('a) \<Longrightarrow> unat (a + 1 :: 'a::len word) = unat a + 1"
  by (simp add: unat_word_ariths)

lemma unat_minus_one: "a \<noteq> 0 \<Longrightarrow> unat (a - 1 :: 'a::len word) = unat a - 1"
  by (rule unat_minus_one)

lemma unat_of_nat_u16: "n < 65536 \<Longrightarrow> unat (of_nat n :: u16) = n"
  by (simp add: unat_of_nat take_bit_nat_eq_self)

lemma unat_of_nat_u32: "n < 4294967296 \<Longrightarrow> unat (of_nat n :: u32) = n"
  by (simp add: unat_of_nat take_bit_nat_eq_self)

lemma unat_as_u16 [simp]: "n < 65536 \<Longrightarrow> unat (as_u16 n) = n"
  by (simp add: as_u16_def unat_of_nat_u16)

lemma unat_as_u32 [simp]: "n < 4294967296 \<Longrightarrow> unat (as_u32 n) = n"
  by (simp add: as_u32_def unat_of_nat_u32)

lemma unat_u16_less: "unat (w :: u16) < 65536"
  using unsigned_less [of w] by simp

lemma unat_u16_max: "unat (w :: u16) = 65535 \<longleftrightarrow> w = - 1"
  by (simp add: word_unat_eq_iff unsigned_minus_1_eq_mask mask_eq_exp_minus_1)

lemma unat_u32_max: "unat (w :: u32) = 4294967295 \<longleftrightarrow> w = - 1"
  by (simp add: word_unat_eq_iff unsigned_minus_1_eq_mask mask_eq_exp_minus_1)

lemma less_plus_one_u16: "h \<noteq> - 1 \<Longrightarrow> (g :: u16) \<le> h \<Longrightarrow> g < h + 1"
  using unat_u16_less [of h] unat_u16_max [of h]
  by (simp add: word_less_nat_alt word_le_nat_alt unat_plus_one)

lemma not_in_update: "x \<notin> set xs \<Longrightarrow> x \<noteq> y \<Longrightarrow> x \<notin> set (xs[i := y])"
  using set_update_subset_insert [of xs i y] by blast

lemma unat_u32_less: "unat (w :: u32) < 4294967296"
  using unsigned_less [of w] by simp

section \<open>Little-endian integers\<close>

text \<open>
  \<open>to_le n w\<close> is \<^verbatim>\<open>w.to_le_bytes()\<close> for an integer of \<open>n\<close> bytes, \<open>from_le\<close> is
  \<^verbatim>\<open>from_le_bytes\<close>.
\<close>

fun to_le :: "nat \<Rightarrow> 'a::len word \<Rightarrow> bytes" where
  "to_le 0 w = []"
| "to_le (Suc n) w = ucast w # to_le n (drop_bit 8 w)"

fun from_le :: "bytes \<Rightarrow> 'a::len word" where
  "from_le [] = 0"
| "from_le (b # bs) = (ucast b OR push_bit 8 (from_le bs))"

lemma length_to_le [simp]: "length (to_le n w) = n"
  by (induction n arbitrary: w) auto

lemma from_le_to_le_take_bit: "from_le (to_le n w) = take_bit (8 * n) (w :: 'a::len word)"
proof (induction n arbitrary: w)
  case 0
  show ?case by simp
next
  case (Suc n)
  show ?case
    by (rule bit_word_eqI) (auto simp: Suc.IH bit_simps not_less)
qed

lemma from_le_to_le: "LENGTH('a) \<le> 8 * n \<Longrightarrow> from_le (to_le n w) = (w :: 'a::len word)"
  by (simp add: from_le_to_le_take_bit take_bit_word_eq_self)

lemma from_to_le_u16 [simp]: "from_le (to_le 2 w) = (w :: u16)"
  by (rule from_le_to_le) simp

lemma from_to_le_u32 [simp]: "from_le (to_le 4 w) = (w :: u32)"
  by (rule from_le_to_le) simp

lemma from_to_le_u64 [simp]: "from_le (to_le 8 w) = (w :: u64)"
  by (rule from_le_to_le) simp

lemma to_le_2: "to_le 2 w = [ucast w, ucast (drop_bit 8 w)]"
  by (simp add: eval_nat_numeral)

lemma to_le_4: "to_le 4 w = [ucast w, ucast (drop_bit 8 w), ucast (drop_bit 16 w), ucast (drop_bit 24 w)]"
  by (simp add: eval_nat_numeral)

lemma to_le_from_le: "8 * length bs \<le> LENGTH('a) \<Longrightarrow> to_le (length bs) (from_le bs :: 'a::len word) = bs"
proof (induction bs)
  case Nil
  show ?case by simp
next
  case (Cons b bs)
  let ?w = "ucast b OR push_bit 8 (from_le bs) :: 'a word"
  have "ucast ?w = b"
    using Cons.prems by (intro bit_word_eqI) (auto simp: bit_simps)
  moreover have "take_bit (8 * length bs) (drop_bit 8 ?w) = take_bit (8 * length bs) (from_le bs :: 'a word)"
    using Cons.prems by (intro bit_word_eqI) (auto simp: bit_simps dest: bit_imp_le_length)
  moreover have "to_le n v = to_le n (take_bit (8 * n) v)" for n and v :: "'a word"
  proof (induction n arbitrary: v)
    case (Suc n)
    have "to_le n (drop_bit 8 v) = to_le n (drop_bit 8 (take_bit (8 * Suc n) v))"
      by (subst (1 2) Suc.IH) (simp add: drop_bit_take_bit)
    moreover have "(ucast v :: u8) = ucast (take_bit (8 * Suc n) v)"
      by (rule bit_word_eqI) (auto simp: bit_simps)
    ultimately show ?case by simp
  qed simp
  ultimately show ?case
    using Cons by (metis from_le.simps(2) length_Cons to_le.simps(2)
      add_leD2 mult_Suc_right)
qed

lemma from_le_zeros [simp]: "from_le (replicate n 0) = 0"
  by (induction n) auto

section \<open>Slices\<close>

text \<open>
  \<open>slice o n bs\<close> is \<^verbatim>\<open>&bs[o..o + n]\<close>; \<open>splice o src bs\<close> is \<open>bs\<close> after
  \<^verbatim>\<open>bs[o..o + src.len()].copy_from_slice(src)\<close>. The callers check the range
  first; outside it \<open>splice\<close> drops the bytes that do not fit, so that it never changes
  the length and the rules below need no range condition.
\<close>

definition slice :: "nat \<Rightarrow> nat \<Rightarrow> 'a list \<Rightarrow> 'a list" where
  "slice off n bs = take n (drop off bs)"

definition splice :: "nat \<Rightarrow> 'a list \<Rightarrow> 'a list \<Rightarrow> 'a list" where
  "splice off src bs = take off bs @ take (length bs - off) src @ drop (off + length src) bs"

lemma splice_fit:
  "off + length src \<le> length bs \<Longrightarrow> splice off src bs = take off bs @ src @ drop (off + length src) bs"
  by (simp add: splice_def)

lemma length_slice: "length (slice off n bs) = min n (length bs - off)"
  by (simp add: slice_def)

lemma length_slice_fit [simp]: "off + n \<le> length bs \<Longrightarrow> length (slice off n bs) = n"
  by (simp add: slice_def)

lemma length_splice [simp]: "length (splice off src bs) = length bs"
  by (simp add: splice_def)

lemma slice_zero [simp]: "slice off 0 bs = []"
  by (simp add: slice_def)

lemma slice_all [simp]: "n = length bs \<Longrightarrow> slice 0 n bs = bs"
  by (simp add: slice_def)

lemma nth_slice: "i < n \<Longrightarrow> off + i < length bs \<Longrightarrow> slice off n bs ! i = bs ! (off + i)"
  by (simp add: slice_def)

lemma nth_splice:
  "i < length bs \<Longrightarrow>
   splice off src bs ! i = (if off \<le> i \<and> i < off + length src then src ! (i - off) else bs ! i)"
  by (auto simp: splice_def nth_append min_def)

lemma slice_eqI:
  assumes "length bs = length cs"
    and "\<And>i. off \<le> i \<Longrightarrow> i < off + n \<Longrightarrow> i < length bs \<Longrightarrow> bs ! i = cs ! i"
  shows "slice off n bs = slice off n cs"
  by (rule nth_equalityI) (use assms in \<open>auto simp: length_slice nth_slice\<close>)

lemma slice_splice_same [simp]:
  "off + length src \<le> length bs \<Longrightarrow> n = length src \<Longrightarrow> slice off n (splice off src bs) = src"
  by (simp add: slice_def splice_def)

lemma slice_splice_disjoint [frame_simps]:
  assumes "o' + n \<le> off \<or> off + length src \<le> o'"
  shows "slice o' n (splice off src bs) = slice o' n bs"
  by (rule slice_eqI) (use assms in \<open>auto simp: nth_splice\<close>)

lemma slice_splice_inside:
  assumes "off + length src \<le> length bs" and "off \<le> o'" and "o' + n \<le> off + length src"
  shows "slice o' n (splice off src bs) = slice (o' - off) n src"
  by (rule nth_equalityI) (use assms in \<open>auto simp: length_slice nth_slice nth_splice\<close>)

lemma slice_slice: "k + m \<le> n \<Longrightarrow> slice k m (slice off n bs) = slice (off + k) m bs"
  by (simp add: slice_def drop_take add.commute min_def)

lemma slice_replicate [simp]: "off + n \<le> m \<Longrightarrow> slice off n (replicate m x) = replicate n x"
  by (simp add: slice_def)

lemma slice_append_left: "off + n \<le> length a \<Longrightarrow> slice off n (a @ b) = slice off n a"
  by (simp add: slice_def)

lemma slice_append_right: "length a \<le> off \<Longrightarrow> slice off n (a @ b) = slice (off - length a) n b"
  by (simp add: slice_def)

lemma splice_Nil [simp]: "splice off [] bs = bs"
  by (simp add: splice_def)

lemma splice_whole: "length src = length bs \<Longrightarrow> splice 0 src bs = src"
  by (simp add: splice_def)

end
