(* ===== verification/Utf8.thy ===== *)
theory Utf8
  imports Prelude
begin

text \<open>
  Rust's strings: a \<^verbatim>\<open>str\<close> is a byte sequence that \<^verbatim>\<open>std::str::from_utf8\<close> accepts. The decoder
  below follows the table of well-formed byte sequences of the Unicode standard; \<open>chars\<close> is
  \<^verbatim>\<open>str::chars\<close>.
\<close>

type_synonym str = bytes
type_synonym unicode_char = u32

definition in_range :: "u8 \<Rightarrow> u8 \<Rightarrow> u8 \<Rightarrow> bool" where
  "in_range lo hi b \<longleftrightarrow> lo \<le> b \<and> b \<le> hi"

definition cont_byte :: "u8 \<Rightarrow> bool" where
  "cont_byte = in_range 0x80 0xBF"

definition low_bits :: "nat \<Rightarrow> u8 \<Rightarrow> unicode_char" where
  "low_bits n b = ucast (take_bit n b)"

definition second_of_three :: "u8 \<Rightarrow> u8 \<Rightarrow> bool" where
  "second_of_three a b \<longleftrightarrow>
     (if a = 0xE0 then in_range 0xA0 0xBF b else if a = 0xED then in_range 0x80 0x9F b else cont_byte b)"

definition second_of_four :: "u8 \<Rightarrow> u8 \<Rightarrow> bool" where
  "second_of_four a b \<longleftrightarrow>
     (if a = 0xF0 then in_range 0x90 0xBF b else if a = 0xF4 then in_range 0x80 0x8F b else cont_byte b)"

text \<open>The first character of a string and the rest of its bytes.\<close>

fun utf8_step :: "bytes \<Rightarrow> (unicode_char \<times> bytes) option" where
  "utf8_step [] = None"
| "utf8_step (a # s) =
     (if a < 0x80 then Some (ucast a, s)
      else if in_range 0xC2 0xDF a then
        (case s of
           b # s' \<Rightarrow> if cont_byte b then Some (push_bit 6 (low_bits 5 a) OR low_bits 6 b, s') else None
         | _ \<Rightarrow> None)
      else if in_range 0xE0 0xEF a then
        (case s of
           b # c # s' \<Rightarrow>
             if second_of_three a b \<and> cont_byte c
             then Some (push_bit 12 (low_bits 4 a) OR push_bit 6 (low_bits 6 b) OR low_bits 6 c, s')
             else None
         | _ \<Rightarrow> None)
      else if in_range 0xF0 0xF4 a then
        (case s of
           b # c # d # s' \<Rightarrow>
             if second_of_four a b \<and> cont_byte c \<and> cont_byte d
             then Some (push_bit 18 (low_bits 3 a) OR push_bit 12 (low_bits 6 b)
                        OR push_bit 6 (low_bits 6 c) OR low_bits 6 d, s')
             else None
         | _ \<Rightarrow> None)
      else None)"

lemma utf8_step_shorter: "utf8_step s = Some (c, s') \<Longrightarrow> length s' < length s"
  by (induction s rule: utf8_step.induct) (auto split: if_splits list.splits)

function utf8_decode :: "bytes \<Rightarrow> unicode_char list option" where
  "utf8_decode s =
     (if s = [] then Some []
      else case utf8_step s of
        None \<Rightarrow> None
      | Some (c, s') \<Rightarrow> map_option ((#) c) (utf8_decode s'))"
  by pat_completeness auto
termination
  by (relation "measure length") (auto dest: utf8_step_shorter)

declare utf8_decode.simps [simp del]

text \<open>\<^verbatim>\<open>std::str::from_utf8(bs).is_ok()\<close>.\<close>

definition is_str :: "bytes \<Rightarrow> bool" where
  "is_str bs \<longleftrightarrow> utf8_decode bs \<noteq> None"

text \<open>\<^verbatim>\<open>s.chars()\<close>; every value of type \<^verbatim>\<open>str\<close> satisfies \<open>is_str\<close>, so the last case never occurs.\<close>

definition chars :: "str \<Rightarrow> unicode_char list" where
  "chars s = (case utf8_decode s of Some cs \<Rightarrow> cs | None \<Rightarrow> [])"

lemma is_str_Nil [simp]: "is_str []"
  by (simp add: is_str_def utf8_decode.simps)

lemma chars_Nil [simp]: "chars [] = []"
  by (simp add: chars_def utf8_decode.simps)

lemma chars_is_str: "chars s \<noteq> [] \<Longrightarrow> is_str s"
  by (auto simp: chars_def is_str_def split: option.splits)

text \<open>Strings of ASCII bytes decode to themselves.\<close>

lemma utf8_decode_ascii: "\<forall>b\<in>set s. b < 0x80 \<Longrightarrow> utf8_decode s = Some (map ucast s)"
  by (induction s) (simp_all add: utf8_decode.simps)

lemma is_str_ascii: "\<forall>b\<in>set s. b < 0x80 \<Longrightarrow> is_str s"
  by (simp add: is_str_def utf8_decode_ascii)

lemma chars_ascii: "\<forall>b\<in>set s. b < 0x80 \<Longrightarrow> chars s = map ucast s"
  by (simp add: chars_def utf8_decode_ascii)

end
