(* ===== verification/Row.thy ===== *)
theory Row
  imports Utf8
begin

text \<open>
  Rows, \<^verbatim>\<open>src/schema/row.rs\<close>: the layout compiled from a list of columns, and the encoding of
  values into the bytes of a record and back. Columns and data types are those of
  \<^verbatim>\<open>src/schema/table.rs\<close>. An \<^verbatim>\<open>i64\<close> is its 64 bits; so is an \<^verbatim>\<open>f64\<close>, which the code only
  converts to and from its bytes.
\<close>

abbreviation (input) MAX_ROW_SIZE :: usize where "MAX_ROW_SIZE \<equiv> 8192 - 32 - 8"
abbreviation (input) ROW_FORMAT_VERSION :: u8 where "ROW_FORMAT_VERSION \<equiv> 1"
abbreviation (input) VARIABLE_DESCRIPTOR_SIZE :: usize where "VARIABLE_DESCRIPTOR_SIZE \<equiv> 8"

datatype data_type = DT_Int | DT_Float | DT_Bool | DT_Text | DT_Bytes

record column_schema =
  column_name :: str
  column_type :: data_type
  column_nullable :: bool
  column_primary_key :: bool

datatype row_value = V_Null | V_Int u64 | V_Float u64 | V_Bool bool | V_Text str | V_Bytes bytes

datatype value_ref = R_Null | R_Int u64 | R_Float u64 | R_Bool bool | R_Text str | R_Bytes bytes

fun to_owned :: "value_ref \<Rightarrow> row_value" where
  "to_owned R_Null = V_Null"
| "to_owned (R_Int v) = V_Int v"
| "to_owned (R_Float v) = V_Float v"
| "to_owned (R_Bool v) = V_Bool v"
| "to_owned (R_Text v) = V_Text v"
| "to_owned (R_Bytes v) = V_Bytes v"

record column_layout =
  layout_offset :: usize
  layout_width :: usize

record row_layout =
  null_bitmap_size :: usize
  layout_columns :: "column_layout list"
  minimum_row_size :: usize

datatype row_error =
    RE_WrongValueCount usize usize
  | RE_TypeMismatch str data_type string
  | RE_NullNotAllowed str
  | RE_ColumnOutOfBounds usize usize
  | RE_RowTooLarge usize usize
  | RE_Corrupt string

type_synonym 'a row_result = "('a, row_error) result"

section \<open>Bytes with checked indices\<close>

text \<open>\<^verbatim>\<open>bytes[i]\<close>, \<^verbatim>\<open>&bytes[a..a + n]\<close> and \<^verbatim>\<open>bytes[a..a + n].copy_from_slice(src)\<close>: an index out of
  range panics.\<close>

definition index_at :: "'a list \<Rightarrow> usize \<Rightarrow> ('a, 'e) result" where
  "index_at bs i = (if i < length bs then Ok (bs ! i) else Panic)"

definition slice_at :: "'a list \<Rightarrow> usize \<Rightarrow> usize \<Rightarrow> ('a list, 'e) result" where
  "slice_at bs a n = (if a + n \<le> length bs then Ok (slice a n bs) else Panic)"

definition copy_at :: "'a list \<Rightarrow> usize \<Rightarrow> 'a list \<Rightarrow> ('a list, 'e) result" where
  "copy_at bs a src = (if a + length src \<le> length bs then Ok (splice a src bs) else Panic)"

definition row_read_u32 :: "bytes \<Rightarrow> usize \<Rightarrow> (u32, 'e) result" where
  "row_read_u32 bs offset =
     and_then (index_at bs offset) (\<lambda>a.
     and_then (index_at bs (offset + 1)) (\<lambda>b.
     and_then (index_at bs (offset + 2)) (\<lambda>c.
     and_then (index_at bs (offset + 3)) (\<lambda>d.
       Ok (from_le [a, b, c, d])))))"

definition set_null :: "bytes \<Rightarrow> usize \<Rightarrow> (bytes, 'e) result" where
  "set_null row column_index =
     (let byte = 1 + column_index div 8; bit = column_index mod 8 in
      and_then (index_at row byte) (\<lambda>b. Ok (row[byte := b OR push_bit bit 1])))"

definition is_null :: "bytes \<Rightarrow> usize \<Rightarrow> (bool, 'e) result" where
  "is_null row column_index =
     (let byte = 1 + column_index div 8; bit = column_index mod 8 in
      and_then (index_at row byte) (\<lambda>b. Ok (b AND push_bit bit 1 \<noteq> 0)))"

section \<open>The layout\<close>

fun column_width :: "data_type \<Rightarrow> usize" where
  "column_width DT_Int = 8"
| "column_width DT_Float = 8"
| "column_width DT_Bool = 1"
| "column_width DT_Text = VARIABLE_DESCRIPTOR_SIZE"
| "column_width DT_Bytes = VARIABLE_DESCRIPTOR_SIZE"

text \<open>The loop of \<^verbatim>\<open>compile\<close>, with its variables \<open>offset\<close> and \<open>layouts\<close>. A vector of columns is
  much shorter than the address space, so the sum does not overflow.\<close>

fun compile_loop :: "usize \<Rightarrow> column_layout list \<Rightarrow> column_schema list \<Rightarrow> column_layout list \<times> usize" where
  "compile_loop offset layouts [] = (layouts, offset)"
| "compile_loop offset layouts (column # columns) =
     (let width = column_width (column_type column) in
      compile_loop (offset + width) (layouts @ [\<lparr>layout_offset = offset, layout_width = width\<rparr>]) columns)"

definition compile :: "column_schema list \<Rightarrow> row_layout" where
  "compile columns =
     (let bitmap = (length columns + 7) div 8;
          (layouts, offset) = compile_loop (1 + bitmap) [] columns
      in \<lparr>null_bitmap_size = bitmap, layout_columns = layouts, minimum_row_size = offset\<rparr>)"

definition column_offset :: "row_layout \<Rightarrow> usize \<Rightarrow> usize option" where
  "column_offset l index =
     (if index < length (layout_columns l) then Some (layout_offset (layout_columns l ! index)) else None)"

section \<open>Encoding\<close>

fun value_type_name :: "row_value \<Rightarrow> string" where
  "value_type_name V_Null = ''null''"
| "value_type_name (V_Int _) = ''int''"
| "value_type_name (V_Float _) = ''float''"
| "value_type_name (V_Bool _) = ''bool''"
| "value_type_name (V_Text _) = ''text''"
| "value_type_name (V_Bytes _) = ''bytes''"

definition append_variable :: "bytes \<Rightarrow> usize \<Rightarrow> bytes \<Rightarrow> bytes row_result" where
  "append_variable row descriptor_offset val =
     (let encoded_size = min (length row + length val) (usize_limit - 1) in
      if MAX_ROW_SIZE < encoded_size then Err (RE_RowTooLarge encoded_size MAX_ROW_SIZE)
      else
        and_then (ok_or (u32_try_from (length row)) (RE_RowTooLarge (length row) MAX_ROW_SIZE)) (\<lambda>offset.
        and_then (ok_or (u32_try_from (length val)) (RE_RowTooLarge encoded_size MAX_ROW_SIZE)) (\<lambda>len.
        and_then (copy_at row descriptor_offset (to_le 4 offset)) (\<lambda>row.
        and_then (copy_at row (descriptor_offset + 4) (to_le 4 len)) (\<lambda>row.
          Ok (row @ val))))))"

definition encode_column :: "usize \<Rightarrow> column_schema \<Rightarrow> column_layout \<Rightarrow> row_value \<Rightarrow> bytes \<Rightarrow> bytes row_result" where
  "encode_column index column layout val row =
     (if val = V_Null then
        (if \<not> column_nullable column then Err (RE_NullNotAllowed (column_name column))
         else set_null row index)
      else case (column_type column, val) of
        (DT_Int, V_Int v) \<Rightarrow> copy_at row (layout_offset layout) (to_le 8 v)
      | (DT_Float, V_Float v) \<Rightarrow> copy_at row (layout_offset layout) (to_le 8 v)
      | (DT_Bool, V_Bool v) \<Rightarrow> copy_at row (layout_offset layout) [if v then 1 else 0]
      | (DT_Text, V_Text v) \<Rightarrow> append_variable row (layout_offset layout) v
      | (DT_Bytes, V_Bytes v) \<Rightarrow> append_variable row (layout_offset layout) v
      | (expected, found) \<Rightarrow> Err (RE_TypeMismatch (column_name column) expected (value_type_name found)))"

fun encode_loop :: "usize \<Rightarrow> ((column_schema \<times> column_layout) \<times> row_value) list \<Rightarrow> bytes \<Rightarrow> bytes row_result" where
  "encode_loop index [] row = Ok row"
| "encode_loop index (((column, layout), val) # rest) row =
     and_then (encode_column index column layout val row) (\<lambda>row. encode_loop (index + 1) rest row)"

definition encode :: "row_layout \<Rightarrow> column_schema list \<Rightarrow> row_value list \<Rightarrow> bytes row_result" where
  "encode l columns vals =
     (if length vals \<noteq> length columns then Err (RE_WrongValueCount (length columns) (length vals))
      else
        and_then (copy_at (replicate (minimum_row_size l) 0) 0 [ROW_FORMAT_VERSION]) (\<lambda>row.
        and_then (encode_loop 0 (zip (zip columns (layout_columns l)) vals) row) (\<lambda>row.
          if MAX_ROW_SIZE < length row then Err (RE_RowTooLarge (length row) MAX_ROW_SIZE) else Ok row)))"

section \<open>Decoding\<close>

text \<open>One round of the loop of \<^verbatim>\<open>validate\<close>; the value is the new \<open>expected_payload_offset\<close>.\<close>

definition validate_column :: "bytes \<Rightarrow> usize \<Rightarrow> column_schema \<Rightarrow> column_layout \<Rightarrow> usize \<Rightarrow> usize row_result" where
  "validate_column row index column layout expected =
     and_then (slice_at row (layout_offset layout) (layout_width layout)) (\<lambda>bs.
     and_then (is_null row index) (\<lambda>null.
     if null then
       (if \<not> column_nullable column then Err (RE_Corrupt ''required column is encoded as null'')
        else if \<exists>b\<in>set bs. b \<noteq> 0 then Err (RE_Corrupt ''null column has nonzero fixed bytes'')
        else Ok expected)
     else case column_type column of
       DT_Bool \<Rightarrow>
         and_then (index_at bs 0) (\<lambda>b.
         if b \<noteq> 0 \<and> b \<noteq> 1 then Err (RE_Corrupt ''boolean column is not zero or one'') else Ok expected)
     | DT_Int \<Rightarrow> Ok expected
     | DT_Float \<Rightarrow> Ok expected
     | _ \<Rightarrow>
         and_then (row_read_u32 bs 0) (\<lambda>raw_offset.
         and_then (row_read_u32 bs 4) (\<lambda>raw_length.
           let offset = unat raw_offset; len = unat raw_length in
           if offset \<noteq> expected then Err (RE_Corrupt ''variable column payload is not canonical'')
           else
             and_then (ok_or (case checked_add_usize offset len of
                                Some e \<Rightarrow> if e \<le> length row then Some e else None
                              | None \<Rightarrow> None)
                         (RE_Corrupt ''variable column exceeds row boundary'')) (\<lambda>e.
             if column_type column = DT_Text then
               and_then (slice_at row offset (e - offset)) (\<lambda>text.
               if is_str text then Ok e else Err (RE_Corrupt ''text column is not UTF-8''))
             else Ok e)))))"

fun validate_loop :: "bytes \<Rightarrow> usize \<Rightarrow> (column_schema \<times> column_layout) list \<Rightarrow> usize \<Rightarrow> usize row_result" where
  "validate_loop row index [] expected = Ok expected"
| "validate_loop row index ((column, layout) # rest) expected =
     and_then (validate_column row index column layout expected) (\<lambda>expected.
       validate_loop row (index + 1) rest expected)"

definition validate_row :: "row_layout \<Rightarrow> column_schema list \<Rightarrow> bytes \<Rightarrow> unit row_result" where
  "validate_row l columns row =
     (if length row < minimum_row_size l then Err (RE_Corrupt ''row is shorter than its fixed layout'')
      else if MAX_ROW_SIZE < length row then Err (RE_Corrupt ''row exceeds maximum page payload'')
      else
        and_then (index_at row 0) (\<lambda>version.
        if version \<noteq> ROW_FORMAT_VERSION then Err (RE_Corrupt ''unsupported row format version'')
        else
          and_then (validate_loop row 0 (zip columns (layout_columns l)) (minimum_row_size l)) (\<lambda>expected.
          if expected \<noteq> length row then Err (RE_Corrupt ''row has trailing or unreferenced payload'')
          else Ok ())))"

definition variable_payload :: "bytes \<Rightarrow> bytes \<Rightarrow> bytes row_result" where
  "variable_payload row descriptor =
     and_then (row_read_u32 descriptor 0) (\<lambda>offset.
     and_then (row_read_u32 descriptor 4) (\<lambda>len.
       slice_at row (unat offset) (unat len)))"

text \<open>\<^verbatim>\<open>bytes.try_into().expect(\<dots>)\<close> for an array of eight bytes.\<close>

definition eight_bytes :: "bytes \<Rightarrow> bytes row_result" where
  "eight_bytes bs = (if length bs = 8 then Ok bs else Panic)"

definition decode_column_unchecked :: "row_layout \<Rightarrow> column_schema list \<Rightarrow> bytes \<Rightarrow> usize \<Rightarrow> value_ref row_result" where
  "decode_column_unchecked l columns row index =
     and_then (is_null row index) (\<lambda>null.
     if null then Ok R_Null
     else
       and_then (index_at columns index) (\<lambda>column.
       and_then (index_at (layout_columns l) index) (\<lambda>layout.
       and_then (slice_at row (layout_offset layout) (layout_width layout)) (\<lambda>bs.
       case column_type column of
         DT_Int \<Rightarrow> and_then (eight_bytes bs) (\<lambda>b. Ok (R_Int (from_le b)))
       | DT_Float \<Rightarrow> and_then (eight_bytes bs) (\<lambda>b. Ok (R_Float (from_le b)))
       | DT_Bool \<Rightarrow> and_then (index_at bs 0) (\<lambda>b. Ok (R_Bool (b = 1)))
       | DT_Text \<Rightarrow> and_then (variable_payload row bs) (\<lambda>payload.
           if is_str payload then Ok (R_Text payload) else Panic)
       | DT_Bytes \<Rightarrow> and_then (variable_payload row bs) (\<lambda>payload. Ok (R_Bytes payload))))))"

text \<open>\<^verbatim>\<open>iter.map(f).collect::<Result<Vec<_>, _>>()\<close>.\<close>

fun collect_results :: "('k \<Rightarrow> ('a, 'e) result) \<Rightarrow> 'k list \<Rightarrow> ('a list, 'e) result" where
  "collect_results f [] = Ok []"
| "collect_results f (k # ks) = and_then (f k) (\<lambda>x. and_then (collect_results f ks) (\<lambda>xs. Ok (x # xs)))"

definition decode :: "row_layout \<Rightarrow> column_schema list \<Rightarrow> bytes \<Rightarrow> value_ref list row_result" where
  "decode l columns row =
     and_then (validate_row l columns row) (\<lambda>_.
       collect_results (decode_column_unchecked l columns row) [0..<length columns])"

fun check_projection :: "usize \<Rightarrow> usize list \<Rightarrow> unit row_result" where
  "check_projection n [] = Ok ()"
| "check_projection n (index # rest) =
     (if n \<le> index then Err (RE_ColumnOutOfBounds index n) else check_projection n rest)"

definition project :: "row_layout \<Rightarrow> column_schema list \<Rightarrow> bytes \<Rightarrow> usize list \<Rightarrow> value_ref list row_result" where
  "project l columns row projected =
     and_then (check_projection (length columns) projected) (\<lambda>_.
     and_then (validate_row l columns row) (\<lambda>_.
       collect_results (decode_column_unchecked l columns row) projected))"

definition decode_column :: "row_layout \<Rightarrow> column_schema list \<Rightarrow> bytes \<Rightarrow> usize \<Rightarrow> value_ref row_result" where
  "decode_column l columns row index =
     (if length columns \<le> index then Err (RE_ColumnOutOfBounds index (length columns))
      else and_then (validate_row l columns row) (\<lambda>_. decode_column_unchecked l columns row index))"

end
