(* ===== verification/Table.thy ===== *)
theory Table
  imports Row
begin

text \<open>
  Table schemas, \<^verbatim>\<open>src/schema/table.rs\<close>: the checks of \<^verbatim>\<open>TableSchema::new\<close>, the encoding of the
  declarations and the cursor that decodes them.
\<close>

definition SCHEMA_MAGIC :: bytes where
  "SCHEMA_MAGIC = [78, 83, 67, 72]"

abbreviation (input) SCHEMA_FORMAT_VERSION :: u16 where "SCHEMA_FORMAT_VERSION \<equiv> 1"
abbreviation (input) MAX_COLUMNS :: usize where "MAX_COLUMNS \<equiv> 1024"
abbreviation (input) MAX_IDENTIFIER_BYTES :: usize where "MAX_IDENTIFIER_BYTES \<equiv> 255"
abbreviation (input) FLAG_NULLABLE :: u8 where "FLAG_NULLABLE \<equiv> 1"
abbreviation (input) FLAG_PRIMARY_KEY :: u8 where "FLAG_PRIMARY_KEY \<equiv> 2"
abbreviation (input) KNOWN_COLUMN_FLAGS :: u8 where "KNOWN_COLUMN_FLAGS \<equiv> FLAG_NULLABLE OR FLAG_PRIMARY_KEY"

datatype schema_error =
    SE_InvalidIdentifier string str
  | SE_NoColumns
  | SE_TooManyColumns usize usize
  | SE_DuplicateColumn str
  | SE_MissingPrimaryKey
  | SE_MultiplePrimaryKeys
  | SE_NullablePrimaryKey str
  | SE_SchemaTooWide usize usize
  | SE_CorruptEncoding string

type_synonym 'a schema_result = "('a, schema_error) result"

section \<open>Columns\<close>

fun data_type_name :: "data_type \<Rightarrow> string" where
  "data_type_name DT_Int = ''int''"
| "data_type_name DT_Float = ''float''"
| "data_type_name DT_Bool = ''bool''"
| "data_type_name DT_Text = ''text''"
| "data_type_name DT_Bytes = ''bytes''"

fun type_tag :: "data_type \<Rightarrow> u8" where
  "type_tag DT_Int = 1"
| "type_tag DT_Float = 2"
| "type_tag DT_Bool = 3"
| "type_tag DT_Text = 4"
| "type_tag DT_Bytes = 5"

definition type_from_tag :: "u8 \<Rightarrow> data_type schema_result" where
  "type_from_tag tag =
     (if tag = 1 then Ok DT_Int
      else if tag = 2 then Ok DT_Float
      else if tag = 3 then Ok DT_Bool
      else if tag = 4 then Ok DT_Text
      else if tag = 5 then Ok DT_Bytes
      else Err (SE_CorruptEncoding ''unknown column type tag''))"

definition required_column :: "str \<Rightarrow> data_type \<Rightarrow> column_schema" where
  "required_column name t =
     \<lparr>column_name = name, column_type = t, column_nullable = False, column_primary_key = False\<rparr>"

definition nullable_column :: "str \<Rightarrow> data_type \<Rightarrow> column_schema" where
  "nullable_column name t =
     \<lparr>column_name = name, column_type = t, column_nullable = True, column_primary_key = False\<rparr>"

definition primary_key_column :: "str \<Rightarrow> data_type \<Rightarrow> column_schema" where
  "primary_key_column name t =
     \<lparr>column_name = name, column_type = t, column_nullable = False, column_primary_key = True\<rparr>"

section \<open>Schemas\<close>

record table_schema =
  schema_name :: str
  schema_columns :: "column_schema list"
  primary_key_index :: usize
  schema_layout :: row_layout

definition ascii_alphabetic :: "unicode_char \<Rightarrow> bool" where
  "ascii_alphabetic c \<longleftrightarrow> 65 \<le> c \<and> c \<le> 90 \<or> 97 \<le> c \<and> c \<le> 122"

definition ascii_alphanumeric :: "unicode_char \<Rightarrow> bool" where
  "ascii_alphanumeric c \<longleftrightarrow> ascii_alphabetic c \<or> 48 \<le> c \<and> c \<le> 57"

definition validate_identifier :: "string \<Rightarrow> str \<Rightarrow> unit schema_result" where
  "validate_identifier kind identifier =
     (if identifier = [] \<or> MAX_IDENTIFIER_BYTES < length identifier
      then Err (SE_InvalidIdentifier kind identifier)
      else case chars identifier of
        [] \<Rightarrow> Err (SE_InvalidIdentifier kind identifier)
      | first # rest \<Rightarrow>
          if \<not> (first = 95 \<or> ascii_alphabetic first) \<or> \<not> (\<forall>c\<in>set rest. c = 95 \<or> ascii_alphanumeric c)
          then Err (SE_InvalidIdentifier kind identifier)
          else Ok ())"

text \<open>The loop of \<^verbatim>\<open>new\<close> over the columns, with its variables \<open>names\<close> and \<open>primary_key_index\<close>.\<close>

fun check_columns :: "usize \<Rightarrow> str set \<Rightarrow> usize option \<Rightarrow> column_schema list \<Rightarrow> usize option schema_result" where
  "check_columns index names pk [] = Ok pk"
| "check_columns index names pk (column # columns) =
     and_then (validate_identifier ''column'' (column_name column)) (\<lambda>_.
     if column_name column \<in> names then Err (SE_DuplicateColumn (column_name column))
     else if column_primary_key column then
       (if pk \<noteq> None then Err SE_MultiplePrimaryKeys
        else if column_nullable column then Err (SE_NullablePrimaryKey (column_name column))
        else check_columns (index + 1) (insert (column_name column) names) (Some index) columns)
     else check_columns (index + 1) (insert (column_name column) names) pk columns)"

definition schema_new :: "str \<Rightarrow> column_schema list \<Rightarrow> table_schema schema_result" where
  "schema_new name columns =
     and_then (validate_identifier ''table'' name) (\<lambda>_.
     if columns = [] then Err SE_NoColumns
     else if MAX_COLUMNS < length columns then Err (SE_TooManyColumns (length columns) MAX_COLUMNS)
     else
       and_then (check_columns 0 {} None columns) (\<lambda>found.
       and_then (ok_or found SE_MissingPrimaryKey) (\<lambda>pk.
         let l = compile columns in
         if MAX_ROW_SIZE < minimum_row_size l
         then Err (SE_SchemaTooWide (minimum_row_size l) MAX_ROW_SIZE)
         else Ok \<lparr>schema_name = name, schema_columns = columns, primary_key_index = pk, schema_layout = l\<rparr>)))"

text \<open>\<^verbatim>\<open>iter().position(\<dots>)\<close>.\<close>

fun position :: "('a \<Rightarrow> bool) \<Rightarrow> 'a list \<Rightarrow> usize option" where
  "position f [] = None"
| "position f (x # xs) = (if f x then Some 0 else map_option Suc (position f xs))"

definition column_index :: "table_schema \<Rightarrow> str \<Rightarrow> usize option" where
  "column_index s name = position (\<lambda>column. column_name column = name) (schema_columns s)"

definition schema_column :: "table_schema \<Rightarrow> usize \<Rightarrow> column_schema option" where
  "schema_column s index = (if index < length (schema_columns s) then Some (schema_columns s ! index) else None)"

definition schema_primary_key :: "table_schema \<Rightarrow> column_schema schema_result" where
  "schema_primary_key s = index_at (schema_columns s) (primary_key_index s)"

definition encode_row :: "table_schema \<Rightarrow> row_value list \<Rightarrow> bytes row_result" where
  "encode_row s vals = encode (schema_layout s) (schema_columns s) vals"

definition decode_row :: "table_schema \<Rightarrow> bytes \<Rightarrow> value_ref list row_result" where
  "decode_row s row = decode (schema_layout s) (schema_columns s) row"

definition project_row :: "table_schema \<Rightarrow> bytes \<Rightarrow> usize list \<Rightarrow> value_ref list row_result" where
  "project_row s row columns = project (schema_layout s) (schema_columns s) row columns"

definition primary_key_value :: "table_schema \<Rightarrow> bytes \<Rightarrow> value_ref row_result" where
  "primary_key_value s row = decode_column (schema_layout s) (schema_columns s) row (primary_key_index s)"

section \<open>Encoding\<close>

definition write_string :: "bytes \<Rightarrow> str \<Rightarrow> bytes" where
  "write_string bs val = (bs @ to_le 2 (as_u16 (length val))) @ val"

definition write_column :: "bytes \<Rightarrow> column_schema \<Rightarrow> bytes" where
  "write_column bs column =
     (let bs = write_string bs (column_name column);
          bs = bs @ [type_tag (column_type column)];
          flags = 0;
          flags = (if column_nullable column then flags OR FLAG_NULLABLE else flags);
          flags = (if column_primary_key column then flags OR FLAG_PRIMARY_KEY else flags)
      in bs @ [flags])"

definition schema_encode :: "table_schema \<Rightarrow> bytes" where
  "schema_encode s =
     (let bs = SCHEMA_MAGIC;
          bs = bs @ to_le 2 SCHEMA_FORMAT_VERSION;
          bs = bs @ to_le 2 (as_u16 (length (schema_columns s)));
          bs = write_string bs (schema_name s)
      in foldl write_column bs (schema_columns s))"

section \<open>Decoding\<close>

record cursor =
  cursor_bytes :: bytes
  cursor_position :: usize

type_synonym 'a cursor_act = "(cursor, 'a, schema_error) act"

definition cursor_new :: "bytes \<Rightarrow> cursor" where
  "cursor_new bs = \<lparr>cursor_bytes = bs, cursor_position = 0\<rparr>"

definition cursor_take :: "usize \<Rightarrow> bytes cursor_act" where
  "cursor_take len c =
     (case checked_add_usize (cursor_position c) len of
        Some e \<Rightarrow>
          if e \<le> length (cursor_bytes c)
          then (Ok (slice (cursor_position c) (e - cursor_position c) (cursor_bytes c)), c\<lparr>cursor_position := e\<rparr>)
          else (Err (SE_CorruptEncoding ''truncated schema encoding''), c)
      | None \<Rightarrow> (Err (SE_CorruptEncoding ''truncated schema encoding''), c))"

definition cursor_read_u8 :: "u8 cursor_act" where
  "cursor_read_u8 = bind_act (cursor_take 1) (\<lambda>bs. query (\<lambda>_. index_at bs 0))"

definition cursor_read_u16 :: "u16 cursor_act" where
  "cursor_read_u16 =
     bind_act (cursor_take 2) (\<lambda>bs.
     query (\<lambda>_. and_then (index_at bs 0) (\<lambda>a. and_then (index_at bs 1) (\<lambda>b. Ok (from_le [a, b])))))"

definition cursor_read_string :: "str cursor_act" where
  "cursor_read_string =
     bind_act cursor_read_u16 (\<lambda>len.
     bind_act (cursor_take (unat len)) (\<lambda>bs.
     if is_str bs then ret bs else fail (SE_CorruptEncoding ''schema identifier is not UTF-8'')))"

definition cursor_is_empty :: "cursor \<Rightarrow> bool" where
  "cursor_is_empty c \<longleftrightarrow> cursor_position c = length (cursor_bytes c)"

definition decode_declaration :: "column_schema cursor_act" where
  "decode_declaration =
     bind_act cursor_read_string (\<lambda>name.
     bind_act cursor_read_u8 (\<lambda>tag.
     bind_act (query (\<lambda>_. type_from_tag tag)) (\<lambda>t.
     bind_act cursor_read_u8 (\<lambda>flags.
     if flags AND NOT KNOWN_COLUMN_FLAGS \<noteq> 0 then fail (SE_CorruptEncoding ''unknown column flags'')
     else ret \<lparr>column_name = name, column_type = t, column_nullable = (flags AND FLAG_NULLABLE \<noteq> 0),
               column_primary_key = (flags AND FLAG_PRIMARY_KEY \<noteq> 0)\<rparr>))))"

fun decode_columns :: "nat \<Rightarrow> column_schema list \<Rightarrow> column_schema list cursor_act" where
  "decode_columns 0 columns = ret columns"
| "decode_columns (Suc n) columns =
     bind_act decode_declaration (\<lambda>column. decode_columns n (columns @ [column]))"

text \<open>\<^verbatim>\<open>TableSchema::decode\<close> after the column count has been read, and from its start.\<close>

definition decode_declarations :: "usize \<Rightarrow> table_schema cursor_act" where
  "decode_declarations column_count =
     bind_act cursor_read_string (\<lambda>name.
     bind_act (decode_columns column_count []) (\<lambda>columns.
     bind_act (query (\<lambda>c. Ok (cursor_is_empty c))) (\<lambda>empty.
     if \<not> empty then fail (SE_CorruptEncoding ''trailing bytes after schema declaration'')
     else query (\<lambda>_. schema_new name columns))))"

definition decode_schema :: "table_schema cursor_act" where
  "decode_schema =
     bind_act (cursor_take (length SCHEMA_MAGIC)) (\<lambda>magic.
     if magic \<noteq> SCHEMA_MAGIC then fail (SE_CorruptEncoding ''invalid schema magic'')
     else
       bind_act cursor_read_u16 (\<lambda>version.
       if version \<noteq> SCHEMA_FORMAT_VERSION then fail (SE_CorruptEncoding ''unsupported schema format version'')
       else
         bind_act cursor_read_u16 (\<lambda>count.
         let column_count = unat count in
         if column_count = 0 \<or> MAX_COLUMNS < column_count
         then fail (SE_CorruptEncoding ''invalid schema column count'')
         else decode_declarations column_count)))"

definition schema_decode :: "bytes \<Rightarrow> table_schema schema_result" where
  "schema_decode bs = fst (decode_schema (cursor_new bs))"

end
