(* ===== verification/Page.thy ===== *)
theory Page
  imports Prelude
begin

text \<open>
  The raw page of \<^verbatim>\<open>src/storage/page.rs\<close> and the row identifier of
  \<^verbatim>\<open>src/storage/rid.rs\<close>: 8192 bytes with checked reads and writes, a dirty flag that
  every write sets, and the eight-byte encoding of a RID. The newtypes \<^verbatim>\<open>PageId\<close>
  and \<^verbatim>\<open>SlotId\<close> are their machine words.
\<close>

section \<open>Pages\<close>

abbreviation (input) PAGE_SIZE :: usize where
  "PAGE_SIZE \<equiv> 8192"

abbreviation (input) PAGE_HEADER_SIZE :: usize where
  "PAGE_HEADER_SIZE \<equiv> 32"

type_synonym page_id = u32

definition file_offset :: "page_id \<Rightarrow> u64" where
  "file_offset page = ucast page * of_nat PAGE_SIZE"

definition page_id_to_le_bytes :: "page_id \<Rightarrow> bytes" where
  "page_id_to_le_bytes page = to_le 4 page"

definition page_id_from_le_bytes :: "bytes \<Rightarrow> page_id" where
  "page_id_from_le_bytes bs = from_le bs"

record page =
  page_ident :: page_id
  page_bytes :: bytes
  page_dirty :: bool

text \<open>The array type \<^verbatim>\<open>[u8; PAGE_SIZE]\<close>: every page of the program has this length.\<close>

definition page_sized :: "page \<Rightarrow> bool" where
  "page_sized p \<longleftrightarrow> length (page_bytes p) = PAGE_SIZE"

datatype page_error = OutOfBounds usize usize

definition zeroed :: "page_id \<Rightarrow> page" where
  "zeroed pid = \<lparr>page_ident = pid, page_bytes = replicate PAGE_SIZE 0, page_dirty = False\<rparr>"

definition from_bytes :: "page_id \<Rightarrow> bytes \<Rightarrow> page" where
  "from_bytes pid bs = \<lparr>page_ident = pid, page_bytes = bs, page_dirty = False\<rparr>"

definition mark_clean :: "page \<Rightarrow> page" where
  "mark_clean p = p\<lparr>page_dirty := False\<rparr>"

definition checked_range :: "usize \<Rightarrow> usize \<Rightarrow> (usize \<times> usize, page_error) result" where
  "checked_range offset len =
     (case checked_add_usize offset len of
        Some e \<Rightarrow> if e \<le> PAGE_SIZE then Ok (offset, e) else Err (OutOfBounds offset len)
      | None \<Rightarrow> Err (OutOfBounds offset len))"

definition page_read :: "usize \<Rightarrow> usize \<Rightarrow> page \<Rightarrow> (bytes, page_error) result" where
  "page_read offset len p =
     and_then (checked_range offset len) (\<lambda>(a, b). Ok (slice a (b - a) (page_bytes p)))"

definition page_write :: "usize \<Rightarrow> bytes \<Rightarrow> (page, unit, page_error) act" where
  "page_write offset src =
     (\<lambda>p. case checked_range offset (length src) of
        Ok (a, b) \<Rightarrow> (Ok (), p\<lparr>page_bytes := splice a src (page_bytes p), page_dirty := True\<rparr>)
      | Err e \<Rightarrow> (Err e, p)
      | Panic \<Rightarrow> (Panic, p))"

definition read_u16 :: "usize \<Rightarrow> page \<Rightarrow> (u16, page_error) result" where
  "read_u16 offset p = and_then (page_read offset 2 p) (\<lambda>bs. Ok (from_le bs))"

definition write_u16 :: "usize \<Rightarrow> u16 \<Rightarrow> (page, unit, page_error) act" where
  "write_u16 offset v = page_write offset (to_le 2 v)"

definition read_u32 :: "usize \<Rightarrow> page \<Rightarrow> (u32, page_error) result" where
  "read_u32 offset p = and_then (page_read offset 4 p) (\<lambda>bs. Ok (from_le bs))"

definition write_u32 :: "usize \<Rightarrow> u32 \<Rightarrow> (page, unit, page_error) act" where
  "write_u32 offset v = page_write offset (to_le 4 v)"

subsection \<open>Facts about pages\<close>

lemma unat_file_offset: "unat (file_offset p) = unat p * PAGE_SIZE"
proof -
  have "unat (ucast p :: u64) = unat p"
    by (simp add: unsigned_ucast_eq take_bit_nat_eq_self unat_u32_less [THEN less_trans])
  moreover have "unat p * PAGE_SIZE < 18446744073709551616"
    using unat_u32_less [of p] by simp
  ultimately show ?thesis
    by (simp add: file_offset_def unat_word_ariths)
qed

lemma checked_range_eq:
  "checked_range off n = (if off + n \<le> PAGE_SIZE then Ok (off, off + n) else Err (OutOfBounds off n))"
  by (simp add: checked_range_def checked_add_usize_def)

lemma page_read_eq:
  "page_read off n p =
     (if off + n \<le> PAGE_SIZE then Ok (slice off n (page_bytes p)) else Err (OutOfBounds off n))"
  by (simp add: page_read_def checked_range_eq)

lemma page_write_eq:
  "page_write off src p =
     (if off + length src \<le> PAGE_SIZE
      then (Ok (), p\<lparr>page_bytes := splice off src (page_bytes p), page_dirty := True\<rparr>)
      else (Err (OutOfBounds off (length src)), p))"
  by (simp add: page_write_def checked_range_eq)

lemma read_u16_eq:
  "read_u16 off p =
     (if off + 2 \<le> PAGE_SIZE then Ok (from_le (slice off 2 (page_bytes p))) else Err (OutOfBounds off 2))"
  by (simp add: read_u16_def page_read_eq)

lemma read_u32_eq:
  "read_u32 off p =
     (if off + 4 \<le> PAGE_SIZE then Ok (from_le (slice off 4 (page_bytes p))) else Err (OutOfBounds off 4))"
  by (simp add: read_u32_def page_read_eq)

lemma page_sized_zeroed [simp]: "page_sized (zeroed pid)"
  by (simp add: page_sized_def zeroed_def)

text \<open>A write either stores exactly the given bytes, leaves every other byte alone, keeps
  the page's size and marks it dirty, or fails with the page untouched; it fails exactly
  when the range leaves the page.\<close>

theorem page_write_correct:
  assumes "page_sized p" and "page_write off src p = (r, p')"
  shows "page_sized p' \<and>
    (if off + length src \<le> PAGE_SIZE
     then r = Ok () \<and> page_dirty p' \<and> page_read off (length src) p' = Ok src
          \<and> (\<forall>i. i < off \<or> off + length src \<le> i \<longrightarrow> page_bytes p' ! i = page_bytes p ! i \<or> PAGE_SIZE \<le> i)
     else r = Err (OutOfBounds off (length src)) \<and> p' = p)"
  using assms
  by (auto simp: page_write_eq page_read_eq page_sized_def nth_splice split: if_splits)

theorem page_write_correct_witness:
  "page_sized (snd (page_write 20 (to_le 4 (305419896 :: u32)) (zeroed 1)))
   \<and> page_read 20 4 (snd (page_write 20 (to_le 4 (305419896 :: u32)) (zeroed 1))) = Ok [120, 86, 52, 18]"
proof -
  let ?src = "to_le 4 (305419896 :: u32)"
  have "page_sized (snd (page_write 20 ?src (zeroed 1)))
    \<and> page_read 20 4 (snd (page_write 20 ?src (zeroed 1))) = Ok ?src"
    using page_write_correct [of "zeroed 1" 20 ?src, OF page_sized_zeroed prod.collapse [symmetric]]
    by simp
  moreover have "?src = [120, 86, 52, 18]"
    by (simp add: to_le_4)
  ultimately show ?thesis by metis
qed

section \<open>Row identifiers\<close>

abbreviation (input) RID_SIZE :: usize where
  "RID_SIZE \<equiv> 8"

type_synonym slot_id = u16

record rid =
  rid_page :: page_id
  rid_slot :: slot_id
  rid_generation :: u16

definition rid_new :: "page_id \<Rightarrow> slot_id \<Rightarrow> u16 \<Rightarrow> rid" where
  "rid_new page slot gen = \<lparr>rid_page = page, rid_slot = slot, rid_generation = gen\<rparr>"

definition rid_encode :: "rid \<Rightarrow> bytes" where
  "rid_encode r =
     (let page = page_id_to_le_bytes (rid_page r);
          slot = to_le 2 (rid_slot r);
          generation = to_le 2 (rid_generation r)
      in [page ! 0, page ! 1, page ! 2, page ! 3, slot ! 0, slot ! 1,
          generation ! 0, generation ! 1])"

definition rid_decode :: "bytes \<Rightarrow> rid" where
  "rid_decode bs =
     \<lparr>rid_page = page_id_from_le_bytes [bs ! 0, bs ! 1, bs ! 2, bs ! 3],
      rid_slot = from_le [bs ! 4, bs ! 5],
      rid_generation = from_le [bs ! 6, bs ! 7]\<rparr>"

lemma list_of_nths:
  "length xs = 2 \<Longrightarrow> [xs ! 0, xs ! Suc 0] = xs"
  "length xs = 4 \<Longrightarrow> [xs ! 0, xs ! Suc 0, xs ! 2, xs ! 3] = xs"
  by (auto simp: eval_nat_numeral length_Suc_conv)

lemma rid_roundtrip [simp]: "rid_decode (rid_encode r) = r"
  by (simp add: rid_decode_def rid_encode_def page_id_to_le_bytes_def page_id_from_le_bytes_def
      Let_def list_of_nths del: from_le.simps)

lemma rid_encode_decode: "length bs = RID_SIZE \<Longrightarrow> rid_encode (rid_decode bs) = bs"
proof -
  assume "length bs = RID_SIZE"
  then obtain a b c d e f g h where bs: "bs = [a, b, c, d, e, f, g, h]"
    by (auto simp: numeral_eq_Suc length_Suc_conv)
  have "to_le 4 (from_le [a, b, c, d] :: u32) = [a, b, c, d]"
    and "to_le 2 (from_le [e, f] :: u16) = [e, f]" and "to_le 2 (from_le [g, h] :: u16) = [g, h]"
    using to_le_from_le [of "[a, b, c, d]", where 'a = 32] to_le_from_le [of "[e, f]", where 'a = 16]
      to_le_from_le [of "[g, h]", where 'a = 16] by (simp_all add: numeral_eq_Suc del: from_le.simps to_le.simps)
  then show ?thesis
    by (simp add: bs rid_decode_def rid_encode_def page_id_to_le_bytes_def page_id_from_le_bytes_def
        Let_def del: from_le.simps)
qed

end
