(* ===== verification/Slotted_Page.thy ===== *)
theory Slotted_Page
  imports Page
begin

text \<open>
  The slotted heap page of \<^verbatim>\<open>src/heap/slotted_page.rs\<close>, operation by operation: a page
  owned, mutably borrowed or shared, a 32-byte header, a directory of 8-byte slot entries
  that grows upwards and record bytes that grow downwards. Every \<^verbatim>\<open>expect\<close>,
  every checked sum and every early return of the source is a branch here, and every
  operation returns the page it leaves behind also when it fails.
\<close>

section \<open>Constants and data\<close>

abbreviation (input) SLOT_ENTRY_SIZE :: usize where "SLOT_ENTRY_SIZE \<equiv> 8"

definition HEAP_MAGIC :: bytes where
  "HEAP_MAGIC = [78, 72, 80, 71]"

lemma length_HEAP_MAGIC [simp]: "length HEAP_MAGIC = 4"
  by (simp add: HEAP_MAGIC_def)

abbreviation (input) FORMAT_VERSION :: u8 where "FORMAT_VERSION \<equiv> 1"
abbreviation (input) HEAP_PAGE_KIND :: u8 where "HEAP_PAGE_KIND \<equiv> 1"
abbreviation (input) INVALID_PAGE_ID :: u32 where "INVALID_PAGE_ID \<equiv> 4294967295"

abbreviation (input) MAGIC_OFFSET :: usize where "MAGIC_OFFSET \<equiv> 0"
abbreviation (input) VERSION_OFFSET :: usize where "VERSION_OFFSET \<equiv> 4"
abbreviation (input) PAGE_KIND_OFFSET :: usize where "PAGE_KIND_OFFSET \<equiv> 5"
abbreviation (input) FLAGS_OFFSET :: usize where "FLAGS_OFFSET \<equiv> 6"
abbreviation (input) SLOT_COUNT_OFFSET :: usize where "SLOT_COUNT_OFFSET \<equiv> 8"
abbreviation (input) FREE_START_OFFSET :: usize where "FREE_START_OFFSET \<equiv> 10"
abbreviation (input) FREE_END_OFFSET :: usize where "FREE_END_OFFSET \<equiv> 12"
abbreviation (input) LIVE_COUNT_OFFSET :: usize where "LIVE_COUNT_OFFSET \<equiv> 14"
abbreviation (input) NEXT_PAGE_ID_OFFSET :: usize where "NEXT_PAGE_ID_OFFSET \<equiv> 16"
abbreviation (input) PAGE_LSN_OFFSET :: usize where "PAGE_LSN_OFFSET \<equiv> 20"
abbreviation (input) CHECKSUM_OFFSET :: usize where "CHECKSUM_OFFSET \<equiv> 28"

abbreviation (input) SLOT_RECORD_OFFSET :: usize where "SLOT_RECORD_OFFSET \<equiv> 0"
abbreviation (input) SLOT_RECORD_LENGTH :: usize where "SLOT_RECORD_LENGTH \<equiv> 2"
abbreviation (input) SLOT_GENERATION :: usize where "SLOT_GENERATION \<equiv> 4"
abbreviation (input) SLOT_FLAGS :: usize where "SLOT_FLAGS \<equiv> 6"

abbreviation (input) SLOT_LIVE :: u16 where "SLOT_LIVE \<equiv> 1"
abbreviation (input) SLOT_RETIRED :: u16 where "SLOT_RETIRED \<equiv> 2"

datatype page_backing = Owned page | Borrowed page | Shared page

record slotted_page =
  backing :: page_backing

datatype slotted_page_error =
    SP_Page page_error
  | SP_Corrupt string
  | SP_RecordTooLarge usize
  | SP_NoSpace usize usize
  | SP_InvalidRid rid
  | SP_ReadOnly

type_synonym 'a sp_result = "('a, slotted_page_error) result"
type_synonym 'a sp_act = "(slotted_page, 'a, slotted_page_error) act"

section \<open>Access to the backing page\<close>

definition page_ref :: "slotted_page \<Rightarrow> page" where
  "page_ref sp = (case backing sp of Owned p \<Rightarrow> p | Borrowed p \<Rightarrow> p | Shared p \<Rightarrow> p)"

text \<open>
  \<^verbatim>\<open>self.page_mut()?.f(..)?\<close>: run \<open>f\<close> on the owned or borrowed page, and refuse a
  shared one.
\<close>

definition page_mut :: "(page, 'a, page_error) act \<Rightarrow> 'a sp_act" where
  "page_mut f = (\<lambda>sp. case backing sp of
     Owned p \<Rightarrow> (case f p of (r, p') \<Rightarrow> (map_err SP_Page r, sp\<lparr>backing := Owned p'\<rparr>))
   | Borrowed p \<Rightarrow> (case f p of (r, p') \<Rightarrow> (map_err SP_Page r, sp\<lparr>backing := Borrowed p'\<rparr>))
   | Shared p \<Rightarrow> (Err SP_ReadOnly, sp))"

definition header_u16 :: "usize \<Rightarrow> slotted_page \<Rightarrow> u16 sp_result" where
  "header_u16 offset sp = expect (read_u16 offset (page_ref sp))"

definition write_header_u16 :: "usize \<Rightarrow> u16 \<Rightarrow> unit sp_act" where
  "write_header_u16 offset v = page_mut (write_u16 offset v)"

definition slot_offset :: "slot_id \<Rightarrow> usize" where
  "slot_offset slot = PAGE_HEADER_SIZE + unat slot * SLOT_ENTRY_SIZE"

definition slot_u16 :: "slot_id \<Rightarrow> usize \<Rightarrow> slotted_page \<Rightarrow> u16 sp_result" where
  "slot_u16 slot field_offset sp = expect (read_u16 (slot_offset slot + field_offset) (page_ref sp))"

definition write_slot_u16 :: "slot_id \<Rightarrow> usize \<Rightarrow> u16 \<Rightarrow> unit sp_act" where
  "write_slot_u16 slot field_offset v = page_mut (write_u16 (slot_offset slot + field_offset) v)"

definition slot_count :: "slotted_page \<Rightarrow> u16 sp_result" where
  "slot_count = header_u16 SLOT_COUNT_OFFSET"

definition live_count :: "slotted_page \<Rightarrow> u16 sp_result" where
  "live_count = header_u16 LIVE_COUNT_OFFSET"

definition free_start :: "slotted_page \<Rightarrow> usize sp_result" where
  "free_start sp = and_then (header_u16 FREE_START_OFFSET sp) (\<lambda>w. Ok (unat w))"

definition free_end :: "slotted_page \<Rightarrow> usize sp_result" where
  "free_end sp = and_then (header_u16 FREE_END_OFFSET sp) (\<lambda>w. Ok (unat w))"

definition contiguous_free_space :: "slotted_page \<Rightarrow> usize sp_result" where
  "contiguous_free_space sp =
     and_then (free_end sp) (\<lambda>e. and_then (free_start sp) (\<lambda>s. sub_usize e s))"

definition next_page_id :: "slotted_page \<Rightarrow> page_id option sp_result" where
  "next_page_id sp =
     and_then (expect (read_u32 NEXT_PAGE_ID_OFFSET (page_ref sp)))
       (\<lambda>raw. Ok (if raw \<noteq> INVALID_PAGE_ID then Some raw else None))"

definition set_next_page_id :: "page_id option \<Rightarrow> unit sp_act" where
  "set_next_page_id next_id =
     page_mut (write_u32 NEXT_PAGE_ID_OFFSET (case next_id of None \<Rightarrow> INVALID_PAGE_ID | Some p \<Rightarrow> p))"

text \<open>\<^verbatim>\<open>(0..n).map(SlotId::new)\<close>.\<close>

definition slot_range :: "u16 \<Rightarrow> slot_id list" where
  "slot_range n = map of_nat [0..<unat n]"

section \<open>Initialization and validation\<close>

definition initialize_page :: "(page, unit, slotted_page_error) act" where
  "initialize_page =
     seq_act (expect_act (page_write 0 (replicate PAGE_SIZE 0)))
    (seq_act (expect_act (page_write MAGIC_OFFSET HEAP_MAGIC))
    (seq_act (expect_act (page_write VERSION_OFFSET [FORMAT_VERSION]))
    (seq_act (expect_act (page_write PAGE_KIND_OFFSET [HEAP_PAGE_KIND]))
    (seq_act (expect_act (write_u16 FLAGS_OFFSET 0))
    (seq_act (expect_act (write_u16 SLOT_COUNT_OFFSET 0))
    (seq_act (expect_act (write_u16 FREE_START_OFFSET (as_u16 PAGE_HEADER_SIZE)))
    (seq_act (expect_act (write_u16 FREE_END_OFFSET (as_u16 PAGE_SIZE)))
    (seq_act (expect_act (write_u16 LIVE_COUNT_OFFSET 0))
    (seq_act (expect_act (write_u32 NEXT_PAGE_ID_OFFSET INVALID_PAGE_ID))
    (seq_act (expect_act (page_write PAGE_LSN_OFFSET (replicate 8 0)))
             (expect_act (write_u32 CHECKSUM_OFFSET 0))))))))))))"

text \<open>\<open>slotted_new\<close> is \<^verbatim>\<open>SlottedPage::new\<close>, \<open>slotted_initialize\<close> is
  \<^verbatim>\<open>SlottedPage::initialize\<close>, which writes the caller's page.\<close>

definition slotted_new :: "page_id \<Rightarrow> slotted_page sp_result" where
  "slotted_new pid =
     (case initialize_page (zeroed pid) of
        (r, p) \<Rightarrow> and_then r (\<lambda>_. Ok \<lparr>backing = Owned p\<rparr>))"

definition slotted_initialize :: "page \<Rightarrow> slotted_page sp_result" where
  "slotted_initialize p =
     (case initialize_page p of
        (r, p') \<Rightarrow> and_then r (\<lambda>_. Ok \<lparr>backing = Borrowed p'\<rparr>))"

definition check :: "bool \<Rightarrow> string \<Rightarrow> unit sp_result" where
  "check bad reason = (if bad then Err (SP_Corrupt reason) else Ok ())"

text \<open>
  One round of the loop of \<^verbatim>\<open>validate\<close> over the slots; \<open>(observed_live, ranges)\<close> are its
  variables.
\<close>

definition validate_slot ::
  "slotted_page \<Rightarrow> slot_id \<Rightarrow> u16 \<times> (usize \<times> usize) list \<Rightarrow> (u16 \<times> (usize \<times> usize) list) sp_result"
where
  "validate_slot sp slot acc = (case acc of (observed_live, ranges) \<Rightarrow>
     and_then (slot_u16 slot SLOT_FLAGS sp) (\<lambda>flags.
     and_then (slot_u16 slot SLOT_RECORD_OFFSET sp) (\<lambda>raw_offset.
     and_then (slot_u16 slot SLOT_RECORD_LENGTH sp) (\<lambda>raw_length.
     and_then (slot_u16 slot SLOT_GENERATION sp) (\<lambda>generation.
       let offset = unat raw_offset; len = unat raw_length in
       if flags = SLOT_LIVE then
         and_then (check (generation = 0) ''live slot has generation zero'') (\<lambda>_.
         and_then (ok_or (case checked_add_usize offset len of
                            Some e \<Rightarrow> if e \<le> PAGE_SIZE then Some e else None
                          | None \<Rightarrow> None)
                     (SP_Corrupt ''record exceeds page boundary'')) (\<lambda>e.
         and_then (free_end sp) (\<lambda>fe.
         and_then (check (offset < fe) ''record begins inside free space'') (\<lambda>_.
         and_then (ok_or (checked_add_word observed_live 1)
                     (SP_Corrupt ''live slot count overflow'')) (\<lambda>observed_live'.
           Ok (observed_live', if len \<noteq> 0 then ranges @ [(offset, e)] else ranges))))))
       else if flags = 0 \<or> flags = SLOT_RETIRED then
         and_then (check (offset \<noteq> 0 \<or> len \<noteq> 0) ''non-live slot references record data'') (\<lambda>_.
           Ok (observed_live, ranges))
       else Err (SP_Corrupt ''invalid slot flags''))))))"

fun validate_slots ::
  "slotted_page \<Rightarrow> slot_id list \<Rightarrow> u16 \<times> (usize \<times> usize) list \<Rightarrow> (u16 \<times> (usize \<times> usize) list) sp_result"
where
  "validate_slots sp [] acc = Ok acc"
| "validate_slots sp (slot # slots) acc =
     and_then (validate_slot sp slot acc) (\<lambda>acc'. validate_slots sp slots acc')"

text \<open>\<^verbatim>\<open>ranges.windows(2).any(|pair| pair[0].end > pair[1].start)\<close>\<close>

fun windows_overlap :: "(usize \<times> usize) list \<Rightarrow> bool" where
  "windows_overlap (a # b # rest) \<longleftrightarrow> fst b < snd a \<or> windows_overlap (b # rest)"
| "windows_overlap _ \<longleftrightarrow> False"

definition validate :: "slotted_page \<Rightarrow> unit sp_result" where
  "validate sp =
     and_then (map_err SP_Page (page_read MAGIC_OFFSET (length HEAP_MAGIC) (page_ref sp))) (\<lambda>magic.
     and_then (check (magic \<noteq> HEAP_MAGIC) ''invalid heap-page magic'') (\<lambda>_.
     and_then (map_err SP_Page (page_read VERSION_OFFSET 1 (page_ref sp))) (\<lambda>version.
     and_then (check (version ! 0 \<noteq> FORMAT_VERSION) ''unsupported heap-page version'') (\<lambda>_.
     and_then (map_err SP_Page (page_read PAGE_KIND_OFFSET 1 (page_ref sp))) (\<lambda>kind.
     and_then (check (kind ! 0 \<noteq> HEAP_PAGE_KIND) ''page is not a heap page'') (\<lambda>_.
     and_then (slot_count sp) (\<lambda>count.
     and_then (ok_or (checked_mul_usize (unat count) SLOT_ENTRY_SIZE)
                 (SP_Corrupt ''slot directory overflow'')) (\<lambda>directory.
     and_then (ok_or (checked_add_usize PAGE_HEADER_SIZE directory)
                 (SP_Corrupt ''slot directory overflow'')) (\<lambda>expected_free_start.
     and_then (free_start sp) (\<lambda>fs.
     and_then (check (fs \<noteq> expected_free_start \<or> PAGE_SIZE < expected_free_start)
                 ''invalid slot-directory boundary'') (\<lambda>_.
     and_then (free_end sp) (\<lambda>fe.
     and_then (check (fe < fs \<or> PAGE_SIZE < fe) ''invalid free-space boundary'') (\<lambda>_.
     and_then (validate_slots sp (slot_range count) (0, [])) (\<lambda>(observed_live, ranges).
     and_then (live_count sp) (\<lambda>lc.
     and_then (check (observed_live \<noteq> lc) ''incorrect live slot count'') (\<lambda>_.
       check (windows_overlap (sort_key fst ranges)) ''live records overlap''))))))))))))))))"

definition from_backing :: "page_backing \<Rightarrow> slotted_page sp_result" where
  "from_backing b = and_then (validate \<lparr>backing = b\<rparr>) (\<lambda>_. Ok \<lparr>backing = b\<rparr>)"

definition from_page :: "page \<Rightarrow> slotted_page sp_result" where
  "from_page p = from_backing (Owned p)"

definition from_page_mut :: "page \<Rightarrow> slotted_page sp_result" where
  "from_page_mut p = from_backing (Borrowed p)"

definition from_page_ref :: "page \<Rightarrow> slotted_page sp_result" where
  "from_page_ref p = from_backing (Shared p)"

definition into_page :: "slotted_page \<Rightarrow> page sp_result" where
  "into_page sp = (case backing sp of Owned p \<Rightarrow> Ok p | Borrowed p \<Rightarrow> Panic | Shared p \<Rightarrow> Panic)"

section \<open>Lookup\<close>

definition sp_page_id :: "slotted_page \<Rightarrow> page_id" where
  "sp_page_id sp = page_ident (page_ref sp)"

definition validate_rid :: "rid \<Rightarrow> slotted_page \<Rightarrow> unit sp_result" where
  "validate_rid r sp =
     and_then (slot_count sp) (\<lambda>count.
     if rid_page r \<noteq> sp_page_id sp \<or> count \<le> rid_slot r then Err (SP_InvalidRid r)
     else and_then (slot_u16 (rid_slot r) SLOT_FLAGS sp) (\<lambda>flags.
          and_then (slot_u16 (rid_slot r) SLOT_GENERATION sp) (\<lambda>generation.
          if flags \<noteq> SLOT_LIVE \<or> generation \<noteq> rid_generation r then Err (SP_InvalidRid r)
          else Ok ())))"

definition sp_get :: "rid \<Rightarrow> slotted_page \<Rightarrow> bytes sp_result" where
  "sp_get r sp =
     and_then (validate_rid r sp) (\<lambda>_.
     and_then (slot_u16 (rid_slot r) SLOT_RECORD_OFFSET sp) (\<lambda>offset.
     and_then (slot_u16 (rid_slot r) SLOT_RECORD_LENGTH sp) (\<lambda>len.
       map_err SP_Page (page_read (unat offset) (unat len) (page_ref sp)))))"

fun live_rids_of :: "slotted_page \<Rightarrow> slot_id list \<Rightarrow> rid list sp_result" where
  "live_rids_of sp [] = Ok []"
| "live_rids_of sp (slot # slots) =
     and_then (slot_u16 slot SLOT_FLAGS sp) (\<lambda>flags.
     if flags = SLOT_LIVE
     then and_then (slot_u16 slot SLOT_GENERATION sp) (\<lambda>generation.
          and_then (live_rids_of sp slots) (\<lambda>rids.
            Ok (rid_new (sp_page_id sp) slot generation # rids)))
     else live_rids_of sp slots)"

definition live_rids :: "slotted_page \<Rightarrow> rid list sp_result" where
  "live_rids sp = and_then (slot_count sp) (\<lambda>count. live_rids_of sp (slot_range count))"

fun find_reusable_in :: "slotted_page \<Rightarrow> slot_id list \<Rightarrow> slot_id option sp_result" where
  "find_reusable_in sp [] = Ok None"
| "find_reusable_in sp (slot # slots) =
     and_then (slot_u16 slot SLOT_FLAGS sp) (\<lambda>flags.
     if flags = 0 then Ok (Some slot) else find_reusable_in sp slots)"

definition find_reusable_slot :: "slotted_page \<Rightarrow> slot_id option sp_result" where
  "find_reusable_slot sp = and_then (slot_count sp) (\<lambda>count. find_reusable_in sp (slot_range count))"

fun sum_live_lengths :: "slotted_page \<Rightarrow> slot_id list \<Rightarrow> usize \<Rightarrow> usize sp_result" where
  "sum_live_lengths sp [] acc = Ok acc"
| "sum_live_lengths sp (slot # slots) acc =
     and_then (slot_u16 slot SLOT_FLAGS sp) (\<lambda>flags.
     if flags = SLOT_LIVE
     then and_then (slot_u16 slot SLOT_RECORD_LENGTH sp) (\<lambda>len.
          and_then (ok_or (checked_add_usize acc (unat len))
                      (SP_Corrupt ''live record size overflow'')) (\<lambda>acc'.
            sum_live_lengths sp slots acc'))
     else sum_live_lengths sp slots acc)"

definition free_space_after_compaction :: "usize \<Rightarrow> slotted_page \<Rightarrow> usize sp_result" where
  "free_space_after_compaction directory_growth sp =
     and_then (slot_count sp) (\<lambda>count.
     and_then (sum_live_lengths sp (slot_range count) 0) (\<lambda>live_bytes.
     and_then (free_start sp) (\<lambda>fs.
       ok_or (Option.bind (checked_sub_usize PAGE_SIZE fs) (\<lambda>space.
              Option.bind (checked_sub_usize space directory_growth) (\<lambda>space'.
                checked_sub_usize space' live_bytes)))
         (SP_Corrupt ''page metadata and live records exceed page size''))))"

section \<open>Compaction, insertion, deletion\<close>

text \<open>
  The loop of \<^verbatim>\<open>compact\<close> over the slots, with its variables \<open>packed\<close>, \<open>new_offsets\<close> and
  \<open>target_end\<close>. It only reads the page.
\<close>

fun compact_loop ::
  "slotted_page \<Rightarrow> slot_id list \<Rightarrow> bytes \<times> (slot_id \<times> u16) list \<times> usize
   \<Rightarrow> (bytes \<times> (slot_id \<times> u16) list \<times> usize) sp_result"
where
  "compact_loop sp [] acc = Ok acc"
| "compact_loop sp (slot # slots) (packed, new_offsets, target_end) =
     and_then (slot_u16 slot SLOT_FLAGS sp) (\<lambda>flags.
     if flags \<noteq> SLOT_LIVE then compact_loop sp slots (packed, new_offsets, target_end)
     else
       and_then (slot_u16 slot SLOT_RECORD_OFFSET sp) (\<lambda>old_offset.
       and_then (slot_u16 slot SLOT_RECORD_LENGTH sp) (\<lambda>len.
       and_then (ok_or (checked_sub_usize target_end (unat len))
                   (SP_Corrupt ''live records exceed page size'')) (\<lambda>target_end'.
       and_then (map_err SP_Page (page_read (unat old_offset) (unat len) (page_ref sp))) (\<lambda>rec.
         compact_loop sp slots
           (splice target_end' rec packed, new_offsets @ [(slot, as_u16 target_end')], target_end'))))))"

fun write_offsets :: "(slot_id \<times> u16) list \<Rightarrow> unit sp_act" where
  "write_offsets [] = ret ()"
| "write_offsets ((slot, offset) # rest) =
     seq_act (write_slot_u16 slot SLOT_RECORD_OFFSET offset) (write_offsets rest)"

definition compact :: "unit sp_act" where
  "compact =
     bind_act (query free_start) (\<lambda>fs.
     bind_act (query slot_count) (\<lambda>count.
     bind_act (query (\<lambda>sp. compact_loop sp (slot_range count) (replicate PAGE_SIZE 0, [], PAGE_SIZE)))
       (\<lambda>(packed, new_offsets, target_end).
     if target_end < fs then fail (SP_Corrupt ''slot directory overlaps packed records'')
     else
       seq_act (page_mut (page_write fs (drop fs packed)))
      (seq_act (write_offsets new_offsets)
               (write_header_u16 FREE_END_OFFSET (as_u16 target_end))))))"

text \<open>The first half of \<^verbatim>\<open>insert\<close>: make \<open>required\<close> contiguous bytes free.\<close>

definition insert_make_room :: "bytes \<Rightarrow> usize \<Rightarrow> usize \<Rightarrow> unit sp_act" where
  "insert_make_room rec directory_growth required =
     seq_act
       (bind_act (query contiguous_free_space) (\<lambda>space.
        if space < required then
          bind_act (query (free_space_after_compaction directory_growth)) (\<lambda>after.
          if after < length rec then
            bind_act (query (free_space_after_compaction 0)) (\<lambda>available.
              fail (SP_NoSpace required available))
          else compact)
        else ret ()))
       (bind_act (query contiguous_free_space) (\<lambda>space.
        if space < required then fail (SP_NoSpace required space) else ret ()))"

text \<open>The second half: write the record, its slot entry and the header.\<close>

definition insert_write :: "bytes \<Rightarrow> u16 \<Rightarrow> slot_id option \<Rightarrow> rid sp_act" where
  "insert_write rec record_length reusable_slot =
     bind_act (case reusable_slot of Some s \<Rightarrow> ret s | None \<Rightarrow> query slot_count) (\<lambda>slot.
     bind_act (case reusable_slot of Some s \<Rightarrow> query (slot_u16 slot SLOT_GENERATION) | None \<Rightarrow> ret 1)
       (\<lambda>generation.
     bind_act (query free_end) (\<lambda>fe.
     bind_act (query (\<lambda>_. sub_usize fe (length rec))) (\<lambda>record_offset.
     seq_act (page_mut (page_write record_offset rec))
    (seq_act (write_slot_u16 slot SLOT_RECORD_OFFSET (as_u16 record_offset))
    (seq_act (write_slot_u16 slot SLOT_RECORD_LENGTH record_length)
    (seq_act (write_slot_u16 slot SLOT_GENERATION generation)
    (seq_act (write_slot_u16 slot SLOT_FLAGS SLOT_LIVE)
    (seq_act
       (case reusable_slot of
          Some _ \<Rightarrow> ret ()
        | None \<Rightarrow>
            bind_act (query slot_count) (\<lambda>count.
            bind_act (query (\<lambda>_. ok_or (checked_add_word count 1) (SP_Corrupt ''slot count overflow'')))
              (\<lambda>count'.
            seq_act (write_header_u16 SLOT_COUNT_OFFSET count')
                    (write_header_u16 FREE_START_OFFSET
                       (as_u16 (PAGE_HEADER_SIZE + unat count' * SLOT_ENTRY_SIZE))))))
    (seq_act (write_header_u16 FREE_END_OFFSET (as_u16 record_offset))
    (bind_act (query live_count) (\<lambda>live.
     bind_act (query (\<lambda>_. ok_or (checked_add_word live 1) (SP_Corrupt ''live slot count overflow'')))
       (\<lambda>live'.
     seq_act (write_header_u16 LIVE_COUNT_OFFSET live')
    (bind_act (query (\<lambda>sp. Ok (sp_page_id sp))) (\<lambda>pid.
       ret (rid_new pid slot generation))))))))))))))))"

definition sp_insert :: "bytes \<Rightarrow> rid sp_act" where
  "sp_insert rec =
     bind_act (query (\<lambda>_. ok_or (u16_try_from (length rec)) (SP_RecordTooLarge (length rec))))
       (\<lambda>record_length.
     bind_act (query find_reusable_slot) (\<lambda>reusable_slot.
       let needs_new_slot = (reusable_slot = None);
           directory_growth = (if needs_new_slot then SLOT_ENTRY_SIZE else 0);
           required = length rec + directory_growth
       in seq_act (insert_make_room rec directory_growth required)
                  (insert_write rec record_length reusable_slot)))"

definition sp_delete :: "rid \<Rightarrow> unit sp_act" where
  "sp_delete r =
     seq_act (query (validate_rid r))
    (let slot = rid_slot r; generation = rid_generation r;
         (next_generation, flags) =
           (case checked_add_word generation 1 of
              Some n \<Rightarrow> (n, 0) | None \<Rightarrow> (generation, SLOT_RETIRED))
     in
     seq_act (write_slot_u16 slot SLOT_RECORD_OFFSET 0)
    (seq_act (write_slot_u16 slot SLOT_RECORD_LENGTH 0)
    (seq_act (write_slot_u16 slot SLOT_GENERATION next_generation)
    (seq_act (write_slot_u16 slot SLOT_FLAGS flags)
    (bind_act (query live_count) (\<lambda>live.
     bind_act (query (\<lambda>_. ok_or (checked_sub_word live 1) (SP_Corrupt ''live slot count underflow'')))
       (\<lambda>live'. write_header_u16 LIVE_COUNT_OFFSET live')))))))"

end
