(* ===== verification/Disk.thy ===== *)
theory Disk
  imports Page
begin

text \<open>
  The database file and its manager, \<^verbatim>\<open>src/storage/disk.rs\<close>. A file is its bytes, a
  position and a script of the failures the operating system is going to report, one
  entry per call: the theorems quantify over the script, so every failure point of an
  operation is covered, partial writes included.
\<close>

section \<open>Files\<close>

datatype io_error = UnexpectedEof | NotFound | AlreadyExists | BadDescriptor | OtherIo

text \<open>
  \<open>file_faults\<close>: what the next calls do. \<open>None\<close> is a call that works; \<open>Some n\<close> one that
  fails, after \<open>n\<close> bytes when it is a write. Beyond the script every call works.
\<close>

record os_file =
  file_data :: bytes
  file_pos :: nat
  file_writable :: bool
  file_faults :: "nat option list"

type_synonym 'a file_act = "(os_file, 'a, io_error) act"

definition next_fault :: "os_file \<Rightarrow> nat option" where
  "next_fault f = (case file_faults f of [] \<Rightarrow> None | x # _ \<Rightarrow> x)"

definition drop_fault :: "os_file \<Rightarrow> os_file" where
  "drop_fault f = f\<lparr>file_faults := tl (file_faults f)\<rparr>"

text \<open>Writing at a position beyond the end fills the gap with zeros.\<close>

definition write_at :: "nat \<Rightarrow> bytes \<Rightarrow> bytes \<Rightarrow> bytes" where
  "write_at off src bs =
     (let padded = bs @ replicate (off + length src - length bs) 0 in splice off src padded)"

definition file_seek :: "nat \<Rightarrow> unit file_act" where
  "file_seek off f =
     (case next_fault f of
        Some _ \<Rightarrow> (Err OtherIo, drop_fault f)
      | None \<Rightarrow> (Ok (), (drop_fault f)\<lparr>file_pos := off\<rparr>))"

definition file_write_all :: "bytes \<Rightarrow> unit file_act" where
  "file_write_all src f =
     (if \<not> file_writable f then (Err BadDescriptor, f)
      else case next_fault f of
        Some n \<Rightarrow>
          (let part = take n src in
           (Err OtherIo,
            (drop_fault f)\<lparr>file_data := if part = [] then file_data f else write_at (file_pos f) part (file_data f),
                           file_pos := file_pos f + length part\<rparr>))
      | None \<Rightarrow>
          (Ok (), (drop_fault f)\<lparr>file_data := if src = [] then file_data f else write_at (file_pos f) src (file_data f),
                                 file_pos := file_pos f + length src\<rparr>))"

definition file_read_exact :: "nat \<Rightarrow> bytes file_act" where
  "file_read_exact n f =
     (case next_fault f of
        Some _ \<Rightarrow> (Err OtherIo, drop_fault f)
      | None \<Rightarrow>
          if file_pos f + n \<le> length (file_data f)
          then (Ok (slice (file_pos f) n (file_data f)), (drop_fault f)\<lparr>file_pos := file_pos f + n\<rparr>)
          else (Err UnexpectedEof, (drop_fault f)\<lparr>file_pos := max (file_pos f) (length (file_data f))\<rparr>))"

definition file_sync_all :: "unit file_act" where
  "file_sync_all f =
     (case next_fault f of Some _ \<Rightarrow> (Err OtherIo, drop_fault f) | None \<Rightarrow> (Ok (), drop_fault f))"

definition file_len :: "nat file_act" where
  "file_len f =
     (case next_fault f of
        Some _ \<Rightarrow> (Err OtherIo, drop_fault f)
      | None \<Rightarrow> (Ok (length (file_data f)), drop_fault f))"

section \<open>The database header\<close>

definition DATABASE_MAGIC :: bytes where
  "DATABASE_MAGIC = [78, 79, 82, 84, 72, 68, 66, 0]"

lemma length_DATABASE_MAGIC [simp]: "length DATABASE_MAGIC = 8"
  by (simp add: DATABASE_MAGIC_def)

abbreviation (input) DATABASE_FORMAT_VERSION :: u16 where "DATABASE_FORMAT_VERSION \<equiv> 1"
abbreviation (input) DATABASE_HEADER_PAGE_ID :: page_id where "DATABASE_HEADER_PAGE_ID \<equiv> 0"
abbreviation (input) FIRST_DATA_PAGE_ID :: u32 where "FIRST_DATA_PAGE_ID \<equiv> 1"
abbreviation (input) NO_CATALOG_ROOT :: u32 where "NO_CATALOG_ROOT \<equiv> 4294967295"

abbreviation (input) DB_MAGIC_OFFSET :: usize where "DB_MAGIC_OFFSET \<equiv> 0"
abbreviation (input) FORMAT_VERSION_OFFSET :: usize where "FORMAT_VERSION_OFFSET \<equiv> 8"
abbreviation (input) PAGE_SIZE_OFFSET :: usize where "PAGE_SIZE_OFFSET \<equiv> 12"
abbreviation (input) DB_NEXT_PAGE_ID_OFFSET :: usize where "DB_NEXT_PAGE_ID_OFFSET \<equiv> 16"
abbreviation (input) CATALOG_ROOT_PAGE_ID_OFFSET :: usize where "CATALOG_ROOT_PAGE_ID_OFFSET \<equiv> 20"
abbreviation (input) HEADER_FLAGS_OFFSET :: usize where "HEADER_FLAGS_OFFSET \<equiv> 24"
abbreviation (input) HEADER_CHECKSUM_OFFSET :: usize where "HEADER_CHECKSUM_OFFSET \<equiv> 28"

record database_header =
  header_next_page_id :: u32
  header_catalog_root :: "page_id option"

datatype disk_error =
    D_Io string string io_error
  | D_InvalidFileLength u64
  | D_Corrupt string
  | D_ReadOnly
  | D_HeaderPageIsReserved
  | D_PageNotAllocated page_id
  | D_PageIdExhausted
  | D_CatalogRootAlreadySet page_id

definition allocated_page_count :: "database_header \<Rightarrow> u32" where
  "allocated_page_count h = header_next_page_id h - FIRST_DATA_PAGE_ID"

definition encode_header :: "database_header \<Rightarrow> bytes" where
  "encode_header h =
     (let bs = replicate PAGE_SIZE 0;
          bs = splice DB_MAGIC_OFFSET DATABASE_MAGIC bs;
          bs = splice FORMAT_VERSION_OFFSET (to_le 2 DATABASE_FORMAT_VERSION) bs;
          bs = splice PAGE_SIZE_OFFSET (to_le 4 (as_u32 PAGE_SIZE)) bs;
          bs = splice DB_NEXT_PAGE_ID_OFFSET (to_le 4 (header_next_page_id h)) bs;
          bs = splice CATALOG_ROOT_PAGE_ID_OFFSET
                 (to_le 4 (case header_catalog_root h of None \<Rightarrow> NO_CATALOG_ROOT | Some p \<Rightarrow> p)) bs;
          bs = splice HEADER_FLAGS_OFFSET (to_le 4 (0 :: u32)) bs;
          bs = splice HEADER_CHECKSUM_OFFSET (to_le 4 (0 :: u32)) bs
      in bs)"

definition disk_read_u16 :: "bytes \<Rightarrow> usize \<Rightarrow> u16" where
  "disk_read_u16 bs offset = from_le [bs ! offset, bs ! (offset + 1)]"

definition disk_read_u32 :: "bytes \<Rightarrow> usize \<Rightarrow> u32" where
  "disk_read_u32 bs offset =
     from_le [bs ! offset, bs ! (offset + 1), bs ! (offset + 2), bs ! (offset + 3)]"

definition decode_header :: "bytes \<Rightarrow> (database_header, disk_error) result" where
  "decode_header bs =
     (if slice DB_MAGIC_OFFSET (length DATABASE_MAGIC) bs \<noteq> DATABASE_MAGIC
      then Err (D_Corrupt ''invalid database magic'')
      else if disk_read_u16 bs FORMAT_VERSION_OFFSET \<noteq> DATABASE_FORMAT_VERSION
      then Err (D_Corrupt ''unsupported database format version'')
      else if disk_read_u32 bs PAGE_SIZE_OFFSET \<noteq> as_u32 PAGE_SIZE
      then Err (D_Corrupt ''incompatible database page size'')
      else
        let next_page_id = disk_read_u32 bs DB_NEXT_PAGE_ID_OFFSET in
        if next_page_id < FIRST_DATA_PAGE_ID then Err (D_Corrupt ''invalid next page ID'')
        else
          let catalog_root = disk_read_u32 bs CATALOG_ROOT_PAGE_ID_OFFSET in
          Ok \<lparr>header_next_page_id = next_page_id,
              header_catalog_root = if catalog_root \<noteq> NO_CATALOG_ROOT then Some catalog_root else None\<rparr>)"

definition validate_file_length :: "u64 \<Rightarrow> (unit, disk_error) result" where
  "validate_file_length len =
     (if len < of_nat PAGE_SIZE \<or> \<not> of_nat PAGE_SIZE dvd unat len
      then Err (D_InvalidFileLength len) else Ok ())"

section \<open>The disk manager\<close>

record disk_manager =
  disk_path :: string
  disk_file :: os_file
  disk_header :: database_header
  disk_read_only :: bool

type_synonym 'a disk_act = "(disk_manager, 'a, disk_error) act"

text \<open>Run a call on the manager's file; \<^verbatim>\<open>map_err(|source| DiskManagerError::Io \<dots>)\<close>.\<close>

definition io_err :: "string \<Rightarrow> string \<Rightarrow> 'a file_act \<Rightarrow> (os_file, 'a, disk_error) act" where
  "io_err operation path m = map_err_act (D_Io operation path) m"

definition on_file :: "(os_file, 'a, disk_error) act \<Rightarrow> 'a disk_act" where
  "on_file m d = (case m (disk_file d) of (r, f) \<Rightarrow> (r, d\<lparr>disk_file := f\<rparr>))"

definition write_header_to_file :: "string \<Rightarrow> database_header \<Rightarrow> (os_file, unit, disk_error) act" where
  "write_header_to_file path h =
     (let bs = encode_header h in
      seq_act (io_err ''seek database header'' path (file_seek (unat (file_offset DATABASE_HEADER_PAGE_ID))))
              (io_err ''write database header'' path (file_write_all bs)))"

definition read_header_from_file :: "string \<Rightarrow> (os_file, database_header, disk_error) act" where
  "read_header_from_file path =
     seq_act (io_err ''seek database header'' path (file_seek (unat (file_offset DATABASE_HEADER_PAGE_ID))))
    (bind_act (io_err ''read database header'' path (file_read_exact PAGE_SIZE)) (\<lambda>bs.
       query (\<lambda>_. decode_header bs)))"

text \<open>
  \<^verbatim>\<open>create\<close> and \<^verbatim>\<open>open\<close> start from what the path names: \<open>None\<close> when there is no file.
  The second component is the file they leave at the path.
\<close>

definition disk_create ::
  "string \<Rightarrow> bytes option \<Rightarrow> nat option list \<Rightarrow> (disk_manager, disk_error) result \<times> bytes option"
where
  "disk_create path found faults =
     (case found of
        Some bs \<Rightarrow> (Err (D_Io ''create database file'' path AlreadyExists), Some bs)
      | None \<Rightarrow>
          (case faults of
             Some _ # _ \<Rightarrow> (Err (D_Io ''create database file'' path OtherIo), None)
           | _ \<Rightarrow>
             (let f = \<lparr>file_data = [], file_pos = 0, file_writable = True, file_faults = tl faults\<rparr>;
                  h = \<lparr>header_next_page_id = FIRST_DATA_PAGE_ID, header_catalog_root = None\<rparr>;
                  (r, f') = seq_act (write_header_to_file path h)
                                    (io_err ''synchronize new database file'' path file_sync_all) f
              in (and_then r (\<lambda>_. Ok \<lparr>disk_path = path, disk_file = f', disk_header = h, disk_read_only = False\<rparr>),
                  Some (file_data f')))))"

definition open_with_mode ::
  "string \<Rightarrow> bool \<Rightarrow> bytes option \<Rightarrow> nat option list \<Rightarrow> (disk_manager, disk_error) result"
where
  "open_with_mode path read_only found faults =
     (case (found, faults) of
        (None, _) \<Rightarrow> Err (D_Io ''open database file'' path NotFound)
      | (Some _, Some _ # _) \<Rightarrow> Err (D_Io ''open database file'' path OtherIo)
      | (Some bs, _) \<Rightarrow>
          (let f = \<lparr>file_data = bs, file_pos = 0, file_writable = \<not> read_only, file_faults = tl faults\<rparr>;
               (r, f') =
                 bind_act (io_err ''read database file metadata'' path file_len) (\<lambda>len.
                 seq_act (query (\<lambda>_. validate_file_length (of_nat len)))
                (bind_act (read_header_from_file path) (\<lambda>header.
                 let physical_page_count = (of_nat len :: u64) div of_nat PAGE_SIZE in
                 if physical_page_count < ucast (header_next_page_id header)
                 then fail (D_Corrupt ''database header references pages beyond the end of the file'')
                 else ret header))) f
           in and_then r (\<lambda>header.
                Ok \<lparr>disk_path = path, disk_file = f', disk_header = header, disk_read_only = read_only\<rparr>)))"

definition disk_open :: "string \<Rightarrow> bytes option \<Rightarrow> nat option list \<Rightarrow> (disk_manager, disk_error) result" where
  "disk_open path = open_with_mode path False"

definition disk_open_read_only ::
  "string \<Rightarrow> bytes option \<Rightarrow> nat option list \<Rightarrow> (disk_manager, disk_error) result"
where
  "disk_open_read_only path = open_with_mode path True"

definition ensure_writable :: "disk_manager \<Rightarrow> (unit, disk_error) result" where
  "ensure_writable d = (if disk_read_only d then Err D_ReadOnly else Ok ())"

definition ensure_allocated_data_page :: "page_id \<Rightarrow> disk_manager \<Rightarrow> (unit, disk_error) result" where
  "ensure_allocated_data_page pid d =
     (if pid = DATABASE_HEADER_PAGE_ID then Err D_HeaderPageIsReserved
      else if header_next_page_id (disk_header d) \<le> pid then Err (D_PageNotAllocated pid)
      else Ok ())"

definition persist_header :: "unit disk_act" where
  "persist_header d = on_file (write_header_to_file (disk_path d) (disk_header d)) d"

definition seek_to_page :: "page_id \<Rightarrow> unit disk_act" where
  "seek_to_page pid d =
     on_file (io_err ''seek database page'' (disk_path d) (file_seek (unat (file_offset pid)))) d"

definition write_page_bytes :: "page_id \<Rightarrow> bytes \<Rightarrow> unit disk_act" where
  "write_page_bytes pid bs =
     seq_act (seek_to_page pid)
       (\<lambda>d. on_file (io_err ''write database page'' (disk_path d) (file_write_all bs)) d)"

definition set_catalog_root :: "page_id \<Rightarrow> unit disk_act" where
  "set_catalog_root pid =
     seq_act (query ensure_writable)
    (seq_act (query (ensure_allocated_data_page pid))
    (bind_act (query (\<lambda>d. Ok (header_catalog_root (disk_header d)))) (\<lambda>existing.
     case existing of
       Some p \<Rightarrow> fail (D_CatalogRootAlreadySet p)
     | None \<Rightarrow>
         (\<lambda>d. persist_header (d\<lparr>disk_header := (disk_header d)\<lparr>header_catalog_root := Some pid\<rparr>\<rparr>)))))"

definition disk_allocate_page :: "page disk_act" where
  "disk_allocate_page =
     seq_act (query ensure_writable)
    (bind_act (query (\<lambda>d. Ok (header_next_page_id (disk_header d)))) (\<lambda>next_page_id.
     if next_page_id = - 1 then fail D_PageIdExhausted
     else
       let page = zeroed next_page_id in
       seq_act (write_page_bytes next_page_id (page_bytes page))
      (seq_act (\<lambda>d. persist_header
                     (d\<lparr>disk_header := (disk_header d)\<lparr>header_next_page_id :=
                          header_next_page_id (disk_header d) + 1\<rparr>\<rparr>))
               (ret page))))"

definition disk_read_page :: "page_id \<Rightarrow> page disk_act" where
  "disk_read_page pid =
     seq_act (query (ensure_allocated_data_page pid))
    (seq_act (seek_to_page pid)
    (bind_act (\<lambda>d. on_file (io_err ''read database page'' (disk_path d) (file_read_exact PAGE_SIZE)) d)
       (\<lambda>bs. ret (from_bytes pid bs))))"

text \<open>\<open>disk_write_page p\<close> returns the page as the call leaves it: clean when the write
  succeeded. When it fails the caller's page is unchanged.\<close>

definition disk_write_page :: "page \<Rightarrow> page disk_act" where
  "disk_write_page p =
     seq_act (query ensure_writable)
    (seq_act (query (ensure_allocated_data_page (page_ident p)))
    (seq_act (write_page_bytes (page_ident p) (page_bytes p))
             (ret (mark_clean p))))"

definition disk_sync :: "unit disk_act" where
  "disk_sync d = on_file (io_err ''synchronize database file'' (disk_path d) file_sync_all) d"

end
