(* ===== verification/Buffer_Pool.thy ===== *)
theory Buffer_Pool
  imports Disk "HOL-Library.AList"
begin

text \<open>
  The page cache of \<^verbatim>\<open>src/storage/buffer_pool.rs\<close>. Frames are kept by page identifier in an
  association list whose order stands for the iteration order of the \<^verbatim>\<open>HashMap\<close>; no
  property depends on it. A \<^verbatim>\<open>PageGuard\<close> is the identifier of the frame it pins: pinned
  frames stay in the map, so the frame a guard shares is the one found there. The
  \<^verbatim>\<open>RefCell\<close> around a page is its borrow state, the \<^verbatim>\<open>RefCell\<close> around the pool a flag.
\<close>

section \<open>Data\<close>

record pool_stats =
  hits :: u64
  misses :: u64
  evictions :: u64
  disk_writes :: u64

datatype borrow = Unborrowed | Reading nat | Writing

record frame =
  frame_page_id :: page_id
  frame_page :: page
  frame_borrow :: borrow
  frame_pin_count :: u32
  frame_last_used :: u64
  frame_writable :: bool

record buffer_pool =
  pool_disk :: disk_manager
  pool_capacity :: usize
  pool_frames :: "(page_id \<times> frame) list"
  pool_clock :: u64
  pool_counters :: pool_stats
  pool_borrowed :: bool

datatype pool_error =
    BP_Disk disk_error
  | BP_ZeroCapacity
  | BP_AllFramesPinned
  | BP_PoolBorrowed
  | BP_PageBorrowed page_id
  | BP_PageNotCached page_id
  | BP_PinCountExhausted page_id
  | BP_ReadOnly

type_synonym 'a pool_act = "(buffer_pool, 'a, pool_error) act"
type_synonym page_guard = page_id

text \<open>\<^verbatim>\<open>Rc<Frame>\<close>: the shared frame of a page, read and updated in place.\<close>

definition find_frame :: "page_id \<Rightarrow> buffer_pool \<Rightarrow> frame option" where
  "find_frame pid p = map_of (pool_frames p) pid"

definition put_frame :: "page_id \<Rightarrow> frame \<Rightarrow> buffer_pool \<Rightarrow> buffer_pool" where
  "put_frame pid fr p = p\<lparr>pool_frames := AList.update pid fr (pool_frames p)\<rparr>"

definition remove_frame :: "page_id \<Rightarrow> buffer_pool \<Rightarrow> buffer_pool" where
  "remove_frame pid p = p\<lparr>pool_frames := AList.delete pid (pool_frames p)\<rparr>"

definition get_frame :: "page_id \<Rightarrow> frame pool_act" where
  "get_frame pid p = (case find_frame pid p of Some fr \<Rightarrow> (Ok fr, p) | None \<Rightarrow> (Panic, p))"

text \<open>An operation of the disk manager the pool owns.\<close>

definition on_disk :: "'a disk_act \<Rightarrow> 'a pool_act" where
  "on_disk m p = (case m (pool_disk p) of (r, d) \<Rightarrow> (map_err BP_Disk r, p\<lparr>pool_disk := d\<rparr>))"

definition count_hit :: "buffer_pool \<Rightarrow> buffer_pool" where
  "count_hit p = p\<lparr>pool_counters := (pool_counters p)\<lparr>hits := saturating_add_word (hits (pool_counters p)) 1\<rparr>\<rparr>"

definition count_miss :: "buffer_pool \<Rightarrow> buffer_pool" where
  "count_miss p = p\<lparr>pool_counters := (pool_counters p)\<lparr>misses := saturating_add_word (misses (pool_counters p)) 1\<rparr>\<rparr>"

definition count_eviction :: "buffer_pool \<Rightarrow> buffer_pool" where
  "count_eviction p =
     p\<lparr>pool_counters := (pool_counters p)\<lparr>evictions := saturating_add_word (evictions (pool_counters p)) 1\<rparr>\<rparr>"

definition count_disk_write :: "buffer_pool \<Rightarrow> buffer_pool" where
  "count_disk_write p =
     p\<lparr>pool_counters := (pool_counters p)\<lparr>disk_writes := saturating_add_word (disk_writes (pool_counters p)) 1\<rparr>\<rparr>"

section \<open>The pool\<close>

text \<open>
  \<^verbatim>\<open>HashMap::with_capacity\<close> panics with a capacity overflow when the table would be larger than the
  address space: for entries of 16 bytes, seven eighths of \<open>2 ^ 58\<close> buckets is the most it takes on a
  64-bit machine. Running out of memory below that ends the process and is outside the model.
\<close>

abbreviation (input) MAP_CAPACITY_LIMIT :: usize where
  "MAP_CAPACITY_LIMIT \<equiv> 252201579132747776"

definition pool_new :: "disk_manager \<Rightarrow> usize \<Rightarrow> (buffer_pool, pool_error) result" where
  "pool_new disk capacity =
     (if capacity = 0 then Err BP_ZeroCapacity
      else if MAP_CAPACITY_LIMIT < capacity then Panic
      else Ok \<lparr>pool_disk = disk, pool_capacity = capacity, pool_frames = [], pool_clock = 0,
               pool_counters = \<lparr>hits = 0, misses = 0, evictions = 0, disk_writes = 0\<rparr>, pool_borrowed = False\<rparr>)"

definition borrow_inner_mut :: "unit pool_act" where
  "borrow_inner_mut p = (if pool_borrowed p then (Err BP_PoolBorrowed, p) else (Ok (), p))"

definition next_tick :: "u64 pool_act" where
  "next_tick p =
     (let clock = pool_clock p + 1 in
      if clock = 0
      then (Ok 1, p\<lparr>pool_frames := map (\<lambda>(pid, fr). (pid, fr\<lparr>frame_last_used := 0\<rparr>)) (pool_frames p), pool_clock := 1\<rparr>)
      else (Ok clock, p\<lparr>pool_clock := clock\<rparr>))"

text \<open>\<^verbatim>\<open>Iterator::min_by_key\<close>: the first of the minimal elements.\<close>

fun min_by_key :: "('a \<Rightarrow> 'b::linorder) \<Rightarrow> 'a list \<Rightarrow> 'a option" where
  "min_by_key f [] = None"
| "min_by_key f (x # xs) =
     (case min_by_key f xs of None \<Rightarrow> Some x | Some y \<Rightarrow> if f y < f x then Some y else Some x)"

definition flush_frame :: "page_id \<Rightarrow> unit pool_act" where
  "flush_frame pid =
     bind_act (get_frame pid) (\<lambda>fr.
     if frame_borrow fr \<noteq> Unborrowed then fail (BP_PageBorrowed (frame_page_id fr))
     else if page_dirty (frame_page fr) then
       bind_act (on_disk (disk_write_page (frame_page fr))) (\<lambda>page.
       seq_act (update (put_frame pid (fr\<lparr>frame_page := page\<rparr>)))
               (update count_disk_write))
     else ret ())"

definition ensure_space :: "unit pool_act" where
  "ensure_space =
     bind_act (query (\<lambda>p. Ok (length (pool_frames p) < pool_capacity p))) (\<lambda>space.
     if space then ret ()
     else
       bind_act (query (\<lambda>p. ok_or (map_option fst (min_by_key (\<lambda>(_, fr). frame_last_used fr)
                   (filter (\<lambda>(_, fr). frame_pin_count fr = 0) (pool_frames p)))) BP_AllFramesPinned))
         (\<lambda>victim.
       seq_act (flush_frame victim)
      (seq_act (update (remove_frame victim))
               (update count_eviction))))"

fun flush_frames :: "page_id list \<Rightarrow> unit pool_act" where
  "flush_frames [] = ret ()"
| "flush_frames (pid # pids) = seq_act (flush_frame pid) (flush_frames pids)"

definition flush_all_frames :: "unit pool_act" where
  "flush_all_frames = bind_act (query (\<lambda>p. Ok (map fst (pool_frames p)))) flush_frames"

text \<open>The frame of a page: cached, or read from disk into a new one.\<close>

definition load_frame :: "page_id \<Rightarrow> u64 \<Rightarrow> frame pool_act" where
  "load_frame pid tick =
     bind_act (query (\<lambda>p. Ok (find_frame pid p))) (\<lambda>cached.
     case cached of
       Some fr \<Rightarrow> seq_act (update count_hit) (ret fr)
     | None \<Rightarrow>
         seq_act (update count_miss)
        (seq_act ensure_space
        (bind_act (on_disk (disk_read_page pid)) (\<lambda>page.
         bind_act (query (\<lambda>p. Ok (disk_read_only (pool_disk p)))) (\<lambda>read_only.
         let fr = \<lparr>frame_page_id = pid, frame_page = page, frame_borrow = Unborrowed,
                   frame_pin_count = 0, frame_last_used = tick, frame_writable = \<not> read_only\<rparr>
         in seq_act (update (put_frame pid fr)) (ret fr))))))"

definition pin :: "page_id \<Rightarrow> page_guard pool_act" where
  "pin pid =
     seq_act borrow_inner_mut
    (bind_act next_tick (\<lambda>tick.
     bind_act (load_frame pid tick) (\<lambda>fr.
     bind_act (query (\<lambda>_. ok_or (checked_add_word (frame_pin_count fr) 1) (BP_PinCountExhausted pid))) (\<lambda>count.
     seq_act (update (put_frame pid (fr\<lparr>frame_pin_count := count, frame_last_used := tick\<rparr>)))
             (ret pid)))))"

definition pool_allocate_page :: "page_guard pool_act" where
  "pool_allocate_page =
     seq_act borrow_inner_mut
    (bind_act (query (\<lambda>p. Ok (disk_read_only (pool_disk p)))) (\<lambda>read_only.
     if read_only then fail BP_ReadOnly
     else
       seq_act ensure_space
      (bind_act (on_disk disk_allocate_page) (\<lambda>page.
       bind_act next_tick (\<lambda>tick.
       let fr = \<lparr>frame_page_id = page_ident page, frame_page = page, frame_borrow = Unborrowed,
                 frame_pin_count = 1, frame_last_used = tick, frame_writable = True\<rparr>
       in seq_act (update (put_frame (page_ident page) fr)) (ret (page_ident page)))))))"

definition flush_page :: "page_id \<Rightarrow> unit pool_act" where
  "flush_page pid =
     seq_act borrow_inner_mut
    (bind_act (query (\<lambda>p. Ok (find_frame pid p))) (\<lambda>cached.
     case cached of None \<Rightarrow> fail (BP_PageNotCached pid) | Some _ \<Rightarrow> flush_frame pid))"

definition flush_all :: "unit pool_act" where
  "flush_all = seq_act borrow_inner_mut flush_all_frames"

definition pool_sync :: "unit pool_act" where
  "pool_sync = seq_act borrow_inner_mut (seq_act flush_all_frames (on_disk disk_sync))"

definition pool_close :: "buffer_pool \<Rightarrow> (disk_manager, pool_error) result" where
  "pool_close p = (case seq_act flush_all_frames (on_disk disk_sync) p of (r, p') \<Rightarrow>
     and_then r (\<lambda>_. Ok (pool_disk p')))"

definition contains_page :: "page_id \<Rightarrow> buffer_pool \<Rightarrow> bool" where
  "contains_page pid p \<longleftrightarrow> find_frame pid p \<noteq> None"

definition cached_page_count :: "buffer_pool \<Rightarrow> usize" where
  "cached_page_count p = length (pool_frames p)"

definition pool_header :: "buffer_pool \<Rightarrow> database_header" where
  "pool_header p = disk_header (pool_disk p)"

definition pool_set_catalog_root :: "page_id \<Rightarrow> unit pool_act" where
  "pool_set_catalog_root pid = seq_act borrow_inner_mut (on_disk (set_catalog_root pid))"

section \<open>Page guards\<close>

definition set_borrow :: "page_guard \<Rightarrow> borrow \<Rightarrow> unit pool_act" where
  "set_borrow g b = bind_act (get_frame g) (\<lambda>fr. update (put_frame g (fr\<lparr>frame_borrow := b\<rparr>)))"

definition guard_read :: "page_guard \<Rightarrow> page pool_act" where
  "guard_read g =
     bind_act (get_frame g) (\<lambda>fr.
     case frame_borrow fr of
       Unborrowed \<Rightarrow> seq_act (set_borrow g (Reading 1)) (ret (frame_page fr))
     | Reading n \<Rightarrow> seq_act (set_borrow g (Reading (n + 1))) (ret (frame_page fr))
     | Writing \<Rightarrow> fail (BP_PageBorrowed g))"

definition guard_write :: "page_guard \<Rightarrow> page pool_act" where
  "guard_write g =
     bind_act (get_frame g) (\<lambda>fr.
     if \<not> frame_writable fr then fail BP_ReadOnly
     else if frame_borrow fr = Unborrowed then seq_act (set_borrow g Writing) (ret (frame_page fr))
     else fail (BP_PageBorrowed g))"

text \<open>The end of the scope of a \<^verbatim>\<open>Ref\<close>, of a \<^verbatim>\<open>RefMut\<close>, and of the guard itself.\<close>

definition end_read :: "page_guard \<Rightarrow> buffer_pool \<Rightarrow> buffer_pool" where
  "end_read g p = (case find_frame g p of
     Some fr \<Rightarrow> put_frame g (fr\<lparr>frame_borrow := (case frame_borrow fr of
         Reading n \<Rightarrow> if n \<le> 1 then Unborrowed else Reading (n - 1) | b \<Rightarrow> b)\<rparr>) p
   | None \<Rightarrow> p)"

definition end_write :: "page_guard \<Rightarrow> buffer_pool \<Rightarrow> buffer_pool" where
  "end_write g p = (case find_frame g p of
     Some fr \<Rightarrow> put_frame g (fr\<lparr>frame_borrow := Unborrowed\<rparr>) p
   | None \<Rightarrow> p)"

definition drop_guard :: "page_guard \<Rightarrow> buffer_pool \<Rightarrow> buffer_pool" where
  "drop_guard g p = (case find_frame g p of
     Some fr \<Rightarrow> put_frame g (fr\<lparr>frame_pin_count :=
       (if frame_pin_count fr = 0 then 0 else frame_pin_count fr - 1)\<rparr>) p
   | None \<Rightarrow> p)"

text \<open>The \<^verbatim>\<open>debug_assert!\<close> of the drop: the guard holds a pin. A guard whose frame is no longer in the
  map is no state of the program, and a panic here.\<close>

definition drop_assert :: "page_guard \<Rightarrow> buffer_pool \<Rightarrow> ('a, 'e) result \<Rightarrow> ('a, 'e) result" where
  "drop_assert g p r = (case find_frame g p of
     Some fr \<Rightarrow> if frame_pin_count fr = 0 then Panic else r
   | None \<Rightarrow> Panic)"

text \<open>Code that runs while a guard is alive, and the drop of the guard when it is over.\<close>

definition guarded :: "page_guard \<Rightarrow> (buffer_pool, 'a, 'e) act \<Rightarrow> (buffer_pool, 'a, 'e) act" where
  "guarded g m = (\<lambda>p. case m p of (r, p') \<Rightarrow> (drop_assert g p' r, drop_guard g p'))"

lemma guarded_run [act_simps]: "guarded g m p = (case m p of (r, p') \<Rightarrow> (drop_assert g p' r, drop_guard g p'))"
  by (simp add: guarded_def)

text \<open>What a caller does with the page behind a \<^verbatim>\<open>RefMut\<close>.\<close>

definition on_page :: "page_guard \<Rightarrow> (page, 'a, 'e) act \<Rightarrow> (buffer_pool, 'a, 'e) act" where
  "on_page g f p = (case find_frame g p of
     Some fr \<Rightarrow> (case f (frame_page fr) of (r, pg) \<Rightarrow> (r, put_frame g (fr\<lparr>frame_page := pg\<rparr>) p))
   | None \<Rightarrow> (Panic, p))"

text \<open>
  The scopes of client code. \<open>err\<close> is the conversion \<^verbatim>\<open>?\<close> applies to the pool's errors;
  the guard, and the borrow inside it, are dropped on every way out of the scope.
\<close>

definition pinning ::
  "(pool_error \<Rightarrow> 'e) \<Rightarrow> page_id \<Rightarrow> (page_guard \<Rightarrow> (buffer_pool, 'a, 'e) act) \<Rightarrow> (buffer_pool, 'a, 'e) act"
where
  "pinning err pid body = bind_act (map_err_act err (pin pid)) (\<lambda>g. guarded g (body g))"

definition allocating ::
  "(pool_error \<Rightarrow> 'e) \<Rightarrow> (page_guard \<Rightarrow> (buffer_pool, 'a, 'e) act) \<Rightarrow> (buffer_pool, 'a, 'e) act"
where
  "allocating err body = bind_act (map_err_act err pool_allocate_page) (\<lambda>g. guarded g (body g))"

definition reading ::
  "(pool_error \<Rightarrow> 'e) \<Rightarrow> page_guard \<Rightarrow> (page \<Rightarrow> ('a, 'e) result) \<Rightarrow> (buffer_pool, 'a, 'e) act"
where
  "reading err g f = bind_act (map_err_act err (guard_read g)) (\<lambda>page. scoped (query (\<lambda>_. f page)) (end_read g))"

definition writing ::
  "(pool_error \<Rightarrow> 'e) \<Rightarrow> page_guard \<Rightarrow> (page, 'a, 'e) act \<Rightarrow> (buffer_pool, 'a, 'e) act"
where
  "writing err g f = bind_act (map_err_act err (guard_write g)) (\<lambda>_. scoped (on_page g f) (end_write g))"

text \<open>Pin a page and read it, pin it and change it, or allocate one and initialize it.\<close>

definition read_page ::
  "(pool_error \<Rightarrow> 'e) \<Rightarrow> page_id \<Rightarrow> (page \<Rightarrow> ('a, 'e) result) \<Rightarrow> (buffer_pool, 'a, 'e) act"
where
  "read_page err pid f = pinning err pid (\<lambda>g. reading err g f)"

definition update_page ::
  "(pool_error \<Rightarrow> 'e) \<Rightarrow> page_id \<Rightarrow> (page, 'a, 'e) act \<Rightarrow> (buffer_pool, 'a, 'e) act"
where
  "update_page err pid f = pinning err pid (\<lambda>g. writing err g f)"

definition new_page ::
  "(pool_error \<Rightarrow> 'e) \<Rightarrow> (page, 'a, 'e) act \<Rightarrow> (buffer_pool, page_id \<times> 'a, 'e) act"
where
  "new_page err f = allocating err (\<lambda>g. bind_act (writing err g f) (\<lambda>x. ret (g, x)))"

end
