(* ===== verification/Heap_File.thy ===== *)
theory Heap_File
  imports Slotted_Page Buffer_Pool
begin

text \<open>
  Heap files, \<^verbatim>\<open>src/heap/heap_file.rs\<close>: a chain of slotted pages in the buffer pool. The
  methods on \<^verbatim>\<open>&mut self\<close> run on the pair of the heap file and the pool.
\<close>

abbreviation (input) MAX_RECORD_SIZE :: usize where
  "MAX_RECORD_SIZE \<equiv> PAGE_SIZE - PAGE_HEADER_SIZE - SLOT_ENTRY_SIZE"

record heap_record =
  record_rid :: rid
  record_bytes :: bytes

record heap_file =
  heap_pages :: "page_id list"

datatype heap_error =
    H_Buffer pool_error
  | H_Page slotted_page_error
  | H_RecordTooLarge usize usize
  | H_PageChainCycle page_id
  | H_RidOutsideHeap rid

type_synonym 'a heap_pool_act = "(buffer_pool, 'a, heap_error) act"
type_synonym 'a heap_act = "(heap_file \<times> buffer_pool, 'a, heap_error) act"

definition on_pool :: "'a heap_pool_act \<Rightarrow> 'a heap_act" where
  "on_pool m = (\<lambda>(h, p). case m p of (r, p') \<Rightarrow> (r, (h, p')))"

section \<open>Slotted pages behind a guard\<close>

text \<open>\<^verbatim>\<open>SlottedPage::from_page_ref(&page)?\<close> followed by \<open>f\<close>; \<^verbatim>\<open>SlottedPage::from_page_mut(&mut
  page)?\<close> followed by \<open>m\<close>; \<^verbatim>\<open>SlottedPage::initialize(&mut page)\<close> followed by \<open>m\<close>.\<close>

definition with_slotted_ref :: "(slotted_page \<Rightarrow> ('a, heap_error) result) \<Rightarrow> page \<Rightarrow> ('a, heap_error) result" where
  "with_slotted_ref f pg = and_then (map_err H_Page (from_page_ref pg)) f"

definition with_slotted_mut :: "(slotted_page, 'a, heap_error) act \<Rightarrow> (page, 'a, heap_error) act" where
  "with_slotted_mut m pg =
     (case from_page_mut pg of
        Ok sp \<Rightarrow> (case m sp of (r, sp') \<Rightarrow> (r, page_ref sp'))
      | Err e \<Rightarrow> (Err (H_Page e), pg)
      | Panic \<Rightarrow> (Panic, pg))"

definition with_slotted_new :: "(slotted_page, 'a, heap_error) act \<Rightarrow> (page, 'a, heap_error) act" where
  "with_slotted_new m pg =
     (case slotted_initialize pg of
        Ok sp \<Rightarrow> (case m sp of (r, sp') \<Rightarrow> (r, page_ref sp'))
      | Err e \<Rightarrow> (Err (H_Page e), pg)
      | Panic \<Rightarrow> (Panic, pg))"

section \<open>The heap file\<close>

definition heap_create :: "heap_file heap_pool_act" where
  "heap_create =
     bind_act (new_page H_Buffer (with_slotted_new (ret ()))) (\<lambda>(page_id, _).
       ret \<lparr>heap_pages = [page_id]\<rparr>)"

definition next_link :: "page \<Rightarrow> (page_id option, heap_error) result" where
  "next_link = with_slotted_ref (\<lambda>sp. map_err H_Page (next_page_id sp))"

text \<open>The loop of \<^verbatim>\<open>open\<close>, with its variables \<open>pages\<close>, \<open>visited\<close> and \<open>current\<close>. It ends because
  every round adds a page identifier to \<open>visited\<close>, and there are only so many.\<close>

function open_chain :: "page_id list \<Rightarrow> page_id set \<Rightarrow> page_id \<Rightarrow> buffer_pool \<Rightarrow>
  (page_id list, heap_error) result \<times> buffer_pool"
where
  "open_chain pages visited current p =
     (if current \<in> visited then (Err (H_PageChainCycle current), p)
      else case read_page H_Buffer current next_link p of
        (Ok (Some next_id), p') \<Rightarrow> open_chain (pages @ [current]) (insert current visited) next_id p'
      | (Ok None, p') \<Rightarrow> (Ok (pages @ [current]), p')
      | (Err e, p') \<Rightarrow> (Err e, p')
      | (Panic, p') \<Rightarrow> (Panic, p'))"
  by pat_completeness auto
termination
proof (relation "measure (\<lambda>(pages, visited, current, p). card (UNIV - visited))", goal_cases)
  case (2 pages visited current p r p' next_id)
  then have "card (UNIV - insert current visited) < card (UNIV - visited)"
    by (intro psubset_card_mono) auto
  then show ?case by (simp only: in_measure case_prod_conv)
qed simp

declare open_chain.simps [simp del]

definition heap_open :: "page_id \<Rightarrow> heap_file heap_pool_act" where
  "heap_open first_page_id =
     bind_act (open_chain [] {} first_page_id) (\<lambda>pages. ret \<lparr>heap_pages = pages\<rparr>)"

definition first_page_id :: "heap_file \<Rightarrow> (page_id, heap_error) result" where
  "first_page_id h = (case heap_pages h of [] \<Rightarrow> Panic | pid # _ \<Rightarrow> Ok pid)"

definition last_page_id :: "heap_file \<Rightarrow> (page_id, heap_error) result" where
  "last_page_id h = (if heap_pages h = [] then Panic else Ok (last (heap_pages h)))"

definition page_count :: "heap_file \<Rightarrow> usize" where
  "page_count h = length (heap_pages h)"

text \<open>The block whose value is \<^verbatim>\<open>slotted.insert(record)\<close>: the errors before it leave the
  function, the insertion's own result is the value.\<close>

definition insert_attempt :: "bytes \<Rightarrow> page_id \<Rightarrow> (rid sp_result) heap_pool_act" where
  "insert_attempt rec pid =
     update_page H_Buffer pid (with_slotted_mut (\<lambda>sp. case sp_insert rec sp of
         (Panic, sp') \<Rightarrow> (Panic, sp')
       | (r, sp') \<Rightarrow> (Ok r, sp')))"

fun insert_into :: "bytes \<Rightarrow> page_id list \<Rightarrow> (rid option) heap_pool_act" where
  "insert_into rec [] = ret None"
| "insert_into rec (pid # pids) =
     bind_act (insert_attempt rec pid) (\<lambda>result.
     case result of
       Ok rid \<Rightarrow> ret (Some rid)
     | Err (SP_NoSpace required available) \<Rightarrow> insert_into rec pids
     | Err error \<Rightarrow> fail (H_Page error)
     | Panic \<Rightarrow> query (\<lambda>_. Panic))"

definition append_page_with_record :: "bytes \<Rightarrow> rid heap_act" where
  "append_page_with_record rec =
     bind_act (on_pool (new_page H_Buffer (with_slotted_new (map_err_act H_Page (sp_insert rec)))))
       (\<lambda>(new_page_id, rid).
     bind_act (query (\<lambda>(h, p). last_page_id h)) (\<lambda>previous_page_id.
     seq_act (on_pool (update_page H_Buffer previous_page_id
               (with_slotted_mut (map_err_act H_Page (set_next_page_id (Some new_page_id))))))
    (seq_act (update (\<lambda>(h, p). (h\<lparr>heap_pages := heap_pages h @ [new_page_id]\<rparr>, p)))
             (ret rid))))"

definition heap_insert :: "bytes \<Rightarrow> rid heap_act" where
  "heap_insert rec =
     (if MAX_RECORD_SIZE < length rec then fail (H_RecordTooLarge (length rec) MAX_RECORD_SIZE)
      else
        bind_act (query (\<lambda>(h, p). Ok (heap_pages h))) (\<lambda>pages.
        bind_act (on_pool (insert_into rec pages)) (\<lambda>found.
        case found of Some rid \<Rightarrow> ret rid | None \<Rightarrow> append_page_with_record rec)))"

definition ensure_owned_rid :: "rid \<Rightarrow> heap_file \<Rightarrow> (unit, heap_error) result" where
  "ensure_owned_rid r h = (if rid_page r \<in> set (heap_pages h) then Ok () else Err (H_RidOutsideHeap r))"

definition heap_get :: "heap_file \<Rightarrow> rid \<Rightarrow> bytes heap_pool_act" where
  "heap_get h r =
     seq_act (query (\<lambda>_. ensure_owned_rid r h))
       (read_page H_Buffer (rid_page r) (with_slotted_ref (\<lambda>sp. map_err H_Page (sp_get r sp))))"

definition heap_delete :: "heap_file \<Rightarrow> rid \<Rightarrow> unit heap_pool_act" where
  "heap_delete h r =
     seq_act (query (\<lambda>_. ensure_owned_rid r h))
       (update_page H_Buffer (rid_page r) (with_slotted_mut (map_err_act H_Page (sp_delete r))))"

text \<open>The records of a page, in slot order.\<close>

fun records_at :: "slotted_page \<Rightarrow> rid list \<Rightarrow> heap_record list sp_result" where
  "records_at sp [] = Ok []"
| "records_at sp (r # rs) =
     and_then (sp_get r sp) (\<lambda>bs.
     and_then (records_at sp rs) (\<lambda>recs. Ok (\<lparr>record_rid = r, record_bytes = bs\<rparr> # recs)))"

definition scan_page :: "page \<Rightarrow> (heap_record list, heap_error) result" where
  "scan_page = with_slotted_ref (\<lambda>sp.
     and_then (map_err H_Page (live_rids sp)) (\<lambda>rids. map_err H_Page (records_at sp rids)))"

definition heap_scan :: "heap_file \<Rightarrow> (heap_record list) heap_pool_act" where
  "heap_scan h = for_each (\<lambda>pid. read_page H_Buffer pid scan_page) (heap_pages h)"

end
