(* ===== verification/Catalog.thy ===== *)
theory Catalog
  imports Table Heap_File "HOL-Library.RBT" "HOL-Library.List_Lexorder"
begin

text \<open>
  The catalog, \<^verbatim>\<open>src/catalog/mod.rs\<close>: the registry of tables, kept as records of a heap file and
  cached in a map. The \<^verbatim>\<open>BTreeMap<String, TableMetadata>\<close> is a red-black tree of the library,
  ordered, as Rust's strings are, by the bytes of the names.
\<close>

section \<open>Data\<close>

datatype table_id = TableId (table_id_get: u32)

instantiation table_id :: linorder
begin

definition less_eq_table_id :: "table_id \<Rightarrow> table_id \<Rightarrow> bool" where
  "less_eq_table_id a b \<longleftrightarrow> table_id_get a \<le> table_id_get b"

definition less_table_id :: "table_id \<Rightarrow> table_id \<Rightarrow> bool" where
  "less_table_id a b \<longleftrightarrow> table_id_get a < table_id_get b"

instance
  by intro_classes (auto simp: less_eq_table_id_def less_table_id_def intro: table_id.expand)

end

record table_metadata =
  metadata_id :: table_id
  metadata_schema :: table_schema
  heap_first_page_id :: page_id

type_synonym table_map = "(str, table_metadata) RBT.rbt"

record catalog =
  catalog_heap :: heap_file
  catalog_tables :: table_map
  next_table_id :: u32

definition TABLE_RECORD_MAGIC :: bytes where
  "TABLE_RECORD_MAGIC = [78, 84, 66, 76]"

abbreviation (input) TABLE_RECORD_VERSION :: u16 where "TABLE_RECORD_VERSION \<equiv> 1"
abbreviation (input) TABLE_RECORD_HEADER_SIZE :: usize where "TABLE_RECORD_HEADER_SIZE \<equiv> 20"
abbreviation (input) FIRST_TABLE_ID :: u32 where "FIRST_TABLE_ID \<equiv> 1"

datatype catalog_error =
    CE_Buffer pool_error
  | CE_Heap heap_error
  | CE_Schema schema_error
  | CE_AlreadyInitialized page_id
  | CE_NotInitialized
  | CE_DuplicateTableName str
  | CE_DuplicateTableId table_id
  | CE_TableNotFound str
  | CE_TableIdExhausted
  | CE_TableRecordTooLarge usize usize
  | CE_CorruptRecord string

type_synonym 'a catalog_result = "('a, catalog_error) result"
type_synonym 'a catalog_pool_act = "(buffer_pool, 'a, catalog_error) act"
type_synonym 'a catalog_act = "(catalog \<times> buffer_pool, 'a, catalog_error) act"

text \<open>A call that is given the pool only, and one on \<^verbatim>\<open>self.heap\<close>; \<^verbatim>\<open>?\<close> converts its error.\<close>

definition on_catalog_pool :: "'a catalog_pool_act \<Rightarrow> 'a catalog_act" where
  "on_catalog_pool m = (\<lambda>(c, p). case m p of (r, p') \<Rightarrow> (r, (c, p')))"

definition on_catalog_heap :: "'a heap_act \<Rightarrow> 'a catalog_act" where
  "on_catalog_heap m = (\<lambda>(c, p). case m (catalog_heap c, p) of
     (r, (h, p')) \<Rightarrow> (map_err CE_Heap r, (c\<lparr>catalog_heap := h\<rparr>, p')))"

section \<open>Table records\<close>

definition catalog_read_u16 :: "bytes \<Rightarrow> usize \<Rightarrow> u16 catalog_result" where
  "catalog_read_u16 bs offset =
     and_then (index_at bs offset) (\<lambda>a. and_then (index_at bs (offset + 1)) (\<lambda>b. Ok (from_le [a, b])))"

definition catalog_read_u32 :: "bytes \<Rightarrow> usize \<Rightarrow> u32 catalog_result" where
  "catalog_read_u32 bs offset =
     and_then (index_at bs offset) (\<lambda>a.
     and_then (index_at bs (offset + 1)) (\<lambda>b.
     and_then (index_at bs (offset + 2)) (\<lambda>c.
     and_then (index_at bs (offset + 3)) (\<lambda>d. Ok (from_le [a, b, c, d])))))"

definition encode_table_record :: "table_metadata \<Rightarrow> bytes" where
  "encode_table_record metadata =
     (let schema = schema_encode (metadata_schema metadata);
          bs = TABLE_RECORD_MAGIC;
          bs = bs @ to_le 2 TABLE_RECORD_VERSION;
          bs = bs @ to_le 2 (0 :: u16);
          bs = bs @ to_le 4 (table_id_get (metadata_id metadata));
          bs = bs @ to_le 4 (heap_first_page_id metadata);
          bs = bs @ to_le 4 (as_u32 (length schema))
      in bs @ schema)"

definition decode_table_record :: "bytes \<Rightarrow> table_metadata catalog_result" where
  "decode_table_record bs =
     (if length bs < TABLE_RECORD_HEADER_SIZE then Err (CE_CorruptRecord ''table record is truncated'')
      else
        and_then (slice_at bs 0 4) (\<lambda>magic.
        if magic \<noteq> TABLE_RECORD_MAGIC then Err (CE_CorruptRecord ''invalid table record magic'')
        else
          and_then (catalog_read_u16 bs 4) (\<lambda>version.
          if version \<noteq> TABLE_RECORD_VERSION then Err (CE_CorruptRecord ''unsupported table record version'')
          else
            and_then (catalog_read_u16 bs 6) (\<lambda>flags.
            if flags \<noteq> 0 then Err (CE_CorruptRecord ''table record reserved flags are not zero'')
            else
              and_then (catalog_read_u32 bs 8) (\<lambda>table_id.
              if table_id < FIRST_TABLE_ID then Err (CE_CorruptRecord ''invalid table ID'')
              else
                and_then (catalog_read_u32 bs 12) (\<lambda>first.
                if first = 0 then Err (CE_CorruptRecord ''invalid table heap root'')
                else
                  and_then (catalog_read_u32 bs 16) (\<lambda>schema_length.
                  and_then (ok_or (checked_add_usize TABLE_RECORD_HEADER_SIZE (unat schema_length))
                      (CE_CorruptRecord ''table record length overflow'')) (\<lambda>expected_length.
                  if expected_length \<noteq> length bs
                  then Err (CE_CorruptRecord ''table record schema length does not match record'')
                  else
                    and_then (map_err CE_Schema (schema_decode (drop TABLE_RECORD_HEADER_SIZE bs))) (\<lambda>schema.
                    Ok \<lparr>metadata_id = TableId table_id, metadata_schema = schema, heap_first_page_id = first\<rparr>)))))))))"

section \<open>The catalog\<close>

definition catalog_create :: "catalog catalog_pool_act" where
  "catalog_create =
     bind_act (query (\<lambda>p. Ok (header_catalog_root (pool_header p)))) (\<lambda>existing.
     case existing of
       Some root \<Rightarrow> fail (CE_AlreadyInitialized root)
     | None \<Rightarrow>
         bind_act (map_err_act CE_Heap heap_create) (\<lambda>heap.
         bind_act (query (\<lambda>_. map_err CE_Heap (first_page_id heap))) (\<lambda>root.
         seq_act (map_err_act CE_Buffer (flush_page root))
        (seq_act (map_err_act CE_Buffer (pool_set_catalog_root root))
                 (ret \<lparr>catalog_heap = heap, catalog_tables = RBT.empty, next_table_id = FIRST_TABLE_ID\<rparr>)))))"

text \<open>The loop of \<^verbatim>\<open>open\<close> over the records, with its variables.\<close>

fun load_tables ::
  "heap_record list \<Rightarrow> table_map \<Rightarrow> table_id set \<Rightarrow> u32 \<Rightarrow> (table_map \<times> u32) catalog_pool_act"
where
  "load_tables [] tables table_ids highest = ret (tables, highest)"
| "load_tables (record # records) tables table_ids highest =
     bind_act (query (\<lambda>_. decode_table_record (record_bytes record))) (\<lambda>metadata.
     if metadata_id metadata \<in> table_ids then fail (CE_DuplicateTableId (metadata_id metadata))
     else if RBT.lookup tables (schema_name (metadata_schema metadata)) \<noteq> None
     then fail (CE_DuplicateTableName (schema_name (metadata_schema metadata)))
     else
       seq_act (map_err_act CE_Heap (heap_open (heap_first_page_id metadata)))
         (load_tables records
            (RBT.insert (schema_name (metadata_schema metadata)) metadata tables)
            (insert (metadata_id metadata) table_ids)
            (max highest (table_id_get (metadata_id metadata)))))"

definition catalog_open :: "catalog catalog_pool_act" where
  "catalog_open =
     bind_act (query (\<lambda>p. ok_or (header_catalog_root (pool_header p)) CE_NotInitialized)) (\<lambda>root.
     bind_act (map_err_act CE_Heap (heap_open root)) (\<lambda>heap.
     bind_act (map_err_act CE_Heap (heap_scan heap)) (\<lambda>records.
     bind_act (load_tables records RBT.empty {} 0) (\<lambda>(tables, highest).
     ret \<lparr>catalog_heap = heap, catalog_tables = tables,
           next_table_id = max (saturating_add_word highest 1) FIRST_TABLE_ID\<rparr>))))"

definition catalog_root_page_id :: "catalog \<Rightarrow> page_id catalog_result" where
  "catalog_root_page_id c = map_err CE_Heap (first_page_id (catalog_heap c))"

definition table_count :: "catalog \<Rightarrow> usize" where
  "table_count c = length (RBT.entries (catalog_tables c))"

definition catalog_table :: "catalog \<Rightarrow> str \<Rightarrow> table_metadata option" where
  "catalog_table c name = RBT.lookup (catalog_tables c) name"

definition tables_in_order :: "catalog \<Rightarrow> table_metadata list" where
  "tables_in_order c = map snd (RBT.entries (catalog_tables c))"

definition create_table :: "table_schema \<Rightarrow> table_metadata catalog_act" where
  "create_table schema =
     bind_act (query (\<lambda>(c, p). Ok c)) (\<lambda>c.
     if RBT.lookup (catalog_tables c) (schema_name schema) \<noteq> None
     then fail (CE_DuplicateTableName (schema_name schema))
     else if next_table_id c = - 1 then fail CE_TableIdExhausted
     else
       let record_size = TABLE_RECORD_HEADER_SIZE + length (schema_encode schema) in
       if MAX_ROW_SIZE < record_size then fail (CE_TableRecordTooLarge record_size MAX_ROW_SIZE)
       else
         bind_act (on_catalog_pool (map_err_act CE_Heap heap_create)) (\<lambda>table_heap.
         bind_act (query (\<lambda>_. map_err CE_Heap (first_page_id table_heap))) (\<lambda>first.
         let metadata = \<lparr>metadata_id = TableId (next_table_id c), metadata_schema = schema, heap_first_page_id = first\<rparr>
         in seq_act (on_catalog_heap (heap_insert (encode_table_record metadata)))
           (bind_act (query (\<lambda>(c, p). case checked_add_word (next_table_id c) 1 of Some n \<Rightarrow> Ok n | None \<Rightarrow> Panic)) (\<lambda>n.
            seq_act (update (\<lambda>(c, p). (c\<lparr>next_table_id := n\<rparr>, p)))
           (seq_act (update (\<lambda>(c, p). (c\<lparr>catalog_tables := RBT.insert (schema_name schema) metadata (catalog_tables c)\<rparr>, p)))
                    (query (\<lambda>(c, p). case RBT.lookup (catalog_tables c) (schema_name schema) of
                                       Some m \<Rightarrow> Ok m | None \<Rightarrow> Panic))))))))"

definition open_table_heap :: "catalog \<Rightarrow> str \<Rightarrow> heap_file catalog_pool_act" where
  "open_table_heap c name =
     bind_act (query (\<lambda>_. ok_or (catalog_table c name) (CE_TableNotFound name))) (\<lambda>metadata.
     map_err_act CE_Heap (heap_open (heap_first_page_id metadata)))"

end
