(* ===== verification/Row_Facts.thy ===== *)
theory Row_Facts
  imports Row
begin

text \<open>
  What a row is: the version byte and null bitmap, one fixed part per column, and the payloads
  of the variable columns in column order. The encoder is the function that writes this, and
  validation accepts a row exactly when it has this shape for some values of the columns'
  types.
\<close>

section \<open>Rows as values\<close>

fun payload :: "row_value \<Rightarrow> bytes" where
  "payload (V_Text s) = s"
| "payload (V_Bytes s) = s"
| "payload _ = []"

fun fixed_part :: "nat \<Rightarrow> column_schema \<Rightarrow> row_value \<Rightarrow> bytes" where
  "fixed_part pos c V_Null = replicate (column_width (column_type c)) 0"
| "fixed_part pos c (V_Int v) = to_le 8 v"
| "fixed_part pos c (V_Float v) = to_le 8 v"
| "fixed_part pos c (V_Bool b) = [if b then 1 else 0]"
| "fixed_part pos c (V_Text s) = to_le 4 (as_u32 pos) @ to_le 4 (as_u32 (length s))"
| "fixed_part pos c (V_Bytes s) = to_le 4 (as_u32 pos) @ to_le 4 (as_u32 (length s))"

text \<open>A value of a column: null where the column allows it, otherwise of its type.\<close>

fun of_type :: "data_type \<Rightarrow> row_value \<Rightarrow> bool" where
  "of_type DT_Int (V_Int _) \<longleftrightarrow> True"
| "of_type DT_Float (V_Float _) \<longleftrightarrow> True"
| "of_type DT_Bool (V_Bool _) \<longleftrightarrow> True"
| "of_type DT_Text (V_Text _) \<longleftrightarrow> True"
| "of_type DT_Bytes (V_Bytes _) \<longleftrightarrow> True"
| "of_type _ _ \<longleftrightarrow> False"

definition fits :: "column_schema \<Rightarrow> row_value \<Rightarrow> bool" where
  "fits c v \<longleftrightarrow> (if v = V_Null then column_nullable c else of_type (column_type c) v)"

text \<open>The invariant of \<^verbatim>\<open>String\<close>.\<close>

fun text_ok :: "row_value \<Rightarrow> bool" where
  "text_ok (V_Text s) \<longleftrightarrow> is_str s"
| "text_ok _ \<longleftrightarrow> True"

fun as_ref :: "row_value \<Rightarrow> value_ref" where
  "as_ref V_Null = R_Null"
| "as_ref (V_Int v) = R_Int v"
| "as_ref (V_Float v) = R_Float v"
| "as_ref (V_Bool v) = R_Bool v"
| "as_ref (V_Text v) = R_Text v"
| "as_ref (V_Bytes v) = R_Bytes v"

lemma to_owned_as_ref [simp]: "to_owned (as_ref v) = v"
  by (cases v) auto

lemma as_ref_to_owned [simp]: "as_ref (to_owned r) = r"
  by (cases r) auto

fun fixed_bytes :: "nat \<Rightarrow> column_schema list \<Rightarrow> row_value list \<Rightarrow> bytes" where
  "fixed_bytes pos (c # cs) (v # vs) = fixed_part pos c v @ fixed_bytes (pos + length (payload v)) cs vs"
| "fixed_bytes pos _ _ = []"

definition payloads :: "row_value list \<Rightarrow> bytes" where
  "payloads vs = concat (map payload vs)"

lemma payloads_simps [simp]: "payloads [] = []" "payloads (v # vs) = payload v @ payloads vs"
  by (simp_all add: payloads_def)

fun fixed_size :: "column_schema list \<Rightarrow> nat" where
  "fixed_size [] = 0"
| "fixed_size (c # cs) = column_width (column_type c) + fixed_size cs"

fun layouts_from :: "nat \<Rightarrow> column_schema list \<Rightarrow> column_layout list" where
  "layouts_from off [] = []"
| "layouts_from off (c # cs) =
     \<lparr>layout_offset = off, layout_width = column_width (column_type c)\<rparr>
       # layouts_from (off + column_width (column_type c)) cs"

definition bitmap_size :: "column_schema list \<Rightarrow> nat" where
  "bitmap_size cols = (length cols + 7) div 8"

definition fixed_start :: "column_schema list \<Rightarrow> nat" where
  "fixed_start cols = 1 + bitmap_size cols"

definition min_size :: "column_schema list \<Rightarrow> nat" where
  "min_size cols = fixed_start cols + fixed_size cols"

lemma compile_loop_eq: "compile_loop off ls cols = (ls @ layouts_from off cols, off + fixed_size cols)"
  by (induction cols arbitrary: off ls) (auto simp: Let_def)

lemma compile_eq:
  "compile cols = \<lparr>null_bitmap_size = bitmap_size cols, layout_columns = layouts_from (fixed_start cols) cols,
     minimum_row_size = min_size cols\<rparr>"
  by (simp add: compile_def compile_loop_eq bitmap_size_def fixed_start_def min_size_def Let_def)

lemma length_layouts_from [simp]: "length (layouts_from off cols) = length cols"
  by (induction cols arbitrary: off) auto

lemma length_fixed_part: "fits c v \<Longrightarrow> length (fixed_part pos c v) = column_width (column_type c)"
  by (cases v; cases "column_type c") (auto simp: fits_def)

lemma length_fixed_bytes: "list_all2 fits cols vals \<Longrightarrow> length (fixed_bytes pos cols vals) = fixed_size cols"
  by (induction arbitrary: pos rule: list_all2_induct) (auto simp: length_fixed_part)

section \<open>Checked indices\<close>

lemma index_at_ok [simp]: "i < length bs \<Longrightarrow> index_at bs i = Ok (bs ! i)"
  by (simp add: index_at_def)

lemma slice_at_ok [simp]: "a + n \<le> length bs \<Longrightarrow> slice_at bs a n = Ok (slice a n bs)"
  by (simp add: slice_at_def)

lemma row_read_u32_ok:
  assumes "off + 4 \<le> length bs"
  shows "row_read_u32 bs off = Ok (from_le (slice off 4 bs))"
proof -
  have "slice off 4 bs = [bs ! off, bs ! (off + 1), bs ! (off + 2), bs ! (off + 3)]"
    using assms by (intro nth_equalityI) (auto simp: length_slice nth_slice numeral_eq_Suc less_Suc_eq)
  then show ?thesis
    using assms by (simp add: row_read_u32_def del: from_le.simps)
qed

text \<open>Whether the bit of column \<open>i\<close> is set.\<close>

definition null_at :: "bytes \<Rightarrow> nat \<Rightarrow> bool" where
  "null_at row i = bit (row ! (1 + i div 8)) (i mod 8)"

lemma and_single_bit: "(b :: u8) AND 2 ^ n \<noteq> 0 \<longleftrightarrow> bit b n"
  by (simp add: and_exp_eq_0_iff_not_bit)

lemma is_null_ok: "1 + i div 8 < length row \<Longrightarrow> is_null row i = Ok (null_at row i)"
  by (simp add: is_null_def null_at_def Let_def and_single_bit)

lemma set_null_ok:
  "1 + i div 8 < length bm \<Longrightarrow>
   set_null (bm @ rest) i = Ok (bm[1 + i div 8 := bm ! (1 + i div 8) OR push_bit (i mod 8) 1] @ rest)"
  by (simp add: set_null_def Let_def nth_append list_update_append1)

lemma copy_at_middle: "length src = length b \<Longrightarrow> copy_at (a @ b @ c) (length a) src = Ok (a @ src @ c)"
  by (simp add: copy_at_def splice_def)

section \<open>Encoding one column\<close>

text \<open>The errors of a column: its value does not fit, or the row grows too large.\<close>

definition column_error :: "nat \<Rightarrow> column_schema \<Rightarrow> row_value \<Rightarrow> row_error option" where
  "column_error pos c v =
     (if fits c v then
        (if v \<noteq> V_Null \<and> (column_type c = DT_Text \<or> column_type c = DT_Bytes)
            \<and> MAX_ROW_SIZE < pos + length (payload v)
         then Some (RE_RowTooLarge (min (pos + length (payload v)) (usize_limit - 1)) MAX_ROW_SIZE) else None)
      else if v = V_Null then Some (RE_NullNotAllowed (column_name c))
      else Some (RE_TypeMismatch (column_name c) (column_type c) (value_type_name v)))"

definition mark_null :: "nat \<Rightarrow> row_value \<Rightarrow> bytes \<Rightarrow> bytes" where
  "mark_null i v bm = (if v = V_Null then bm[1 + i div 8 := bm ! (1 + i div 8) OR push_bit (i mod 8) 1] else bm)"

lemma length_mark_null [simp]: "length (mark_null i v bm) = length bm"
  by (simp add: mark_null_def)

lemma append_variable_eq:
  assumes "length a = off"
  shows "append_variable (a @ replicate 8 0 @ py) off s =
    (if MAX_ROW_SIZE < off + 8 + length py + length s
     then Err (RE_RowTooLarge (min (off + 8 + length py + length s) (usize_limit - 1)) MAX_ROW_SIZE)
     else Ok (a @ (to_le 4 (as_u32 (off + 8 + length py)) @ to_le 4 (as_u32 (length s))) @ py @ s))"
proof (cases "MAX_ROW_SIZE < off + 8 + length py + length s")
  case True
  then have "MAX_ROW_SIZE < min (off + 8 + length py + length s) (usize_limit - 1)" by simp
  then show ?thesis
    using True assms by (simp add: append_variable_def Let_def add.assoc)
next
  case False
  let ?o = "as_u32 (off + 8 + length py)" and ?l = "as_u32 (length s)"
  have "copy_at (a @ replicate 8 0 @ py) off (to_le 4 ?o) = (Ok (a @ to_le 4 ?o @ replicate 4 0 @ py) :: bytes row_result)"
    using copy_at_middle [of "to_le 4 ?o" "replicate 4 0" a "replicate 4 0 @ py"] assms
    by (simp add: replicate_add [of 4 4, simplified])
  moreover have "copy_at (a @ to_le 4 ?o @ replicate 4 0 @ py) (off + 4) (to_le 4 ?l) = (Ok (a @ to_le 4 ?o @ to_le 4 ?l @ py) :: bytes row_result)"
    using copy_at_middle [of "to_le 4 ?l" "replicate 4 0" "a @ to_le 4 ?o" py] assms by simp
  moreover have "u32_try_from (off + 8 + length py) = Some ?o" "u32_try_from (length s) = Some ?l"
    using False by (simp_all add: u32_try_from_def)
  ultimately show ?thesis
    using False assms by (simp add: append_variable_def Let_def add.assoc)
qed

lemma encode_column_eq:
  assumes "1 + i div 8 < length bm" and "off = length bm + length fx"
    and "row = bm @ fx @ replicate (column_width (column_type c)) 0 @ py"
  shows "encode_column i c \<lparr>layout_offset = off, layout_width = w\<rparr> v row =
    (case column_error (length row) c v of
       Some e \<Rightarrow> Err e
     | None \<Rightarrow> Ok (mark_null i v bm @ fx @ fixed_part (length row) c v @ py @ payload v))"
proof -
  have a: "length (bm @ fx) = off" using assms(2) by simp
  have put: "copy_at row off src = (Ok (bm @ fx @ src @ py) :: bytes row_result)" if "length src = column_width (column_type c)" for src
    using copy_at_middle [of src "replicate (column_width (column_type c)) 0" "bm @ fx" py] that a assms(3) by simp
  have var: "append_variable row off s =
      (if MAX_ROW_SIZE < length row + length s then Err (RE_RowTooLarge (min (length row + length s) (usize_limit - 1)) MAX_ROW_SIZE)
       else Ok (bm @ fx @ (to_le 4 (as_u32 (length row)) @ to_le 4 (as_u32 (length s))) @ py @ s))"
    if "column_width (column_type c) = 8" for s
    using append_variable_eq [OF a, of py s] that assms(2,3) by (simp add: add.assoc)
  show ?thesis
  proof (cases "v = V_Null")
    case True
    then show ?thesis
      using assms(3)
      by (simp add: encode_column_def column_error_def fits_def mark_null_def set_null_ok [OF assms(1)])
  next
    case False
    then show ?thesis
      using put var
      by (cases v; cases "column_type c")
        (simp_all add: encode_column_def column_error_def fits_def mark_null_def)
  qed
qed

section \<open>Encoding a row\<close>

fun row_fault :: "nat \<Rightarrow> column_schema list \<Rightarrow> row_value list \<Rightarrow> row_error option" where
  "row_fault pos (c # cs) (v # vs) =
     (case column_error pos c v of Some e \<Rightarrow> Some e | None \<Rightarrow> row_fault (pos + length (payload v)) cs vs)"
| "row_fault pos _ _ = None"

fun mark_nulls :: "nat \<Rightarrow> row_value list \<Rightarrow> bytes \<Rightarrow> bytes" where
  "mark_nulls i [] bm = bm"
| "mark_nulls i (v # vs) bm = mark_nulls (i + 1) vs (mark_null i v bm)"

lemma length_mark_nulls [simp]: "length (mark_nulls i vs bm) = length bm"
  by (induction i vs bm rule: mark_nulls.induct) auto

lemma column_error_None: "column_error pos c v = None \<Longrightarrow> fits c v"
  by (auto simp: column_error_def split: if_splits)

lemma encode_loop_eq:
  assumes "length vals = length cols" and "\<And>j. j < i + length cols \<Longrightarrow> 1 + j div 8 < length bm"
    and "off = length bm + length fx"
    and "row = bm @ fx @ replicate (fixed_size cols) 0 @ py"
  shows "encode_loop i (zip (zip cols (layouts_from off cols)) vals) row =
    (case row_fault (length row) cols vals of
       Some e \<Rightarrow> Err e
     | None \<Rightarrow> Ok (mark_nulls i vals bm @ fx @ fixed_bytes (length row) cols vals @ py @ payloads vals))"
  using assms
proof (induction vals cols arbitrary: i bm fx off py row rule: list_induct2)
  case Nil
  then show ?case by simp
next
  case (Cons v vals c cols)
  let ?w = "column_width (column_type c)"
  have row: "row = bm @ fx @ replicate ?w 0 @ (replicate (fixed_size cols) 0 @ py)"
    using Cons.prems(3) by (simp add: replicate_add)
  have i: "1 + i div 8 < length bm" using Cons.prems(1) [of i] by simp
  show ?case
  proof (cases "column_error (length row) c v")
    case (Some e)
    then show ?thesis
      using encode_column_eq [OF i Cons.prems(2) row, of ?w v] by simp
  next
    case None
    let ?row = "mark_null i v bm @ (fx @ fixed_part (length row) c v) @ replicate (fixed_size cols) 0 @ (py @ payload v)"
    have step: "encode_column i c \<lparr>layout_offset = off, layout_width = ?w\<rparr> v row = Ok ?row"
      using encode_column_eq [OF i Cons.prems(2) row, of ?w v] None by simp
    have len: "length (fixed_part (length row) c v) = ?w"
      using length_fixed_part column_error_None [OF None] by blast
    have lenrow: "length ?row = length row + length (payload v)"
      using len row by simp
    have "encode_loop (i + 1) (zip (zip cols (layouts_from (off + ?w) cols)) vals) ?row =
      (case row_fault (length row + length (payload v)) cols vals of
         Some e \<Rightarrow> Err e
       | None \<Rightarrow> Ok (mark_nulls (i + 1) vals (mark_null i v bm) @ (fx @ fixed_part (length row) c v)
           @ fixed_bytes (length row + length (payload v)) cols vals @ (py @ payload v) @ payloads vals))"
      unfolding lenrow [symmetric] by (rule Cons.IH) (use Cons.prems(1,2) len in auto)
    then show ?thesis
      using step None by (simp split: option.split)
  qed
qed

definition empty_bitmap :: "column_schema list \<Rightarrow> bytes" where
  "empty_bitmap cols = ROW_FORMAT_VERSION # replicate (bitmap_size cols) 0"

text \<open>The encoded row.\<close>

definition row_image :: "column_schema list \<Rightarrow> row_value list \<Rightarrow> bytes" where
  "row_image cols vals =
     mark_nulls 0 vals (empty_bitmap cols) @ fixed_bytes (min_size cols) cols vals @ payloads vals"

lemma bitmap_covers: "j < length cols \<Longrightarrow> 1 + j div 8 < fixed_start cols"
  unfolding fixed_start_def bitmap_size_def by linarith

lemma row_fault_fits: "length vals = length cols \<Longrightarrow> row_fault pos cols vals = None \<Longrightarrow> list_all2 fits cols vals"
  by (induction pos cols vals rule: row_fault.induct)
    (auto split: option.splits dest: column_error_None)

lemma length_row_image:
  "list_all2 fits cols vals \<Longrightarrow> length (row_image cols vals) = min_size cols + length (payloads vals)"
  by (simp add: row_image_def length_fixed_bytes empty_bitmap_def min_size_def fixed_start_def)

lemma replicate_three: "replicate (1 + a + b) x = [] @ [x] @ replicate a x @ replicate b x"
  by (simp add: replicate_add)

lemma encode_eq:
  "encode (compile cols) cols vals =
    (if length vals \<noteq> length cols then Err (RE_WrongValueCount (length cols) (length vals))
     else case row_fault (min_size cols) cols vals of
       Some e \<Rightarrow> Err e
     | None \<Rightarrow> if MAX_ROW_SIZE < min_size cols + length (payloads vals)
               then Err (RE_RowTooLarge (min_size cols + length (payloads vals)) MAX_ROW_SIZE)
               else Ok (row_image cols vals))"
proof (cases "length vals = length cols")
  case True
  let ?row = "empty_bitmap cols @ [] @ replicate (fixed_size cols) 0 @ []"
  have start: "copy_at (replicate (min_size cols) 0) 0 [ROW_FORMAT_VERSION] = (Ok ?row :: bytes row_result)"
  proof -
    have "replicate (min_size cols) 0 = [] @ [0] @ replicate (bitmap_size cols) 0 @ replicate (fixed_size cols) (0 :: u8)"
      unfolding min_size_def fixed_start_def by (rule replicate_three)
    moreover have "copy_at ([] @ [0] @ c) 0 [ROW_FORMAT_VERSION] = (Ok ([ROW_FORMAT_VERSION] @ c) :: bytes row_result)" for c
      by (simp add: copy_at_def splice_def)
    ultimately show ?thesis
      by (simp only: empty_bitmap_def append_Nil append_Nil2 append_Cons)
  qed
  have len: "length (empty_bitmap cols) = fixed_start cols" "length ?row = min_size cols"
    by (simp_all add: empty_bitmap_def fixed_start_def min_size_def)
  have loop: "encode_loop 0 (zip (zip cols (layouts_from (fixed_start cols) cols)) vals) ?row =
    (case row_fault (min_size cols) cols vals of Some e \<Rightarrow> Err e | None \<Rightarrow> Ok (row_image cols vals))"
  proof -
    have "encode_loop 0 (zip (zip cols (layouts_from (fixed_start cols) cols)) vals) ?row =
      (case row_fault (length ?row) cols vals of
         Some e \<Rightarrow> Err e
       | None \<Rightarrow> Ok (mark_nulls 0 vals (empty_bitmap cols) @ [] @ fixed_bytes (length ?row) cols vals @ [] @ payloads vals))"
      by (rule encode_loop_eq [OF True _ _ refl]) (use bitmap_covers in \<open>simp_all add: len(1)\<close>)
    then show ?thesis
      unfolding len(2) unfolding row_image_def append_Nil .
  qed
  have run: "encode (compile cols) cols vals =
      and_then (encode_loop 0 (zip (zip cols (layouts_from (fixed_start cols) cols)) vals) ?row) (\<lambda>row.
        if MAX_ROW_SIZE < length row then Err (RE_RowTooLarge (length row) MAX_ROW_SIZE) else Ok row)"
    unfolding encode_def compile_eq row_layout.simps start and_then.simps if_not_P [OF True [THEN not_not [THEN iffD2]]] ..
  show ?thesis
  proof (cases "row_fault (min_size cols) cols vals")
    case None
    then show ?thesis
      unfolding run loop using True length_row_image [OF row_fault_fits [OF True None]] by simp
  next
    case (Some e)
    then show ?thesis unfolding run loop using True by simp
  qed
next
  case False
  then show ?thesis by (simp add: encode_def)
qed

section \<open>The null bitmap\<close>

lemma null_at_mark_null:
  assumes "1 + i div 8 < length bm" and "1 + j div 8 < length bm"
  shows "null_at (mark_null i v bm) j \<longleftrightarrow> null_at bm j \<or> (i = j \<and> v = V_Null)"
proof -
  have "i = j \<longleftrightarrow> i div 8 = j div 8 \<and> i mod 8 = j mod 8"
    by (metis div_mult_mod_eq)
  then show ?thesis
    using assms by (auto simp: mark_null_def null_at_def bit_simps nth_list_update)
qed

lemma null_at_mark_nulls:
  assumes "\<And>k. k < i + length vals \<Longrightarrow> 1 + k div 8 < length bm" and "1 + j div 8 < length bm"
  shows "null_at (mark_nulls i vals bm) j \<longleftrightarrow>
    null_at bm j \<or> (i \<le> j \<and> j < i + length vals \<and> vals ! (j - i) = V_Null)"
  using assms
proof (induction i vals bm rule: mark_nulls.induct)
  case (2 i v vals bm)
  then show ?case
    by (cases "i < j") (auto simp: null_at_mark_null nth_Cons')
qed auto

lemma null_at_append: "1 + j div 8 < length a \<Longrightarrow> null_at (a @ b) j = null_at a j"
  by (simp add: null_at_def nth_append)

lemma null_at_empty: "1 + j div 8 < fixed_start cols \<Longrightarrow> \<not> null_at (empty_bitmap cols) j"
  by (simp add: null_at_def empty_bitmap_def fixed_start_def)

text \<open>The first byte is the version; no null bit is in it.\<close>

lemma mark_nulls_hd: "mark_nulls i vals bm ! 0 = bm ! 0"
  by (induction i vals bm rule: mark_nulls.induct) (auto simp: mark_null_def)

lemma row_image_nulls:
  assumes "length vals = length cols" and "1 + j div 8 < fixed_start cols"
  shows "null_at (row_image cols vals) j \<longleftrightarrow> j < length cols \<and> vals ! j = V_Null"
proof -
  have len: "length (empty_bitmap cols) = fixed_start cols"
    by (simp add: empty_bitmap_def fixed_start_def)
  show ?thesis
    using null_at_mark_nulls [of 0 vals "empty_bitmap cols" j] null_at_empty [OF assms(2)] assms bitmap_covers len
    by (simp add: row_image_def null_at_append)
qed

end
