(* ===== verification/Row_Decode.thy ===== *)
theory Row_Decode
  imports Row_Facts
begin

text \<open>
  Reading rows: validation accepts exactly the rows that hold values of the columns' types in
  the shape the encoder writes, and decoding a validated row reads those values.
\<close>

section \<open>One column\<close>

text \<open>\<open>row\<close> holds the value \<open>v\<close> of column \<open>c\<close>: its fixed part is at \<open>off\<close>, its payload at \<open>pos\<close>.\<close>

definition holds :: "bytes \<Rightarrow> nat \<Rightarrow> nat \<Rightarrow> column_schema \<Rightarrow> row_value \<Rightarrow> bool" where
  "holds row off pos c v \<longleftrightarrow> fits c v \<and> text_ok v
     \<and> slice off (column_width (column_type c)) row = fixed_part pos c v
     \<and> pos + length (payload v) \<le> length row \<and> slice pos (length (payload v)) row = payload v"

lemma to_le_eq_iff_u32: "length bs = 4 \<Longrightarrow> bs = to_le 4 (w :: u32) \<longleftrightarrow> from_le bs = w"
  using to_le_from_le [of bs, where 'a = 32] by auto

lemma descriptor_iff:
  assumes "length bs = 8" and "a < 4294967296" and "b < 4294967296"
  shows "bs = to_le 4 (as_u32 a) @ to_le 4 (as_u32 b) \<longleftrightarrow>
    unat (from_le (slice 0 4 bs) :: u32) = a \<and> unat (from_le (slice 4 4 bs) :: u32) = b"
proof -
  have split: "bs = slice 0 4 bs @ slice 4 4 bs" "length (slice 0 4 bs) = 4" "length (slice 4 4 bs) = 4"
    using assms(1) by (simp_all add: slice_def)
  have w: "unat (x :: u32) = n \<longleftrightarrow> x = as_u32 n" if "n < 4294967296" for x n
    using that by (simp add: word_unat_eq_iff)
  have "bs = to_le 4 (as_u32 a) @ to_le 4 (as_u32 b) \<longleftrightarrow>
      slice 0 4 bs = to_le 4 (as_u32 a) \<and> slice 4 4 bs = to_le 4 (as_u32 b)"
    using append_eq_append_conv [of "slice 0 4 bs" "to_le 4 (as_u32 a)" "slice 4 4 bs" "to_le 4 (as_u32 b)"]
    unfolding split(1) [symmetric] by (simp only: split(2,3) length_to_le simp_thms)
  then show ?thesis
    unfolding w [OF assms(2)] w [OF assms(3)] to_le_eq_iff_u32 [OF split(2)] to_le_eq_iff_u32 [OF split(3)] .
qed

lemma eight_bytes_word: "length bs = 8 \<Longrightarrow> to_le 8 (from_le bs :: u64) = bs"
  using to_le_from_le [of bs, where 'a = 64] by simp

lemma zero_bytes_iff: "length bs = n \<Longrightarrow> (\<exists>b\<in>set bs. b \<noteq> 0) \<longleftrightarrow> bs \<noteq> replicate n 0"
  by (metis in_set_replicate replicate_eqI)

text \<open>The variable columns, text and bytes.\<close>

definition payload_checked :: "bytes \<Rightarrow> nat \<Rightarrow> data_type \<Rightarrow> nat \<Rightarrow> nat \<Rightarrow> bool" where
  "payload_checked row pos t a n \<longleftrightarrow>
     a = pos \<and> pos + n \<le> length row \<and> (t = DT_Text \<longrightarrow> is_str (slice pos n row))"

lemma validate_variable:
  assumes len: "off + 8 \<le> length row" "length row \<le> MAX_ROW_SIZE" and bm: "1 + i div 8 < length row"
    and t: "column_type c = DT_Text \<or> column_type c = DT_Bytes" and nn: "\<not> null_at row i"
  defines "bs \<equiv> slice off 8 row"
  defines "a \<equiv> unat (from_le (slice 0 4 bs) :: u32)" and "n \<equiv> unat (from_le (slice 4 4 bs) :: u32)"
  shows "validate_column row i c \<lparr>layout_offset = off, layout_width = 8\<rparr> pos =
    (if a \<noteq> pos then Err (RE_Corrupt ''variable column payload is not canonical'')
     else if length row < pos + n then Err (RE_Corrupt ''variable column exceeds row boundary'')
     else if column_type c = DT_Text \<and> \<not> is_str (slice pos n row) then Err (RE_Corrupt ''text column is not UTF-8'')
     else Ok (pos + n))"
proof -
  have bs: "length bs = 8" using len by (simp add: bs_def)
  have "row_read_u32 bs 0 = (Ok (from_le (slice 0 4 bs)) :: u32 row_result)"
      "row_read_u32 bs 4 = (Ok (from_le (slice 4 4 bs)) :: u32 row_result)"
    using bs by (simp_all add: row_read_u32_ok)
  then have "validate_column row i c \<lparr>layout_offset = off, layout_width = 8\<rparr> pos =
    (if a \<noteq> pos then Err (RE_Corrupt ''variable column payload is not canonical'')
     else and_then (ok_or (case checked_add_usize a n of Some e \<Rightarrow> if e \<le> length row then Some e else None | None \<Rightarrow> None)
                     (RE_Corrupt ''variable column exceeds row boundary'')) (\<lambda>e.
             if column_type c = DT_Text then
               and_then (slice_at row a (e - a)) (\<lambda>text.
               if is_str text then Ok e else Err (RE_Corrupt ''text column is not UTF-8''))
             else Ok e))"
    using len bm nn t unfolding a_def n_def bs_def
    by (auto simp: validate_column_def is_null_ok Let_def)
  also have "checked_add_usize a n = Some (a + n)"
    using unat_u32_less [of "from_le (slice 0 4 bs)"] unat_u32_less [of "from_le (slice 4 4 bs)"]
    by (simp add: checked_add_usize_def a_def n_def)
  finally show ?thesis
    by (simp add: not_le)
qed

text \<open>Validation of one column, on any bytes: accepted exactly when the column holds a value.\<close>

lemma validate_column_not_Panic:
  assumes "off + column_width (column_type c) \<le> length row" and "length row \<le> MAX_ROW_SIZE" and "1 + i div 8 < length row"
  shows "validate_column row i c \<lparr>layout_offset = off, layout_width = column_width (column_type c)\<rparr> pos \<noteq> Panic"
proof (cases "null_at row i \<or> \<not> (column_type c = DT_Text \<or> column_type c = DT_Bytes)")
  case True
  then show ?thesis
    using assms by (cases "column_type c") (auto simp: validate_column_def is_null_ok)
next
  case False
  then have w: "column_width (column_type c) = 8" by auto
  show ?thesis
    using validate_variable [of off row i c pos] assms False unfolding w by (auto split: if_splits)
qed

text \<open>A column of the row holds a value, and its payload ends at \<open>e\<close>; null columns have their bit set.\<close>

definition held :: "bytes \<Rightarrow> nat \<Rightarrow> nat \<Rightarrow> nat \<Rightarrow> column_schema \<Rightarrow> nat \<Rightarrow> bool" where
  "held row i off pos c e \<longleftrightarrow>
     (\<exists>v. holds row off pos c v \<and> (null_at row i \<longleftrightarrow> v = V_Null) \<and> e = pos + length (payload v))"

lemma heldE:
  assumes "held row i off pos c e" and "\<not> null_at row i"
  obtains v where "holds row off pos c v" "fits c v" "v \<noteq> V_Null" "e = pos + length (payload v)"
  using assms by (auto simp: held_def holds_def)

abbreviation column_at :: "nat \<Rightarrow> column_schema \<Rightarrow> column_layout" where
  "column_at off c \<equiv> \<lparr>layout_offset = off, layout_width = column_width (column_type c)\<rparr>"

lemma validate_null_iff:
  assumes fit: "off + column_width (column_type c) \<le> length row" and bm: "1 + i div 8 < length row"
    and pos: "pos \<le> length row" and null: "null_at row i"
  shows "validate_column row i c (column_at off c) pos = Ok e \<longleftrightarrow> held row i off pos c e"
proof -
  let ?w = "column_width (column_type c)"
  have "length (slice off ?w row) = ?w" using fit by simp
  from zero_bytes_iff [OF this]
  have "validate_column row i c (column_at off c) pos = Ok e \<longleftrightarrow>
      column_nullable c \<and> slice off ?w row = replicate ?w 0 \<and> e = pos"
    using fit bm null by (auto simp: validate_column_def is_null_ok)
  also have "\<dots> \<longleftrightarrow> held row i off pos c e"
    using null pos by (auto simp: held_def holds_def fits_def)
  finally show ?thesis .
qed

lemma validate_word_iff:
  assumes fit: "off + column_width (column_type c) \<le> length row" and bm: "1 + i div 8 < length row"
    and pos: "pos \<le> length row" and null: "\<not> null_at row i"
    and type: "column_type c = DT_Int \<and> as = V_Int \<or> column_type c = DT_Float \<and> as = V_Float"
  shows "validate_column row i c (column_at off c) pos = Ok e \<longleftrightarrow> held row i off pos c e"
proof -
  let ?bs = "slice off (column_width (column_type c)) row"
  have "length ?bs = 8" using fit type by auto
  note word = eight_bytes_word [OF this]
  have "validate_column row i c (column_at off c) pos = Ok e \<longleftrightarrow> e = pos"
    using type null fit bm by (auto simp: validate_column_def is_null_ok)
  also have "\<dots> \<longleftrightarrow> held row i off pos c e"
  proof
    assume "e = pos"
    then show "held row i off pos c e"
      using type null pos word unfolding held_def
      by (intro exI [of _ "as (from_le ?bs)"]) (auto simp: holds_def fits_def)
  next
    assume "held row i off pos c e"
    then obtain v where "fits c v" "v \<noteq> V_Null" "e = pos + length (payload v)"
      using null by (rule heldE)
    then show "e = pos" using type by (cases v) (auto simp: fits_def)
  qed
  finally show ?thesis .
qed

lemma validate_bool_iff:
  assumes fit: "off + column_width (column_type c) \<le> length row" and bm: "1 + i div 8 < length row"
    and pos: "pos \<le> length row" and null: "\<not> null_at row i" and type: "column_type c = DT_Bool"
  shows "validate_column row i c (column_at off c) pos = Ok e \<longleftrightarrow> held row i off pos c e"
proof -
  have "length (slice off (column_width (column_type c)) row) = 1" using fit type by simp
  then obtain b where b: "slice off (column_width (column_type c)) row = [b]" by (auto simp: length_Suc_conv)
  have "validate_column row i c (column_at off c) pos = Ok e \<longleftrightarrow> (b = 0 \<or> b = 1) \<and> e = pos"
    using type null fit bm b by (auto simp: validate_column_def is_null_ok)
  also have "\<dots> \<longleftrightarrow> held row i off pos c e"
  proof
    assume "(b = 0 \<or> b = 1) \<and> e = pos"
    then show "held row i off pos c e"
      using type null pos b unfolding held_def
      by (intro exI [of _ "V_Bool (b = 1)"]) (auto simp: holds_def fits_def)
  next
    assume "held row i off pos c e"
    then obtain v where v: "holds row off pos c v" "fits c v" "v \<noteq> V_Null" "e = pos + length (payload v)"
      using null by (rule heldE)
    then show "(b = 0 \<or> b = 1) \<and> e = pos"
      using type b by (cases v) (auto simp: holds_def fits_def split: if_splits)
  qed
  finally show ?thesis .
qed

lemma validate_payload_iff:
  assumes fit: "off + column_width (column_type c) \<le> length row" "length row \<le> MAX_ROW_SIZE"
    and bm: "1 + i div 8 < length row" and pos: "pos \<le> length row" and null: "\<not> null_at row i"
    and type: "column_type c = DT_Text \<or> column_type c = DT_Bytes"
  shows "validate_column row i c (column_at off c) pos = Ok e \<longleftrightarrow> held row i off pos c e"
proof -
  let ?d = "slice off 8 row"
  let ?a = "unat (from_le (slice 0 4 ?d) :: u32)" and ?n = "unat (from_le (slice 4 4 ?d) :: u32)"
  have w: "column_width (column_type c) = 8" and d: "length ?d = 8" using fit type by auto
  have "validate_column row i c (column_at off c) pos = Ok e \<longleftrightarrow> payload_checked row pos (column_type c) ?a ?n \<and> e = pos + ?n"
    unfolding w using validate_variable [of off row i c pos] fit bm null type unfolding w
    by (auto simp: payload_checked_def not_less)
  also have "\<dots> \<longleftrightarrow> held row i off pos c e"
  proof
    assume checked: "payload_checked row pos (column_type c) ?a ?n \<and> e = pos + ?n"
    let ?v = "if column_type c = DT_Text then V_Text (slice pos ?n row) else V_Bytes (slice pos ?n row)"
    have n: "pos + ?n \<le> length row" "?a = pos" using checked by (auto simp: payload_checked_def)
    then have p: "payload ?v = slice pos ?n row" "length (payload ?v) = ?n" by auto
    have "?d = to_le 4 (as_u32 pos) @ to_le 4 (as_u32 ?n)"
      using descriptor_iff [of ?d pos ?n] d n pos fit(2) by simp
    then have "holds row off pos c ?v"
      using checked type n p w by (auto simp: holds_def fits_def payload_checked_def)
    then show "held row i off pos c e"
      using checked null p unfolding held_def by (intro exI [of _ ?v]) auto
  next
    assume "held row i off pos c e"
    then obtain v where v: "holds row off pos c v" "fits c v" "v \<noteq> V_Null" "e = pos + length (payload v)"
      using null by (rule heldE)
    obtain s where s: "v = V_Text s \<and> column_type c = DT_Text \<or> v = V_Bytes s \<and> column_type c = DT_Bytes"
      using v(2,3) type by (cases v) (auto simp: fits_def)
    have h: "?d = to_le 4 (as_u32 pos) @ to_le 4 (as_u32 (length s))" "pos + length s \<le> length row"
        "slice pos (length s) row = s" "column_type c = DT_Text \<longrightarrow> is_str s" "e = pos + length s"
      using v s w by (auto simp: holds_def)
    have "?a = pos" "?n = length s"
      using descriptor_iff [of ?d pos "length s"] h(1,2) d fit(2) pos by simp_all
    then show "payload_checked row pos (column_type c) ?a ?n \<and> e = pos + ?n"
      using h by (simp add: payload_checked_def)
  qed
  finally show ?thesis .
qed

lemma validate_column_iff:
  assumes "off + column_width (column_type c) \<le> length row" and "length row \<le> MAX_ROW_SIZE"
    and "1 + i div 8 < length row" and "pos \<le> length row"
  shows "validate_column row i c (column_at off c) pos = Ok e \<longleftrightarrow>
    (\<exists>v. holds row off pos c v \<and> (null_at row i \<longleftrightarrow> v = V_Null) \<and> e = pos + length (payload v))"
  unfolding held_def [symmetric]
  using validate_null_iff [OF assms(1,3,4)] validate_word_iff [OF assms(1,3,4), of V_Int] validate_word_iff [OF assms(1,3,4), of V_Float]
    validate_bool_iff [OF assms(1,3,4)] validate_payload_iff [OF assms]
  by (cases "null_at row i"; cases "column_type c") simp_all

section \<open>All columns\<close>

fun holds_all :: "bytes \<Rightarrow> nat \<Rightarrow> nat \<Rightarrow> column_schema list \<Rightarrow> row_value list \<Rightarrow> bool" where
  "holds_all row off pos [] [] \<longleftrightarrow> True"
| "holds_all row off pos (c # cs) (v # vs) \<longleftrightarrow>
     holds row off pos c v \<and> holds_all row (off + column_width (column_type c)) (pos + length (payload v)) cs vs"
| "holds_all row off pos _ _ \<longleftrightarrow> False"

fun nulls_match :: "bytes \<Rightarrow> nat \<Rightarrow> row_value list \<Rightarrow> bool" where
  "nulls_match row i [] \<longleftrightarrow> True"
| "nulls_match row i (v # vs) \<longleftrightarrow> (null_at row i \<longleftrightarrow> v = V_Null) \<and> nulls_match row (i + 1) vs"

lemma holds_all_Cons: "holds_all row off pos (c # cs) vals \<longleftrightarrow>
  (\<exists>v vs. vals = v # vs \<and> holds row off pos c v
    \<and> holds_all row (off + column_width (column_type c)) (pos + length (payload v)) cs vs)"
  by (cases vals) auto

lemma holds_all_fits: "holds_all row off pos cols vals \<Longrightarrow> list_all2 fits cols vals \<and> list_all text_ok vals"
  by (induction row off pos cols vals rule: holds_all.induct) (auto simp: holds_def)

lemma nulls_match_iff: "nulls_match row i vals \<longleftrightarrow> (\<forall>j<length vals. null_at row (i + j) \<longleftrightarrow> vals ! j = V_Null)"
  by (induction row i vals rule: nulls_match.induct) (auto simp: All_less_Suc2)

lemma validate_loop_iff:
  assumes "off + fixed_size cols \<le> length row" and "length row \<le> MAX_ROW_SIZE" and "pos \<le> length row"
    and "\<And>j. j < i + length cols \<Longrightarrow> 1 + j div 8 < length row"
  shows "(validate_loop row i (zip cols (layouts_from off cols)) pos = Ok e \<longleftrightarrow>
      (\<exists>vals. holds_all row off pos cols vals \<and> nulls_match row i vals \<and> e = pos + length (payloads vals)))
    \<and> validate_loop row i (zip cols (layouts_from off cols)) pos \<noteq> Panic"
  using assms
proof (induction cols arbitrary: i off pos)
  case Nil
  have "holds_all row off pos [] vals \<longleftrightarrow> vals = []" for vals by (cases vals) auto
  then show ?case by auto
next
  case (Cons c cols)
  let ?w = "column_width (column_type c)"
  have fit: "off + ?w \<le> length row" "1 + i div 8 < length row"
    using Cons.prems(1) Cons.prems(4) [of i] by simp_all
  note col = validate_column_iff [OF fit(1) Cons.prems(2) fit(2) Cons.prems(3)]
  note no_panic = validate_column_not_Panic [OF fit(1) Cons.prems(2) fit(2)]
  have rest: "(validate_loop row (i + 1) (zip cols (layouts_from (off + ?w) cols)) pos' = Ok e \<longleftrightarrow>
      (\<exists>vals. holds_all row (off + ?w) pos' cols vals \<and> nulls_match row (i + 1) vals \<and> e = pos' + length (payloads vals)))
    \<and> validate_loop row (i + 1) (zip cols (layouts_from (off + ?w) cols)) pos' \<noteq> Panic"
    if "pos' \<le> length row" for pos'
    using Cons.prems by (intro Cons.IH that) auto
  have held: "pos + length (payload v) \<le> length row" if "holds row off pos c v" for v
    using that by (simp add: holds_def)
  have tail: "validate_loop row (i + 1) (zip cols (layouts_from (off + ?w) cols)) (pos + length (payload v)) = Ok e \<longleftrightarrow>
      (\<exists>vs. holds_all row (off + ?w) (pos + length (payload v)) cols vs \<and> nulls_match row (i + 1) vs
        \<and> e = pos + length (payload v) + length (payloads vs))" if "holds row off pos c v" for v
    using rest [OF held [OF that]] by blast
  have "validate_loop row i (zip (c # cols) (layouts_from off (c # cols))) pos = Ok e \<longleftrightarrow>
    (\<exists>v. holds row off pos c v \<and> (null_at row i \<longleftrightarrow> v = V_Null)
      \<and> validate_loop row (i + 1) (zip cols (layouts_from (off + ?w) cols)) (pos + length (payload v)) = Ok e)"
    by (auto simp: and_then_Ok_iff col)
  also have "\<dots> \<longleftrightarrow> (\<exists>vals. holds_all row off pos (c # cols) vals \<and> nulls_match row i vals \<and> e = pos + length (payloads vals))"
  proof
    assume "\<exists>v. holds row off pos c v \<and> (null_at row i \<longleftrightarrow> v = V_Null)
      \<and> validate_loop row (i + 1) (zip cols (layouts_from (off + ?w) cols)) (pos + length (payload v)) = Ok e"
    then obtain v vs where "holds row off pos c v" "null_at row i \<longleftrightarrow> v = V_Null"
        "holds_all row (off + ?w) (pos + length (payload v)) cols vs" "nulls_match row (i + 1) vs"
        "e = pos + length (payload v) + length (payloads vs)"
      using tail by blast
    then show "\<exists>vals. holds_all row off pos (c # cols) vals \<and> nulls_match row i vals \<and> e = pos + length (payloads vals)"
      by (intro exI [of _ "v # vs"]) simp
  next
    assume "\<exists>vals. holds_all row off pos (c # cols) vals \<and> nulls_match row i vals \<and> e = pos + length (payloads vals)"
    then obtain v vs where v: "holds row off pos c v" "null_at row i \<longleftrightarrow> v = V_Null"
        "holds_all row (off + ?w) (pos + length (payload v)) cols vs" "nulls_match row (i + 1) vs"
        "e = pos + length (payload v) + length (payloads vs)"
      by (auto simp: holds_all_Cons)
    then have "validate_loop row (i + 1) (zip cols (layouts_from (off + ?w) cols)) (pos + length (payload v)) = Ok e"
      using tail [OF v(1)] by blast
    then show "\<exists>v. holds row off pos c v \<and> (null_at row i \<longleftrightarrow> v = V_Null)
      \<and> validate_loop row (i + 1) (zip cols (layouts_from (off + ?w) cols)) (pos + length (payload v)) = Ok e"
      using v(1,2) by blast
  qed
  finally show ?case
    using no_panic rest held col by (auto simp: and_then_Panic_iff)
qed

text \<open>A row of the columns \<open>cols\<close> with the values \<open>vals\<close>.\<close>

definition is_row :: "column_schema list \<Rightarrow> row_value list \<Rightarrow> bytes \<Rightarrow> bool" where
  "is_row cols vals row \<longleftrightarrow> row ! 0 = ROW_FORMAT_VERSION \<and> length row = min_size cols + length (payloads vals)
     \<and> length row \<le> MAX_ROW_SIZE \<and> holds_all row (fixed_start cols) (min_size cols) cols vals \<and> nulls_match row 0 vals"

lemma column_in_row: "min_size cols \<le> length row \<Longrightarrow> j < length cols \<Longrightarrow> 1 + j div 8 < length row"
  using bitmap_covers [of j cols] by (simp add: min_size_def)

lemma validate_row_cases:
  "(validate_row (compile cols) cols row = Ok () \<longleftrightarrow> (\<exists>vals. is_row cols vals row))
   \<and> validate_row (compile cols) cols row \<noteq> Panic"
proof (cases "min_size cols \<le> length row \<and> length row \<le> MAX_ROW_SIZE")
  case True
  then have bounds: "fixed_start cols + fixed_size cols \<le> length row" "length row \<le> MAX_ROW_SIZE" "min_size cols \<le> length row"
    by (simp_all add: min_size_def)
  then have 0: "0 < length row" unfolding fixed_start_def by linarith
  have "1 + j div 8 < length row" if "j < 0 + length cols" for j
    using column_in_row bounds(3) that by simp
  note loop = validate_loop_iff [where i = 0, OF bounds this]
  have run: "validate_row (compile cols) cols row =
      (if row ! 0 \<noteq> ROW_FORMAT_VERSION then Err (RE_Corrupt ''unsupported row format version'')
       else and_then (validate_loop row 0 (zip cols (layouts_from (fixed_start cols) cols)) (min_size cols)) (\<lambda>e.
         if e \<noteq> length row then Err (RE_Corrupt ''row has trailing or unreferenced payload'') else Ok ()))"
    using bounds 0 by (simp add: validate_row_def compile_eq)
  have "validate_row (compile cols) cols row = Ok () \<longleftrightarrow>
      row ! 0 = ROW_FORMAT_VERSION \<and> validate_loop row 0 (zip cols (layouts_from (fixed_start cols) cols)) (min_size cols) = Ok (length row)"
    unfolding run by (auto simp: and_then_Ok_iff)
  also have "\<dots> \<longleftrightarrow> (\<exists>vals. is_row cols vals row)"
    using loop [of "length row"] bounds(2) by (auto simp: is_row_def)
  finally show ?thesis
    unfolding run using loop by (auto simp: and_then_Panic_iff)
next
  case False
  then show ?thesis
    by (auto simp: validate_row_def compile_eq is_row_def)
qed

section \<open>Decoding\<close>

lemma holds_all_nth:
  "holds_all row off pos cols vals \<Longrightarrow> j < length cols \<Longrightarrow>
   \<exists>o' p. layouts_from off cols ! j = \<lparr>layout_offset = o', layout_width = column_width (column_type (cols ! j))\<rparr>
     \<and> holds row o' p (cols ! j) (vals ! j) \<and> o' + column_width (column_type (cols ! j)) \<le> off + fixed_size cols"
proof (induction row off pos cols vals arbitrary: j rule: holds_all.induct)
  case (2 row off pos c cs v vs)
  show ?case
  proof (cases j)
    case 0
    then show ?thesis using 2 by auto
  next
    case (Suc k)
    then show ?thesis using 2 by (fastforce simp: add.assoc)
  qed
qed auto

lemma variable_payload_ok:
  assumes "slice off 8 row = to_le 4 (as_u32 p) @ to_le 4 (as_u32 (length s))" and "off + 8 \<le> length row"
    and "p + length s \<le> length row" and "slice p (length s) row = s" and "length row \<le> MAX_ROW_SIZE"
  shows "variable_payload row (slice off 8 row) = Ok s"
proof -
  have len: "length (slice off 8 row) = 8" using assms(2) by simp
  have "unat (from_le (slice 0 4 (slice off 8 row)) :: u32) = p" "unat (from_le (slice 4 4 (slice off 8 row)) :: u32) = length s"
    using descriptor_iff [OF len, of p "length s"] assms by simp_all
  then show ?thesis
    using assms(3,4) len by (simp add: variable_payload_def row_read_u32_ok)
qed

lemma decode_held:
  assumes row: "is_row cols vals row" and j: "j < length cols"
  shows "decode_column_unchecked (compile cols) cols row j = Ok (as_ref (vals ! j))"
proof -
  have bounds: "length row \<le> MAX_ROW_SIZE" "min_size cols \<le> length row" and all: "holds_all row (fixed_start cols) (min_size cols) cols vals"
    using row by (simp_all add: is_row_def)
  have len: "length vals = length cols" using holds_all_fits [OF all] by (metis list_all2_lengthD)
  have null: "is_null row j = (Ok (vals ! j = V_Null) :: bool row_result)"
    using row j len column_in_row [OF bounds(2) j] by (simp add: is_row_def nulls_match_iff is_null_ok)
  obtain o' p where h: "layouts_from (fixed_start cols) cols ! j = \<lparr>layout_offset = o', layout_width = column_width (column_type (cols ! j))\<rparr>"
      "holds row o' p (cols ! j) (vals ! j)" "o' + column_width (column_type (cols ! j)) \<le> fixed_start cols + fixed_size cols"
    using holds_all_nth [OF all j] by blast
  have fit: "o' + column_width (column_type (cols ! j)) \<le> length row"
    using h(3) bounds(2) by (simp add: min_size_def)
  show ?thesis
    using null h j fit variable_payload_ok [of o' row p] bounds(1)
    by (cases "vals ! j"; cases "column_type (cols ! j)")
      (auto simp: decode_column_unchecked_def compile_eq holds_def fits_def eight_bytes_def)
qed

lemma collect_results_ok: "(\<And>k. k \<in> set ks \<Longrightarrow> f k = Ok (g k)) \<Longrightarrow> collect_results f ks = Ok (map g ks)"
  by (induction ks) auto

lemma is_row_length: "is_row cols vals row \<Longrightarrow> length vals = length cols"
  unfolding is_row_def by (metis holds_all_fits list_all2_lengthD)

lemma decode_row:
  assumes "is_row cols vals row"
  shows "decode (compile cols) cols row = Ok (map as_ref vals)"
proof -
  have "validate_row (compile cols) cols row = Ok ()"
    using validate_row_cases assms by blast
  moreover have "collect_results (decode_column_unchecked (compile cols) cols row) [0..<length cols] = Ok (map (\<lambda>j. as_ref (vals ! j)) [0..<length cols])"
    using decode_held [OF assms] by (intro collect_results_ok) simp
  moreover have "map (\<lambda>j. as_ref (vals ! j)) [0..<length cols] = map as_ref vals"
    using is_row_length [OF assms] by (intro nth_equalityI) simp_all
  ultimately show ?thesis by (simp add: decode_def)
qed

section \<open>The encoder's rows\<close>

lemma holds_all_image:
  assumes "list_all2 fits cols vals" and "list_all text_ok vals"
    and "row = a @ fixed_bytes pos cols vals @ b @ payloads vals" and "length a = off"
    and "off + fixed_size cols + length b = pos"
  shows "holds_all row off pos cols vals"
  using assms
proof (induction cols vals arbitrary: a b off pos rule: list_all2_induct)
  case Nil
  then show ?case by simp
next
  case (Cons c cols v vals)
  let ?p = "fixed_part pos c v"
  have len: "length ?p = column_width (column_type c)"
    using Cons.hyps(1) by (rule length_fixed_part)
  have "slice off (length ?p) row = ?p"
    using Cons.prems by (simp add: slice_def)
  moreover have "slice pos (length (payload v)) row = payload v"
    using Cons.prems length_fixed_bytes [OF Cons.hyps(2)] len by (simp add: slice_def)
  moreover have "pos + length (payload v) \<le> length row"
    using Cons.prems length_fixed_bytes [OF Cons.hyps(2)] len by simp
  moreover have "holds_all row (off + column_width (column_type c)) (pos + length (payload v)) cols vals"
    using Cons.prems len by (intro Cons.IH [where a = "a @ ?p" and b = "b @ payload v"]) simp_all
  ultimately show ?case
    using Cons.hyps(1) Cons.prems(1) len by (simp add: holds_def)
qed

lemma row_image_is_row:
  assumes "list_all2 fits cols vals" and "list_all text_ok vals" and "min_size cols + length (payloads vals) \<le> MAX_ROW_SIZE"
  shows "is_row cols vals (row_image cols vals)"
proof -
  have len: "length vals = length cols" using assms(1) by (simp add: list_all2_lengthD)
  have bm: "length (mark_nulls 0 vals (empty_bitmap cols)) = fixed_start cols"
    by (simp add: empty_bitmap_def fixed_start_def)
  have "holds_all (row_image cols vals) (fixed_start cols) (min_size cols) cols vals"
    using holds_all_image [OF assms(1,2), of "row_image cols vals" "mark_nulls 0 vals (empty_bitmap cols)" "min_size cols" "[]"] bm
    by (simp add: row_image_def min_size_def)
  moreover have "nulls_match (row_image cols vals) 0 vals"
    using row_image_nulls [OF len] bitmap_covers len by (simp add: nulls_match_iff)
  moreover have "row_image cols vals ! 0 = ROW_FORMAT_VERSION"
    using bm by (simp add: row_image_def nth_append mark_nulls_hd) (simp add: empty_bitmap_def fixed_start_def)
  ultimately show ?thesis
    using assms(3) length_row_image [OF assms(1)] by (simp add: is_row_def)
qed

end
