(* ===== verification/Row_Props.thy ===== *)
theory Row_Props
  imports Row_Decode
begin

text \<open>
  The properties of rows: what the encoder accepts and what it writes, the round trip, decoding
  of arbitrary bytes, projections, and how far the encoding is canonical.
\<close>

lemma and_then_ErrE:
  assumes "and_then r f = Err e"
  obtains "r = Err e" | x where "r = Ok x" and "f x = Err e"
  using assms by (cases r) auto

section \<open>The encoder\<close>

lemma row_fault_None:
  "list_all2 fits cols vals \<Longrightarrow> pos + length (payloads vals) \<le> MAX_ROW_SIZE \<Longrightarrow> row_fault pos cols vals = None"
  by (induction arbitrary: pos rule: list_all2_induct) (auto simp: column_error_def)

text \<open>What an error of the encoder means for the values it was given.\<close>

fun error_explains :: "column_schema list \<Rightarrow> row_value list \<Rightarrow> row_error \<Rightarrow> bool" where
  "error_explains cols vals (RE_WrongValueCount expected found) \<longleftrightarrow>
     expected = length cols \<and> found = length vals \<and> found \<noteq> expected"
| "error_explains cols vals (RE_NullNotAllowed name) \<longleftrightarrow>
     (\<exists>i<length cols. name = column_name (cols ! i) \<and> vals ! i = V_Null \<and> \<not> column_nullable (cols ! i)
        \<and> (\<forall>j<i. fits (cols ! j) (vals ! j)))"
| "error_explains cols vals (RE_TypeMismatch name expected found) \<longleftrightarrow>
     (\<exists>i<length cols. name = column_name (cols ! i) \<and> expected = column_type (cols ! i)
        \<and> found = value_type_name (vals ! i) \<and> vals ! i \<noteq> V_Null \<and> \<not> of_type expected (vals ! i)
        \<and> (\<forall>j<i. fits (cols ! j) (vals ! j)))"
| "error_explains cols vals (RE_RowTooLarge n maximum) \<longleftrightarrow> maximum = MAX_ROW_SIZE \<and> maximum < n"
| "error_explains cols vals _ \<longleftrightarrow> False"

lemma error_explains_Cons:
  assumes "fits c v" and "error_explains cols vals e" and "\<And>a b. e \<noteq> RE_WrongValueCount a b"
  shows "error_explains (c # cols) (v # vals) e"
proof -
  have shift: "\<exists>i<length (c # cols). Q ((c # cols) ! i) ((v # vals) ! i) \<and> (\<forall>j<i. fits ((c # cols) ! j) ((v # vals) ! j))"
    if "\<exists>i<length cols. Q (cols ! i) (vals ! i) \<and> (\<forall>j<i. fits (cols ! j) (vals ! j))" for Q
  proof -
    obtain i where "i < length cols" "Q (cols ! i) (vals ! i)" "\<forall>j<i. fits (cols ! j) (vals ! j)"
      using \<open>\<exists>i<length cols. _ i\<close> by blast
    then show ?thesis
      using assms(1) by (intro exI [of _ "Suc i"]) (auto simp: All_less_Suc2)
  qed
  show ?thesis
  proof (cases e)
    case (RE_NullNotAllowed n)
    then show ?thesis
      using shift [of "\<lambda>c v. n = column_name c \<and> v = V_Null \<and> \<not> column_nullable c"] assms(2) by auto
  next
    case (RE_TypeMismatch n t s)
    then show ?thesis
      using shift [of "\<lambda>c v. n = column_name c \<and> t = column_type c \<and> s = value_type_name v \<and> v \<noteq> V_Null \<and> \<not> of_type t v"]
        assms(2) by auto
  qed (use assms in auto)
qed

lemma row_fault_explains:
  "length vals = length cols \<Longrightarrow> row_fault pos cols vals = Some e \<Longrightarrow>
   error_explains cols vals e \<and> (\<forall>a b. e \<noteq> RE_WrongValueCount a b)"
proof (induction vals cols arbitrary: pos rule: list_induct2)
  case (Cons v vals c cols)
  show ?case
  proof (cases "column_error pos c v")
    case None
    then show ?thesis
      using Cons error_explains_Cons [OF column_error_None [OF None]] by auto
  next
    case (Some f)
    then consider (large) n where "f = RE_RowTooLarge n MAX_ROW_SIZE" "MAX_ROW_SIZE < n"
      | (null) "f = RE_NullNotAllowed (column_name c)" "v = V_Null" "\<not> column_nullable c"
      | (type) "f = RE_TypeMismatch (column_name c) (column_type c) (value_type_name v)" "v \<noteq> V_Null" "\<not> of_type (column_type c) v"
      by (auto simp: column_error_def fits_def split: if_splits)
    moreover have "e = f" using Some Cons.prems by simp
    ultimately show ?thesis
      by cases (auto intro!: exI [of _ 0])
  qed
qed simp

text \<open>C29. The encoder accepts exactly the lists of values that fit the columns, one by one, in
  number, nullability and type, and whose row is at most the largest record of a page; it
  then writes the version, the null bitmap, the fixed parts and the payloads in column order.
  Every error it reports is true of the first offending column, and it never panics.\<close>

theorem row_encode_outcome:
  "case encode (compile cols) cols vals of
     Ok row \<Rightarrow> list_all2 fits cols vals \<and> row = row_image cols vals \<and> length row \<le> MAX_ROW_SIZE
   | Err e \<Rightarrow> \<not> (list_all2 fits cols vals \<and> min_size cols + length (payloads vals) \<le> MAX_ROW_SIZE)
       \<and> error_explains cols vals e
   | Panic \<Rightarrow> False"
proof (cases "length vals = length cols")
  case False
  then show ?thesis by (auto simp: encode_eq dest: list_all2_lengthD)
next
  case True
  show ?thesis
  proof (cases "row_fault (min_size cols) cols vals")
    case None
    note fits = row_fault_fits [OF True None]
    show ?thesis
      using True None fits length_row_image [OF fits] by (simp add: encode_eq)
  next
    case (Some e)
    then have "\<not> (list_all2 fits cols vals \<and> min_size cols + length (payloads vals) \<le> MAX_ROW_SIZE)"
      using row_fault_None [of cols vals "min_size cols"] by auto
    then show ?thesis
      using True Some row_fault_explains [OF True Some] by (simp add: encode_eq)
  qed
qed

lemma encoded_is_row:
  assumes "encode (compile cols) cols vals = Ok row" and "list_all text_ok vals"
  shows "is_row cols vals row"
proof -
  have out: "list_all2 fits cols vals" "row = row_image cols vals" "length row \<le> MAX_ROW_SIZE"
    using assms(1) by (auto simp: encode_eq split: if_splits option.splits intro: row_fault_fits)
      (metis length_row_image row_fault_fits not_le)
  then show ?thesis
    using row_image_is_row [OF out(1) assms(2)] length_row_image [OF out(1)] by simp
qed

section \<open>Round trips\<close>

text \<open>Two columns, a required text and a nullable integer, for the examples.\<close>

definition sample_columns :: "column_schema list" where
  "sample_columns =
     [\<lparr>column_name = [110], column_type = DT_Text, column_nullable = False, column_primary_key = True\<rparr>,
      \<lparr>column_name = [97], column_type = DT_Int, column_nullable = True, column_primary_key = False\<rparr>]"

definition sample_values :: "row_value list" where
  "sample_values = [V_Text [104, 105], V_Null]"

lemma sample_sizes: "length sample_columns = 2" "min_size sample_columns = 18" "bitmap_size sample_columns = 1"
  by (simp_all add: sample_columns_def min_size_def fixed_start_def bitmap_size_def)

lemma sample_row: "encode (compile sample_columns) sample_columns sample_values = Ok (row_image sample_columns sample_values)"
  and sample_text: "list_all text_ok sample_values"
proof -
  have fits: "list_all2 fits sample_columns sample_values"
    by (simp add: sample_columns_def sample_values_def fits_def)
  moreover have size: "min_size sample_columns + length (payloads sample_values) \<le> MAX_ROW_SIZE"
    by (simp add: sample_sizes) (simp add: sample_values_def)
  ultimately have "row_fault (min_size sample_columns) sample_columns sample_values = None"
    by (rule row_fault_None)
  then show "encode (compile sample_columns) sample_columns sample_values = Ok (row_image sample_columns sample_values)"
    using size list_all2_lengthD [OF fits] by (simp add: encode_eq)
  show "list_all text_ok sample_values"
    by (simp add: sample_values_def is_str_ascii)
qed

text \<open>C11. Rows survive the round trip: what the encoder wrote for values with well-formed text is
  decoded, whole, column by column or through a projection, to those values, bit by bit for
  integers and floats.\<close>

theorem row_roundtrip:
  assumes "encode (compile cols) cols vals = Ok row" and "list_all text_ok vals"
  shows "\<exists>refs. decode (compile cols) cols row = Ok refs \<and> map to_owned refs = vals
    \<and> (\<forall>i<length cols. decode_column (compile cols) cols row i = Ok (refs ! i))"
proof -
  have row: "is_row cols vals row" using encoded_is_row [OF assms] .
  have "validate_row (compile cols) cols row = Ok ()"
    using validate_row_cases row by blast
  then have "\<forall>i<length cols. decode_column (compile cols) cols row i = Ok (map as_ref vals ! i)"
    using decode_held [OF row] is_row_length [OF row] by (simp add: decode_column_def)
  moreover have "map to_owned (map as_ref vals) = vals"
    by (simp add: comp_def)
  ultimately show ?thesis
    using decode_row [OF row] by blast
qed

theorem row_roundtrip_witness:
  "\<exists>row refs. encode (compile sample_columns) sample_columns sample_values = Ok row
     \<and> decode (compile sample_columns) sample_columns row = Ok refs \<and> map to_owned refs = [V_Text [104, 105], V_Null]"
  using row_roundtrip [OF sample_row sample_text] sample_row by (auto simp: sample_values_def)

section \<open>Decoding arbitrary bytes\<close>

lemma decode_cases:
  "(\<exists>vals. is_row cols vals row \<and> decode (compile cols) cols row = Ok (map as_ref vals) \<and> validate_row (compile cols) cols row = Ok ())
   \<or> (\<exists>e. validate_row (compile cols) cols row = Err e \<and> decode (compile cols) cols row = Err e)"
proof (cases "validate_row (compile cols) cols row")
  case (Ok u)
  then obtain vals where "is_row cols vals row"
    using validate_row_cases by (metis old.unit.exhaust)
  then show ?thesis using decode_row Ok by auto
next
  case (Err e)
  then show ?thesis by (simp add: decode_def)
next
  case Panic
  then show ?thesis using validate_row_cases by blast
qed

text \<open>Validation only reports corruption.\<close>

lemma validate_column_error: "validate_column row i c l pos = Err e \<Longrightarrow> \<exists>s. e = RE_Corrupt s"
  by (cases "column_type c")
    (auto simp: validate_column_def slice_at_def is_null_def index_at_def row_read_u32_def Let_def
      elim!: and_then_ErrE split: if_splits option.splits)

lemma validate_loop_error: "validate_loop row i cls pos = Err e \<Longrightarrow> \<exists>s. e = RE_Corrupt s"
  by (induction row i cls pos rule: validate_loop.induct) (auto elim!: and_then_ErrE dest: validate_column_error)

lemma validate_error: "validate_row l cols row = Err e \<Longrightarrow> \<exists>s. e = RE_Corrupt s"
  by (auto simp: validate_row_def index_at_def elim!: and_then_ErrE dest: validate_loop_error split: if_splits)

lemma check_projection_eq:
  "check_projection n idx = (case filter (\<lambda>i. n \<le> i) idx of [] \<Rightarrow> Ok () | i # _ \<Rightarrow> Err (RE_ColumnOutOfBounds i n))"
  by (induction idx) auto

text \<open>C30. Decoding is safe on every byte string: it never panics, what it returns has one value
  per column, of the column's type, null only where the column is nullable, with text that
  is UTF-8, and it never accepts a row larger than a page holds; it refuses with a corruption
  error. A projection of any byte string names the first column that does not exist; when all
  exist, it returns the selected columns of the decoded row, in the order asked, with
  repetitions, and refuses exactly the rows decoding refuses, with the same error.\<close>

theorem decode_any_bytes:
  "(case decode (compile cols) cols row of
     Ok refs \<Rightarrow> list_all2 fits cols (map to_owned refs) \<and> list_all text_ok (map to_owned refs)
       \<and> length row \<le> MAX_ROW_SIZE
   | Err e \<Rightarrow> \<exists>s. e = RE_Corrupt s
   | Panic \<Rightarrow> False)
   \<and> project (compile cols) cols row idx =
     (case filter (\<lambda>i. length cols \<le> i) idx of
        i # _ \<Rightarrow> Err (RE_ColumnOutOfBounds i (length cols))
      | [] \<Rightarrow> (case decode (compile cols) cols row of
          Ok refs \<Rightarrow> Ok (map (\<lambda>i. refs ! i) idx) | Err e \<Rightarrow> Err e | Panic \<Rightarrow> Panic))"
  using decode_cases [of cols row]
proof (elim disjE exE conjE)
  fix vals
  assume row: "is_row cols vals row" and dec: "decode (compile cols) cols row = Ok (map as_ref vals)"
    and val: "validate_row (compile cols) cols row = Ok ()"
  have "project (compile cols) cols row idx = Ok (map (\<lambda>i. map as_ref vals ! i) idx)" if "filter (\<lambda>i. length cols \<le> i) idx = []"
  proof -
    have "\<forall>i\<in>set idx. i < length cols" using that by (auto simp: filter_empty_conv)
    then have "collect_results (decode_column_unchecked (compile cols) cols row) idx = Ok (map (\<lambda>i. map as_ref vals ! i) idx)"
      using decode_held [OF row] is_row_length [OF row] by (intro collect_results_ok) simp
    then show ?thesis using that val by (simp add: project_def check_projection_eq)
  qed
  moreover have "project (compile cols) cols row idx = Err (RE_ColumnOutOfBounds i (length cols))"
    if "filter (\<lambda>i. length cols \<le> i) idx = i # is" for i "is"
    using that by (simp add: project_def check_projection_eq)
  ultimately show ?thesis
    using dec row holds_all_fits [of row _ _ cols vals] by (auto simp: is_row_def comp_def split: list.split)
next
  fix e
  assume e: "validate_row (compile cols) cols row = Err e" "decode (compile cols) cols row = Err e"
  have "\<exists>s. e = RE_Corrupt s" using validate_error [OF e(1)] .
  then show ?thesis using e by (simp add: project_def check_projection_eq split: list.split)
qed

section \<open>Canonicity\<close>

text \<open>The bits of the bitmap that belong to no column.\<close>

definition spare_bit :: "column_schema list \<Rightarrow> nat \<Rightarrow> bool" where
  "spare_bit cols j \<longleftrightarrow> length cols \<le> j \<and> 1 + j div 8 < fixed_start cols"

lemma holds_all_bytes:
  assumes "holds_all row off pos cols vals" and "off + fixed_size cols \<le> length row"
  shows "slice off (fixed_size cols) row = fixed_bytes pos cols vals \<and> slice pos (length (payloads vals)) row = payloads vals"
  using assms
proof (induction row off pos cols vals rule: holds_all.induct)
  case (2 row off pos c cs v vs)
  have add: "slice a (m + n) row = slice a m row @ slice (a + m) n row" for a m n
    by (simp add: slice_def take_add add.commute)
  show ?case
    using 2 by (auto simp: add holds_def)
qed auto

lemma bitmap_eqI:
  assumes "length a = length b" and "a ! 0 = b ! 0" and "\<And>j. 1 + j div 8 < length b \<Longrightarrow> null_at a j = null_at b j"
  shows "a = b"
proof (rule nth_equalityI)
  fix k assume k: "k < length a"
  show "a ! k = b ! k"
  proof (cases k)
    case (Suc m)
    have "bit (a ! k) n = bit (b ! k) n" if "n < 8" for n
      using assms(3) [of "8 * m + n"] Suc k assms(1) that by (simp add: null_at_def)
    then show ?thesis by (intro bit_word_eqI) simp
  qed (use assms(2) in simp)
qed (use assms(1) in simp)

lemma null_at_take: "1 + j div 8 < n \<Longrightarrow> null_at (take n row) j = null_at row j"
  by (simp add: null_at_def)

text \<open>C31. The encoding of a row is canonical up to the spare bits of its null bitmap: any bytes that
  decode and have those bits zero are exactly what the encoder writes for the decoded values.\<close>

theorem decoded_row_canonical:
  assumes "decode (compile cols) cols row = Ok refs" and "\<forall>j. spare_bit cols j \<longrightarrow> \<not> null_at row j"
  shows "encode (compile cols) cols (map to_owned refs) = Ok row"
proof -
  obtain vals where row: "is_row cols vals row" and refs: "refs = map as_ref vals"
    using decode_cases [of cols row] assms(1) by auto
  have all: "holds_all row (fixed_start cols) (min_size cols) cols vals" and len: "length row = min_size cols + length (payloads vals)"
    and max: "length row \<le> MAX_ROW_SIZE" and hd: "row ! 0 = ROW_FORMAT_VERSION"
    using row by (simp_all add: is_row_def)
  have n: "length vals = length cols" using is_row_length [OF row] .
  have fit: "fixed_start cols + fixed_size cols \<le> length row" using len by (simp add: min_size_def)
  have "row = take (fixed_start cols) row @ slice (fixed_start cols) (fixed_size cols) row @ slice (min_size cols) (length (payloads vals)) row"
    using len by (simp add: slice_def min_size_def flip: drop_drop) (metis add.commute append_take_drop_id drop_drop)
  then have parts: "row = take (fixed_start cols) row @ fixed_bytes (min_size cols) cols vals @ payloads vals"
    using holds_all_bytes [OF all fit] by simp
  have "take (fixed_start cols) row = mark_nulls 0 vals (empty_bitmap cols)"
  proof (rule bitmap_eqI)
    show bm: "length (take (fixed_start cols) row) = length (mark_nulls 0 vals (empty_bitmap cols))"
      using fit by (simp add: empty_bitmap_def fixed_start_def)
    show "take (fixed_start cols) row ! 0 = mark_nulls 0 vals (empty_bitmap cols) ! 0"
      using hd by (simp add: mark_nulls_hd) (simp add: empty_bitmap_def fixed_start_def)
    fix j assume j: "1 + j div 8 < length (mark_nulls 0 vals (empty_bitmap cols))"
    then have j': "1 + j div 8 < fixed_start cols" by (simp add: empty_bitmap_def fixed_start_def)
    have "null_at row j \<longleftrightarrow> j < length cols \<and> vals ! j = V_Null"
      using row n assms(2) j' by (cases "j < length cols") (auto simp: is_row_def nulls_match_iff spare_bit_def)
    then show "null_at (take (fixed_start cols) row) j = null_at (mark_nulls 0 vals (empty_bitmap cols)) j"
      using row_image_nulls [OF n j'] null_at_append [OF j] null_at_take [OF j'] by (simp add: row_image_def)
  qed
  then have "row = row_image cols vals" using parts by (simp add: row_image_def)
  moreover have "row_fault (min_size cols) cols vals = None"
    using row_fault_None holds_all_fits [OF all] len max by metis
  ultimately show ?thesis
    using refs n len max by (simp add: encode_eq comp_def)
qed

lemma holds_all_cong:
  assumes "length row' = length row" and "\<And>k. s \<le> k \<Longrightarrow> row' ! k = row ! k"
  shows "s \<le> off \<Longrightarrow> s \<le> pos \<Longrightarrow> holds_all row' off pos cols vals = holds_all row off pos cols vals"
proof (induction cols arbitrary: off pos vals)
  case Nil
  show ?case by (cases vals) auto
next
  case (Cons c cs)
  have "slice a n row' = slice a n row" if "s \<le> a" for a n
    using assms that by (intro slice_eqI) auto
  then show ?case using Cons assms(1) by (cases vals) (auto simp: holds_def)
qed

text \<open>The spare bits themselves are not checked: flipping one gives a different row that decodes
  to the same values, so a row has as many encodings as its bitmap has spare bit patterns.\<close>

theorem spare_bits_ignored:
  assumes "decode (compile cols) cols row = Ok refs" and "spare_bit cols j"
  defines "k \<equiv> 1 + j div 8"
  shows "decode (compile cols) cols (row[k := row ! k XOR push_bit (j mod 8) 1]) = Ok refs
    \<and> row[k := row ! k XOR push_bit (j mod 8) 1] \<noteq> row"
proof -
  obtain vals where row: "is_row cols vals row" and refs: "refs = map as_ref vals"
    using decode_cases [of cols row] assms(1) by auto
  let ?row = "row[k := row ! k XOR push_bit (j mod 8) 1]"
  have k: "0 < k" "k < fixed_start cols" "length cols \<le> j" using assms(2) by (auto simp: spare_bit_def k_def)
  have len: "k < length row" using row k by (simp add: is_row_def min_size_def)
  have "holds_all ?row (fixed_start cols) (min_size cols) cols vals = holds_all row (fixed_start cols) (min_size cols) cols vals"
    by (rule holds_all_cong [where s = "fixed_start cols"]) (use k in \<open>auto simp: min_size_def\<close>)
  moreover have "null_at ?row i = null_at row i" if "i < length cols" for i
  proof -
    have "1 + i div 8 = k \<Longrightarrow> i mod 8 \<noteq> j mod 8"
      using that k(3) unfolding k_def by (metis add_left_cancel div_mult_mod_eq leD)
    then show ?thesis
      using len by (auto simp: null_at_def nth_list_update bit_simps)
  qed
  ultimately have "is_row cols vals ?row"
    using row k is_row_length [OF row] by (simp add: is_row_def nulls_match_iff)
  moreover have "bit (?row ! k) (j mod 8) \<noteq> bit (row ! k) (j mod 8)"
    using len by (simp add: bit_simps)
  ultimately show ?thesis
    using decode_row refs by auto
qed

theorem decoded_row_canonical_witness:
  "\<exists>refs. decode (compile sample_columns) sample_columns (row_image sample_columns sample_values) = Ok refs
     \<and> encode (compile sample_columns) sample_columns (map to_owned refs) = Ok (row_image sample_columns sample_values)"
proof -
  have row: "is_row sample_columns sample_values (row_image sample_columns sample_values)"
    using encoded_is_row [OF sample_row sample_text] .
  have "\<not> null_at (row_image sample_columns sample_values) j" if "spare_bit sample_columns j" for j
    using that row_image_nulls [OF is_row_length [OF row], of j] by (simp add: spare_bit_def)
  then show ?thesis
    using decoded_row_canonical [OF decode_row [OF row]] decode_row [OF row] by blast
qed

theorem spare_bits_ignored_witness:
  "\<exists>row row'. row \<noteq> row' \<and> decode (compile sample_columns) sample_columns row = Ok [R_Text [104, 105], R_Null]
     \<and> decode (compile sample_columns) sample_columns row' = Ok [R_Text [104, 105], R_Null]"
proof -
  have row: "is_row sample_columns sample_values (row_image sample_columns sample_values)"
    using encoded_is_row [OF sample_row sample_text] .
  have "spare_bit sample_columns 7"
    by (simp add: spare_bit_def sample_sizes fixed_start_def)
  from spare_bits_ignored [OF decode_row [OF row] this] show ?thesis
    using decode_row [OF row] by (auto simp: sample_values_def)
qed

end
