(* ===== verification/Table_Props.thy ===== *)
theory Table_Props
  imports Table Row_Props
begin

text \<open>
  The properties of schemas: what \<^verbatim>\<open>TableSchema::new\<close> accepts, the two directions of the
  schema encoding, decoding of arbitrary bytes, and the rows of a schema.
\<close>

section \<open>Well-formed schemas\<close>

definition ident_ok :: "str \<Rightarrow> bool" where
  "ident_ok s \<longleftrightarrow> s \<noteq> [] \<and> length s \<le> MAX_IDENTIFIER_BYTES \<and> chars s \<noteq> []
     \<and> (hd (chars s) = 95 \<or> ascii_alphabetic (hd (chars s)))
     \<and> (\<forall>c\<in>set (tl (chars s)). c = 95 \<or> ascii_alphanumeric c)"

lemma validate_identifier_eq:
  "validate_identifier kind s = (if ident_ok s then Ok () else Err (SE_InvalidIdentifier kind s))"
  by (auto simp: validate_identifier_def ident_ok_def split: list.split)

text \<open>Exactly one primary key, at position \<open>pk\<close>, and it is not nullable.\<close>

definition primary_key_at :: "column_schema list \<Rightarrow> nat \<Rightarrow> bool" where
  "primary_key_at cols pk \<longleftrightarrow> pk < length cols \<and> \<not> column_nullable (cols ! pk)
     \<and> (\<forall>i<length cols. column_primary_key (cols ! i) \<longleftrightarrow> i = pk)"

definition schema_wf :: "table_schema \<Rightarrow> bool" where
  "schema_wf s \<longleftrightarrow> ident_ok (schema_name s) \<and> (\<forall>c\<in>set (schema_columns s). ident_ok (column_name c))
     \<and> distinct (map column_name (schema_columns s)) \<and> length (schema_columns s) \<le> MAX_COLUMNS
     \<and> primary_key_at (schema_columns s) (primary_key_index s)
     \<and> schema_layout s = compile (schema_columns s) \<and> min_size (schema_columns s) \<le> MAX_ROW_SIZE"

lemma check_columns_ok:
  "check_columns i names pk cols = Ok found \<longleftrightarrow>
     (\<forall>c\<in>set cols. ident_ok (column_name c)) \<and> distinct (map column_name cols)
     \<and> column_name ` set cols \<inter> names = {}
     \<and> (if \<exists>c\<in>set cols. column_primary_key c
        then pk = None \<and> (\<exists>k. found = Some (i + k) \<and> primary_key_at cols k) else found = pk)"
proof (induction cols arbitrary: i names pk)
  case Nil
  then show ?case by auto
next
  case (Cons c cols)
  have shift: "primary_key_at (c # cols) k \<longleftrightarrow>
      (if column_primary_key c then k = 0 \<and> \<not> column_nullable c \<and> (\<forall>c\<in>set cols. \<not> column_primary_key c)
       else \<exists>j. k = Suc j \<and> primary_key_at cols j)" for k
    by (cases k) (auto simp: primary_key_at_def All_less_Suc2 all_set_conv_all_nth)
  show ?case
  proof (cases "ident_ok (column_name c) \<and> column_name c \<notin> names")
    case False
    then show ?thesis by (auto simp: validate_identifier_eq)
  next
    case True
    show ?thesis
    proof (cases "column_primary_key c")
      case False
      then have "check_columns i names pk (c # cols) = check_columns (i + 1) (insert (column_name c) names) pk cols"
        using True by (simp add: validate_identifier_eq)
      then show ?thesis
        using True False by (auto simp: Cons.IH shift)
    next
      case pk: True
      then have "check_columns i names pk (c # cols) = (if pk \<noteq> None then Err SE_MultiplePrimaryKeys
          else if column_nullable c then Err (SE_NullablePrimaryKey (column_name c))
          else check_columns (i + 1) (insert (column_name c) names) (Some i) cols)"
        using True by (simp add: validate_identifier_eq)
      then show ?thesis
        using True pk by (auto simp: Cons.IH shift)
    qed
  qed
qed

lemma check_columns_not_Panic: "check_columns i names pk cols \<noteq> Panic"
  by (induction cols arbitrary: i names pk) (auto simp: validate_identifier_eq and_then_Panic_iff)

lemma schema_new_Ok:
  "schema_new name cols = Ok s \<longleftrightarrow> schema_wf s \<and> schema_name s = name \<and> schema_columns s = cols"
proof -
  have "schema_new name cols = Ok s \<longleftrightarrow>
    ident_ok name \<and> cols \<noteq> [] \<and> length cols \<le> MAX_COLUMNS \<and> min_size cols \<le> MAX_ROW_SIZE
    \<and> (\<exists>pk. check_columns 0 {} None cols = Ok (Some pk)
         \<and> s = \<lparr>schema_name = name, schema_columns = cols, primary_key_index = pk, schema_layout = compile cols\<rparr>)"
    by (auto simp: schema_new_def validate_identifier_eq and_then_Ok_iff compile_eq Let_def not_less split: if_splits)
  also have "\<dots> \<longleftrightarrow> schema_wf s \<and> schema_name s = name \<and> schema_columns s = cols"
  proof -
    have pk: "check_columns 0 {} None cols = Ok (Some pk) \<longleftrightarrow>
        (\<forall>c\<in>set cols. ident_ok (column_name c)) \<and> distinct (map column_name cols) \<and> primary_key_at cols pk" for pk
      by (auto simp: check_columns_ok primary_key_at_def split: if_splits)
    show ?thesis
      unfolding pk by (cases s) (auto simp: schema_wf_def primary_key_at_def)
  qed
  finally show ?thesis .
qed

text \<open>C32. \<^verbatim>\<open>TableSchema::new\<close> accepts exactly the well-formed schemas: legal identifiers, distinct
  column names, between one and 1024 columns, exactly one primary key, not nullable and at
  the recorded index, the layout compiled from the columns, and a smallest row that fits a
  page. It never panics.\<close>

theorem schema_new_iff:
  "(schema_new name cols = Ok s \<longleftrightarrow> schema_wf s \<and> schema_name s = name \<and> schema_columns s = cols)
   \<and> schema_new name cols \<noteq> Panic"
  using schema_new_Ok check_columns_not_Panic [of 0 "{}" None cols]
  by (auto simp: schema_new_def validate_identifier_eq and_then_Panic_iff Let_def split: if_splits)

section \<open>The cursor\<close>

text \<open>A cursor that has read \<open>a\<close> and has \<open>b\<close> before it.\<close>

definition cursor_at :: "bytes \<Rightarrow> bytes \<Rightarrow> cursor" where
  "cursor_at a b = \<lparr>cursor_bytes = a @ b, cursor_position = length a\<rparr>"

lemma cursor_new_at: "cursor_new bs = cursor_at [] bs"
  by (simp add: cursor_new_def cursor_at_def)

lemma cursor_take_at:
  assumes "length a + length b < usize_limit"
  shows "cursor_take n (cursor_at a b) =
    (if n \<le> length b then (Ok (take n b), cursor_at (a @ take n b) (drop n b))
     else (Err (SE_CorruptEncoding ''truncated schema encoding''), cursor_at a b))"
  using assms by (auto simp: cursor_take_def cursor_at_def checked_add_usize_def slice_def)

text \<open>Reading what was written; every read ends at a cursor of the same bytes.\<close>

lemma cursor_take_written: "length a + length x + length b < usize_limit \<Longrightarrow> n = length x \<Longrightarrow>
  cursor_take n (cursor_at a (x @ b)) = (Ok x, cursor_at (a @ x) b)"
  by (simp add: cursor_take_at)

lemma cursor_read_u8_written: "length a + 1 + length b < usize_limit \<Longrightarrow>
  cursor_read_u8 (cursor_at a (x # b)) = (Ok x, cursor_at (a @ [x]) b)"
  by (simp add: cursor_read_u8_def act_simps cursor_take_at)

lemma from_le_pair: "length bs = 2 \<Longrightarrow> [bs ! 0, bs ! 1] = bs"
  by (auto simp: numeral_eq_Suc length_Suc_conv)

lemma cursor_read_u16_written:
  assumes "length a + 2 + length b < usize_limit"
  shows "cursor_read_u16 (cursor_at a (to_le 2 w @ b)) = (Ok w, cursor_at (a @ to_le 2 w) b)"
  using assms cursor_take_written [of a "to_le 2 w" b 2] from_le_pair [of "to_le 2 w"]
  by (simp add: cursor_read_u16_def act_simps del: from_le.simps)

definition string_bytes :: "str \<Rightarrow> bytes" where
  "string_bytes s = to_le 2 (as_u16 (length s)) @ s"

lemma cursor_read_string_written:
  assumes "length s \<le> MAX_IDENTIFIER_BYTES" and "is_str s" and "length a + length (string_bytes s) + length b < usize_limit"
  shows "cursor_read_string (cursor_at a (string_bytes s @ b)) = (Ok s, cursor_at (a @ string_bytes s) b)"
proof -
  have "cursor_read_u16 (cursor_at a (to_le 2 (as_u16 (length s)) @ (s @ b))) =
      (Ok (as_u16 (length s)), cursor_at (a @ to_le 2 (as_u16 (length s))) (s @ b))"
    using assms(3) by (intro cursor_read_u16_written) (simp add: string_bytes_def)
  moreover have "cursor_take (length s) (cursor_at (a @ to_le 2 (as_u16 (length s))) (s @ b)) =
      (Ok s, cursor_at ((a @ to_le 2 (as_u16 (length s))) @ s) b)"
    using assms(3) by (intro cursor_take_written) (simp_all add: string_bytes_def)
  ultimately show ?thesis
    using assms(1,2) by (simp add: cursor_read_string_def string_bytes_def act_simps)
qed

definition column_flags :: "column_schema \<Rightarrow> u8" where
  "column_flags c = (if column_nullable c then FLAG_NULLABLE else 0) OR (if column_primary_key c then FLAG_PRIMARY_KEY else 0)"

definition column_bytes :: "column_schema \<Rightarrow> bytes" where
  "column_bytes c = string_bytes (column_name c) @ [type_tag (column_type c), column_flags c]"

lemma write_string_eq: "write_string bs s = bs @ string_bytes s"
  by (simp add: write_string_def string_bytes_def)

lemma write_column_eq: "write_column bs c = bs @ column_bytes c"
  by (simp add: write_column_def column_bytes_def column_flags_def write_string_eq Let_def or.commute)

lemma write_columns_eq: "foldl write_column bs cols = bs @ concat (map column_bytes cols)"
  by (induction cols arbitrary: bs) (simp_all add: write_column_eq)

definition header_bytes :: "table_schema \<Rightarrow> bytes" where
  "header_bytes s = SCHEMA_MAGIC @ to_le 2 SCHEMA_FORMAT_VERSION @ to_le 2 (as_u16 (length (schema_columns s)))
     @ string_bytes (schema_name s)"

lemma schema_encode_eq: "schema_encode s = header_bytes s @ concat (map column_bytes (schema_columns s))"
  by (simp add: schema_encode_def write_columns_eq write_string_eq header_bytes_def Let_def)

lemma type_tag_roundtrip: "type_from_tag (type_tag t) = Ok t"
  by (cases t) (simp_all add: type_from_tag_def)

lemma column_flags_known: "column_flags c AND NOT KNOWN_COLUMN_FLAGS = 0"
  and column_flags_nullable: "column_flags c AND FLAG_NULLABLE \<noteq> 0 \<longleftrightarrow> column_nullable c"
  and column_flags_primary: "column_flags c AND FLAG_PRIMARY_KEY \<noteq> 0 \<longleftrightarrow> column_primary_key c"
  by (simp_all add: column_flags_def)

section \<open>Decoding what was encoded\<close>

lemma ident_ok_str: "ident_ok s \<Longrightarrow> is_str s \<and> length s \<le> MAX_IDENTIFIER_BYTES"
  by (simp add: ident_ok_def chars_is_str)

lemma decode_declaration_written:
  assumes "ident_ok (column_name c)" and "length a + length (column_bytes c) + length b < usize_limit"
  shows "decode_declaration (cursor_at a (column_bytes c @ b)) = (Ok c, cursor_at (a @ column_bytes c) b)"
proof -
  note str = ident_ok_str [OF assms(1)]
  let ?n = "string_bytes (column_name c)" and ?t = "type_tag (column_type c)" and ?f = "column_flags c"
  have "cursor_read_string (cursor_at a (?n @ (?t # ?f # b))) = (Ok (column_name c), cursor_at (a @ ?n) (?t # ?f # b))"
    using assms(2) str by (intro cursor_read_string_written) (simp_all add: column_bytes_def)
  moreover have "cursor_read_u8 (cursor_at (a @ ?n) (?t # ?f # b)) = (Ok ?t, cursor_at ((a @ ?n) @ [?t]) (?f # b))"
    using assms(2) by (intro cursor_read_u8_written) (simp add: column_bytes_def)
  moreover have "cursor_read_u8 (cursor_at ((a @ ?n) @ [?t]) (?f # b)) = (Ok ?f, cursor_at (((a @ ?n) @ [?t]) @ [?f]) b)"
    using assms(2) by (intro cursor_read_u8_written) (simp add: column_bytes_def)
  ultimately show ?thesis
    using column_flags_known [of c] column_flags_nullable [of c] column_flags_primary [of c]
    by (simp add: decode_declaration_def column_bytes_def act_simps type_tag_roundtrip)
qed

lemma decode_columns_written:
  assumes "\<forall>c\<in>set cols. ident_ok (column_name c)" and "length a + length (concat (map column_bytes cols)) + length b < usize_limit"
  shows "decode_columns (length cols) acc (cursor_at a (concat (map column_bytes cols) @ b)) =
    (Ok (acc @ cols), cursor_at (a @ concat (map column_bytes cols)) b)"
  using assms
proof (induction cols arbitrary: a acc)
  case Nil
  then show ?case by (simp add: act_simps)
next
  case (Cons c cols)
  have "decode_declaration (cursor_at a (column_bytes c @ (concat (map column_bytes cols) @ b))) =
      (Ok c, cursor_at (a @ column_bytes c) (concat (map column_bytes cols) @ b))"
    using Cons.prems by (intro decode_declaration_written) simp_all
  then show ?case
    using Cons.IH [of "a @ column_bytes c" "acc @ [c]"] Cons.prems by (simp add: act_simps)
qed

lemma length_concat_le: "(\<And>x. x \<in> set xs \<Longrightarrow> length (f x) \<le> k) \<Longrightarrow> length (concat (map f xs)) \<le> k * length xs"
  by (induction xs) (auto simp: add_mono)

lemma schema_encode_size: "schema_wf s \<Longrightarrow> length (schema_encode s) \<le> 266000"
proof -
  assume wf: "schema_wf s"
  have "length (concat (map column_bytes (schema_columns s))) \<le> 259 * length (schema_columns s)"
    using wf by (intro length_concat_le) (auto simp: schema_wf_def ident_ok_def column_bytes_def string_bytes_def)
  moreover have "length (header_bytes s) \<le> 265"
    using wf by (simp add: header_bytes_def SCHEMA_MAGIC_def string_bytes_def schema_wf_def ident_ok_def)
  ultimately show ?thesis
    using wf by (simp add: schema_encode_eq schema_wf_def)
qed

lemma schema_decode_encode:
  assumes wf: "schema_wf s"
  shows "schema_decode (schema_encode s) = Ok s"
proof -
  let ?cols = "schema_columns s" and ?n = "to_le 2 (as_u16 (length (schema_columns s)))"
  let ?cs = "concat (map column_bytes ?cols)"
  have small: "length (schema_encode s) < usize_limit" using schema_encode_size [OF wf] by simp
  have bytes: "schema_encode s = SCHEMA_MAGIC @ (to_le 2 SCHEMA_FORMAT_VERSION @ (?n @ (string_bytes (schema_name s) @ ?cs)))"
    by (simp add: schema_encode_eq header_bytes_def)
  have n: "unat (as_u16 (length ?cols)) = length ?cols" "length ?cols \<noteq> 0" "length ?cols \<le> MAX_COLUMNS"
    using wf by (auto simp: schema_wf_def primary_key_at_def)
  have name: "ident_ok (schema_name s)" "\<forall>c\<in>set ?cols. ident_ok (column_name c)" using wf by (simp_all add: schema_wf_def)
  have "cursor_take (length SCHEMA_MAGIC) (cursor_at [] (schema_encode s)) =
      (Ok SCHEMA_MAGIC, cursor_at ([] @ SCHEMA_MAGIC) (to_le 2 SCHEMA_FORMAT_VERSION @ (?n @ (string_bytes (schema_name s) @ ?cs))))"
    unfolding bytes using small by (intro cursor_take_written) (simp_all add: bytes)
  moreover have "cursor_read_u16 (cursor_at ([] @ SCHEMA_MAGIC) (to_le 2 SCHEMA_FORMAT_VERSION @ (?n @ (string_bytes (schema_name s) @ ?cs)))) =
      (Ok SCHEMA_FORMAT_VERSION, cursor_at (([] @ SCHEMA_MAGIC) @ to_le 2 SCHEMA_FORMAT_VERSION) (?n @ (string_bytes (schema_name s) @ ?cs)))"
    using small by (intro cursor_read_u16_written) (simp add: bytes)
  moreover have "cursor_read_u16 (cursor_at (([] @ SCHEMA_MAGIC) @ to_le 2 SCHEMA_FORMAT_VERSION) (?n @ (string_bytes (schema_name s) @ ?cs))) =
      (Ok (as_u16 (length ?cols)), cursor_at ((([] @ SCHEMA_MAGIC) @ to_le 2 SCHEMA_FORMAT_VERSION) @ ?n) (string_bytes (schema_name s) @ ?cs))"
    using small by (intro cursor_read_u16_written) (simp add: bytes)
  moreover have "cursor_read_string (cursor_at ((([] @ SCHEMA_MAGIC) @ to_le 2 SCHEMA_FORMAT_VERSION) @ ?n) (string_bytes (schema_name s) @ ?cs)) =
      (Ok (schema_name s), cursor_at (((([] @ SCHEMA_MAGIC) @ to_le 2 SCHEMA_FORMAT_VERSION) @ ?n) @ string_bytes (schema_name s)) (?cs @ []))"
    using small ident_ok_str [OF name(1)] cursor_read_string_written [of "schema_name s" _ ?cs] by (simp add: bytes)
  moreover have "decode_columns (length ?cols) [] (cursor_at (((([] @ SCHEMA_MAGIC) @ to_le 2 SCHEMA_FORMAT_VERSION) @ ?n) @ string_bytes (schema_name s)) (?cs @ [])) =
      (Ok ([] @ ?cols), cursor_at ((((([] @ SCHEMA_MAGIC) @ to_le 2 SCHEMA_FORMAT_VERSION) @ ?n) @ string_bytes (schema_name s)) @ ?cs) [])"
    using small by (intro decode_columns_written [OF name(2)]) (simp add: bytes)
  moreover have "schema_new (schema_name s) ?cols = Ok s"
    using schema_new_iff wf by blast
  ultimately show ?thesis
    using n by (simp add: schema_decode_def decode_schema_def decode_declarations_def cursor_new_at act_simps
        cursor_is_empty_def cursor_at_def)
qed

section \<open>Encoding what was decoded\<close>

lemma cursor_take_inv:
  assumes "cursor_take n (cursor_at a b) = (Ok x, c)"
  shows "\<exists>b'. b = x @ b' \<and> length x = n \<and> c = cursor_at (a @ x) b'"
proof -
  have "n \<le> length b \<and> x = take n b \<and> c = cursor_at (a @ take n b) (drop n b)"
    using assms by (auto simp: cursor_take_def cursor_at_def checked_add_usize_def slice_def split: if_splits option.splits)
  then show ?thesis by (intro exI [of _ "drop n b"]) simp
qed

lemma cursor_read_u8_inv:
  assumes "cursor_read_u8 (cursor_at a b) = (Ok x, c)"
  shows "\<exists>b'. b = x # b' \<and> c = cursor_at (a @ [x]) b'"
  using assms unfolding cursor_read_u8_def
  by (auto simp: query_apply length_Suc_conv elim!: bind_act_OkE dest!: cursor_take_inv)

lemma cursor_read_u16_inv:
  assumes "cursor_read_u16 (cursor_at a b) = (Ok w, c)"
  shows "\<exists>b'. b = to_le 2 w @ b' \<and> c = cursor_at (a @ to_le 2 w) b'"
proof -
  obtain x where x: "cursor_take 2 (cursor_at a b) = (Ok x, c)"
    and w: "and_then (index_at x 0) (\<lambda>a. and_then (index_at x (Suc 0)) (\<lambda>b. Ok (from_le [a, b]))) = (Ok w :: u16 schema_result)"
    using assms unfolding cursor_read_u16_def
    by (auto simp: query_apply simp del: from_le.simps elim!: bind_act_OkE)
  obtain b' where b': "b = x @ b'" "length x = 2" "c = cursor_at (a @ x) b'"
    using cursor_take_inv [OF x] by blast
  have "to_le 2 w = x"
    using w b'(2) from_le_pair [OF b'(2)] to_le_from_le [of x, where 'a = 16] by (simp del: from_le.simps)
  then show ?thesis using b' by blast
qed

lemma cursor_read_string_inv:
  assumes "cursor_read_string (cursor_at a b) = (Ok s, c)"
  shows "\<exists>b'. b = string_bytes s @ b' \<and> c = cursor_at (a @ string_bytes s) b'"
proof -
  obtain w c1 where w: "cursor_read_u16 (cursor_at a b) = (Ok w, c1)" and t: "cursor_take (unat w) c1 = (Ok s, c)"
    using assms unfolding cursor_read_string_def
    by (auto simp: ret_apply fail_apply elim!: bind_act_OkE split: if_splits)
  obtain b1 where b1: "b = to_le 2 w @ b1" "c1 = cursor_at (a @ to_le 2 w) b1"
    using cursor_read_u16_inv [OF w] by blast
  obtain b2 where b2: "b1 = s @ b2" "length s = unat w" "c = cursor_at ((a @ to_le 2 w) @ s) b2"
    using cursor_take_inv t b1(2) by blast
  have "as_u16 (length s) = w" by (simp add: b2(2) as_u16_def)
  then show ?thesis using b1(1) b2 by (simp add: string_bytes_def)
qed

lemma type_from_tag_inv: "type_from_tag tag = Ok t \<Longrightarrow> type_tag t = tag"
  by (auto simp: type_from_tag_def split: if_splits)

lemma known_flags:
  assumes "(f :: u8) AND NOT KNOWN_COLUMN_FLAGS = 0"
  shows "f = (if f AND FLAG_NULLABLE \<noteq> 0 then FLAG_NULLABLE else 0) OR (if f AND FLAG_PRIMARY_KEY \<noteq> 0 then FLAG_PRIMARY_KEY else 0)"
proof -
  have "f = take_bit 2 f"
  proof (rule bit_word_eqI)
    fix n assume n: "n < LENGTH(8)"
    have "\<not> bit (f AND NOT 3) n" using assms by simp
    then show "bit f n = bit (take_bit 2 f) n"
      using n by (cases n; cases "n - 1") (auto simp: bit_simps)
  qed
  then have "unat f < 4" by (metis take_bit_nat_less_exp unsigned_take_bit_eq power2_eq_square mult_2 numeral_Bit0 one_add_one)
  then consider "unat f = 0" | "unat f = 1" | "unat f = 2" | "unat f = 3"
    by linarith
  then have "f = 0 \<or> f = 1 \<or> f = 2 \<or> f = 3"
    by cases (simp_all add: word_unat_eq_iff)
  then show ?thesis by auto
qed

lemma decode_declaration_inv:
  assumes "decode_declaration (cursor_at a b) = (Ok d, c)"
  shows "\<exists>b'. b = column_bytes d @ b' \<and> c = cursor_at (a @ column_bytes d) b'"
proof -
  obtain name c1 tag c2 t flags where name: "cursor_read_string (cursor_at a b) = (Ok name, c1)"
    and tag: "cursor_read_u8 c1 = (Ok tag, c2)" and t: "type_from_tag tag = Ok t"
    and flags: "cursor_read_u8 c2 = (Ok flags, c)" and known: "flags AND NOT KNOWN_COLUMN_FLAGS = 0"
    and d: "d = \<lparr>column_name = name, column_type = t, column_nullable = (flags AND FLAG_NULLABLE \<noteq> 0),
               column_primary_key = (flags AND FLAG_PRIMARY_KEY \<noteq> 0)\<rparr>"
    using assms unfolding decode_declaration_def
    by (auto simp: query_apply ret_apply fail_apply elim!: bind_act_OkE split: if_splits)
  obtain b1 where b1: "b = string_bytes name @ b1" "c1 = cursor_at (a @ string_bytes name) b1"
    using cursor_read_string_inv [OF name] by blast
  obtain b2 where b2: "b1 = tag # b2" "c2 = cursor_at ((a @ string_bytes name) @ [tag]) b2"
    using cursor_read_u8_inv tag b1(2) by blast
  obtain b3 where b3: "b2 = flags # b3" "c = cursor_at (((a @ string_bytes name) @ [tag]) @ [flags]) b3"
    using cursor_read_u8_inv flags b2(2) by blast
  have "column_bytes d = string_bytes name @ [tag, flags]"
    using known_flags [OF known] type_from_tag_inv [OF t] by (simp add: d column_bytes_def column_flags_def)
  then show ?thesis
    using b1(1) b2(1) b3 by simp
qed

lemma decode_columns_inv:
  assumes "decode_columns n acc (cursor_at a b) = (Ok cols, c)"
  shows "\<exists>ds b'. cols = acc @ ds \<and> length ds = n \<and> b = concat (map column_bytes ds) @ b'
    \<and> c = cursor_at (a @ concat (map column_bytes ds)) b'"
  using assms
proof (induction n arbitrary: acc a b)
  case 0
  then show ?case by (simp add: ret_apply)
next
  case (Suc n)
  obtain d c1 where d: "decode_declaration (cursor_at a b) = (Ok d, c1)" "decode_columns n (acc @ [d]) c1 = (Ok cols, c)"
    using Suc.prems by (auto elim!: bind_act_OkE)
  obtain b1 where b1: "b = column_bytes d @ b1" "c1 = cursor_at (a @ column_bytes d) b1"
    using decode_declaration_inv [OF d(1)] by blast
  obtain ds b' where "cols = (acc @ [d]) @ ds" "length ds = n" "b1 = concat (map column_bytes ds) @ b'"
      "c = cursor_at ((a @ column_bytes d) @ concat (map column_bytes ds)) b'"
    using Suc.IH d(2) b1(2) by blast
  then show ?case
    using b1(1) by (intro exI [of _ "d # ds"] exI [of _ b']) simp
qed

lemma schema_decode_inv:
  assumes "schema_decode bs = Ok s"
  shows "schema_wf s \<and> schema_encode s = bs"
proof -
  obtain c where run: "decode_schema (cursor_at [] bs) = (Ok s, c)"
    using assms unfolding schema_decode_def cursor_new_at by (cases "decode_schema (cursor_at [] bs)") simp
  obtain c1 count c2 c3 where
      magic: "cursor_take (length SCHEMA_MAGIC) (cursor_at [] bs) = (Ok SCHEMA_MAGIC, c1)"
    and version: "cursor_read_u16 c1 = (Ok SCHEMA_FORMAT_VERSION, c2)"
    and count: "cursor_read_u16 c2 = (Ok count, c3)"
    and rest: "decode_declarations (unat count) c3 = (Ok s, c)"
    using run unfolding decode_schema_def
    by (auto simp: fail_apply Let_def elim!: bind_act_OkE split: if_splits)
  obtain name c4 cols where name: "cursor_read_string c3 = (Ok name, c4)"
    and cols: "decode_columns (unat count) [] c4 = (Ok cols, c)"
    and stop: "cursor_is_empty c" and new: "schema_new name cols = Ok s"
    using rest unfolding decode_declarations_def
    by (auto simp: query_apply fail_apply elim!: bind_act_OkE split: if_splits)
  obtain b1 where b1: "bs = SCHEMA_MAGIC @ b1" "c1 = cursor_at ([] @ SCHEMA_MAGIC) b1"
    using cursor_take_inv [OF magic] by blast
  obtain b2 where b2: "b1 = to_le 2 SCHEMA_FORMAT_VERSION @ b2" "c2 = cursor_at (([] @ SCHEMA_MAGIC) @ to_le 2 SCHEMA_FORMAT_VERSION) b2"
    using cursor_read_u16_inv version b1(2) by blast
  obtain b3 where b3: "b2 = to_le 2 count @ b3" "c3 = cursor_at ((([] @ SCHEMA_MAGIC) @ to_le 2 SCHEMA_FORMAT_VERSION) @ to_le 2 count) b3"
    using cursor_read_u16_inv count b2(2) by blast
  obtain b4 where b4: "b3 = string_bytes name @ b4"
      "c4 = cursor_at (((([] @ SCHEMA_MAGIC) @ to_le 2 SCHEMA_FORMAT_VERSION) @ to_le 2 count) @ string_bytes name) b4"
    using cursor_read_string_inv name b3(2) by blast
  obtain b5 where b5: "length cols = unat count" "b4 = concat (map column_bytes cols) @ b5"
      "c = cursor_at ((((([] @ SCHEMA_MAGIC) @ to_le 2 SCHEMA_FORMAT_VERSION) @ to_le 2 count) @ string_bytes name) @ concat (map column_bytes cols)) b5"
    using decode_columns_inv cols b4(2) by force
  have wf: "schema_wf s" "schema_name s = name" "schema_columns s = cols"
    using new schema_new_iff by blast+
  have "b5 = []"
    using stop b5(3) by (simp add: cursor_is_empty_def cursor_at_def)
  then have "schema_encode s = bs"
    using b1(1) b2(1) b3(1) b4(1) b5(1,2) wf(2,3) by (simp add: schema_encode_eq header_bytes_def as_u16_def)
  then show ?thesis using wf(1) by simp
qed

text \<open>No read of the cursor panics.\<close>

lemma cursor_take_panic [simp]: "cursor_take n c \<noteq> (Panic, c')"
  by (auto simp: cursor_take_def split: option.splits)

lemma bind_act_PanicE:
  assumes "bind_act m f s = (Panic, s')"
  obtains "m s = (Panic, s')" | x s1 where "m s = (Ok x, s1)" and "f x s1 = (Panic, s')"
  using assms by (auto simp: bind_act_def split: prod.splits result.splits)

lemma cursor_take_length: "cursor_take n c = (Ok x, c') \<Longrightarrow> length x = n"
  by (auto simp: cursor_take_def checked_add_usize_def split: option.splits if_splits)

lemma cursor_read_u8_panic [simp]: "cursor_read_u8 c \<noteq> (Panic, c')"
  by (auto simp: cursor_read_u8_def query_apply elim!: bind_act_PanicE dest!: cursor_take_length)

lemma cursor_read_u16_panic [simp]: "cursor_read_u16 c \<noteq> (Panic, c')"
  by (auto simp: cursor_read_u16_def query_apply elim!: bind_act_PanicE dest!: cursor_take_length)

lemma cursor_read_string_panic [simp]: "cursor_read_string c \<noteq> (Panic, c')"
  by (auto simp: cursor_read_string_def ret_apply fail_apply elim!: bind_act_PanicE split: if_splits)

lemma type_from_tag_panic [simp]: "type_from_tag t \<noteq> Panic"
  by (simp add: type_from_tag_def)

lemma decode_declaration_panic [simp]: "decode_declaration c \<noteq> (Panic, c')"
  by (auto simp: decode_declaration_def query_apply ret_apply fail_apply elim!: bind_act_PanicE split: if_splits)

lemma decode_columns_panic [simp]: "decode_columns n acc c \<noteq> (Panic, c')"
  by (induction n arbitrary: acc c) (auto simp: ret_apply elim!: bind_act_PanicE)

lemma schema_new_panic [simp]: "schema_new name cols \<noteq> Panic"
  using check_columns_not_Panic [of 0 "{}" None cols]
  by (auto simp: schema_new_def validate_identifier_eq and_then_Panic_iff Let_def split: if_splits)

lemma decode_declarations_panic [simp]: "decode_declarations n c \<noteq> (Panic, c')"
  by (auto simp: decode_declarations_def query_apply fail_apply elim!: bind_act_PanicE split: if_splits)

lemma decode_schema_panic [simp]: "decode_schema c \<noteq> (Panic, c')"
  by (auto simp: decode_schema_def fail_apply Let_def elim!: bind_act_PanicE split: if_splits)

lemma schema_decode_not_Panic: "schema_decode bs \<noteq> Panic"
  using decode_schema_panic [of "cursor_new bs" "snd (decode_schema (cursor_new bs))"]
  by (auto simp: schema_decode_def prod_eq_iff)

text \<open>C10. The schema encoding is exact in both directions: bytes decode to a schema exactly when the
  schema is well formed and they are its encoding, so every schema the constructor accepts
  survives the round trip, no two byte strings decode to the same schema, and whatever is
  decoded satisfies every check of the constructor. Decoding never panics.\<close>

theorem schema_codec_exact:
  "(schema_decode bs = Ok s \<longleftrightarrow> schema_wf s \<and> bs = schema_encode s) \<and> schema_decode bs \<noteq> Panic"
  using schema_decode_encode schema_decode_inv schema_decode_not_Panic by blast

section \<open>Rows of a schema\<close>

definition sample_schema :: table_schema where
  "sample_schema = \<lparr>schema_name = [116], schema_columns = sample_columns, primary_key_index = 0,
     schema_layout = compile sample_columns\<rparr>"

lemma sample_schema_wf: "schema_wf sample_schema"
proof -
  have id: "ident_ok [b]" if "97 \<le> b \<and> b < 123" for b :: u8
  proof -
    have b: "97 \<le> unat b" "unat b < 123"
      using that by (simp_all add: word_le_nat_alt word_less_nat_alt)
    have "(ucast b :: u32) \<ge> 97 \<and> (ucast b :: u32) \<le> 122"
      using b by (simp add: word_le_nat_alt unsigned_ucast_eq take_bit_nat_eq_self)
    then show ?thesis
      using that by (simp add: ident_ok_def chars_ascii word_less_nat_alt ascii_alphabetic_def)
  qed
  have ids: "ident_ok [116]" "ident_ok [110]" "ident_ok [97]"
    using id [of 116] id [of 110] id [of 97] by simp_all
  have "\<forall>i<2. column_primary_key (sample_columns ! i) \<longleftrightarrow> i = 0"
    by (auto simp: sample_columns_def less_2_cases_iff)
  then show ?thesis
    using ids by (simp add: schema_wf_def sample_schema_def primary_key_at_def sample_sizes) (simp add: sample_columns_def)
qed

lemma row_of_schema:
  assumes "schema_wf s"
  shows "encode_row s vals = encode (compile (schema_columns s)) (schema_columns s) vals"
    and "decode_row s row = decode (compile (schema_columns s)) (schema_columns s) row"
    and "primary_key_value s row = decode_column (compile (schema_columns s)) (schema_columns s) row (primary_key_index s)"
  using assms by (simp_all add: encode_row_def decode_row_def primary_key_value_def schema_wf_def)

text \<open>C33. The primary key of a stored row is never null: reading it from any bytes either fails, when
  they are not a row of the schema, or gives the value the whole row has at the key's
  position, which is not null and of the key column's type.\<close>

theorem primary_key_never_null:
  assumes "schema_wf s"
  shows "case primary_key_value s row of
      Ok v \<Rightarrow> v \<noteq> R_Null \<and> of_type (column_type (schema_columns s ! primary_key_index s)) (to_owned v)
        \<and> (\<exists>refs. decode_row s row = Ok refs \<and> refs ! primary_key_index s = v)
    | Err e \<Rightarrow> decode_row s row = Err e
    | Panic \<Rightarrow> False"
proof -
  let ?cols = "schema_columns s" and ?k = "primary_key_index s"
  have k: "?k < length ?cols" "\<not> column_nullable (?cols ! ?k)"
    using assms by (simp_all add: schema_wf_def primary_key_at_def)
  show ?thesis
    using decode_cases [of ?cols row]
  proof (elim disjE exE conjE)
    fix vals
    assume row: "is_row ?cols vals row" and dec: "decode (compile ?cols) ?cols row = Ok (map as_ref vals)"
      and val: "validate_row (compile ?cols) ?cols row = Ok ()"
    have key: "decode_column (compile ?cols) ?cols row ?k = Ok (as_ref (vals ! ?k))"
      using val k(1) decode_held [OF row k(1)] by (simp add: decode_column_def)
    have "list_all2 fits ?cols vals"
      using row holds_all_fits by (auto simp: is_row_def)
    then have "fits (?cols ! ?k) (vals ! ?k)"
      using k(1) by (rule list_all2_nthD)
    then show ?thesis
      using key dec k is_row_length [OF row] by (cases "vals ! ?k") (auto simp: row_of_schema [OF assms] fits_def)
  next
    fix e
    assume "validate_row (compile ?cols) ?cols row = Err e" "decode (compile ?cols) ?cols row = Err e"
    then show ?thesis
      using k(1) by (simp add: row_of_schema [OF assms] decode_column_def)
  qed
qed

theorem primary_key_never_null_witness:
  "\<exists>row. encode_row sample_schema sample_values = Ok row \<and> primary_key_value sample_schema row = Ok (R_Text [104, 105])"
proof -
  let ?row = "row_image sample_columns sample_values"
  have enc: "encode_row sample_schema sample_values = Ok ?row"
    using sample_row by (simp add: encode_row_def sample_schema_def)
  have "is_row sample_columns sample_values ?row"
    using encoded_is_row [OF sample_row sample_text] .
  then have "decode_row sample_schema ?row = Ok [R_Text [104, 105], R_Null]"
    using decode_row by (simp add: decode_row_def sample_schema_def) (simp add: sample_values_def)
  then have "primary_key_value sample_schema ?row = Ok (R_Text [104, 105])"
    using primary_key_never_null [OF sample_schema_wf, of ?row]
    by (auto simp: sample_schema_def split: result.splits)
  then show ?thesis using enc by blast
qed

lemma position_Some: "position f xs = Some i \<longleftrightarrow> i < length xs \<and> f (xs ! i) \<and> (\<forall>j<i. \<not> f (xs ! j))"
proof (induction xs arbitrary: i)
  case (Cons x xs)
  then show ?case by (cases i) (auto simp: All_less_Suc2)
qed simp

text \<open>Column names identify columns: in a well-formed schema looking a name up gives the one
  column that has it.\<close>

theorem column_index_unique:
  assumes "schema_wf s"
  shows "column_index s name = Some i \<longleftrightarrow> (\<exists>c. schema_column s i = Some c \<and> column_name c = name)"
proof -
  have "\<not> column_name (schema_columns s ! j) = column_name (schema_columns s ! i)" if "j < i" "i < length (schema_columns s)" for j
    using assms that nth_eq_iff_index_eq [of "map column_name (schema_columns s)" j i] by (simp add: schema_wf_def)
  then show ?thesis
    by (auto simp: column_index_def schema_column_def position_Some)
qed

theorem column_index_unique_witness: "column_index sample_schema [97] = Some 1"
  using column_index_unique [OF sample_schema_wf, of "[97]" 1]
  by (simp add: schema_column_def sample_schema_def sample_columns_def)

end
