(* ===== verification/Catalog_Codec.thy ===== *)
theory Catalog_Codec
  imports Catalog Table_Props
begin

text \<open>
  Table records: the decoder of the catalog accepts exactly the encodings of well-formed table
  metadata.
\<close>

definition metadata_wf :: "table_metadata \<Rightarrow> bool" where
  "metadata_wf md \<longleftrightarrow> schema_wf (metadata_schema md) \<and> table_id_get (metadata_id md) \<noteq> 0 \<and> heap_first_page_id md \<noteq> 0"

lemma catalog_read_u16_ok:
  assumes "off + 2 \<le> length bs"
  shows "catalog_read_u16 bs off = Ok (from_le (slice off 2 bs))"
proof -
  have "slice off 2 bs = [bs ! off, bs ! (off + 1)]"
    using assms by (intro nth_equalityI) (auto simp: length_slice nth_slice less_2_cases_iff)
  then show ?thesis
    using assms by (simp add: catalog_read_u16_def index_at_def del: from_le.simps)
qed

lemma catalog_read_u32_ok:
  assumes "off + 4 \<le> length bs"
  shows "catalog_read_u32 bs off = Ok (from_le (slice off 4 bs))"
proof -
  have "slice off 4 bs = [bs ! off, bs ! (off + 1), bs ! (off + 2), bs ! (off + 3)]"
    using assms by (intro nth_equalityI) (auto simp: length_slice nth_slice numeral_eq_Suc less_Suc_eq)
  then show ?thesis
    using assms by (simp add: catalog_read_u32_def index_at_def del: from_le.simps)
qed

lemma slice_le_u16: "off + 2 \<le> length bs \<Longrightarrow> from_le (slice off 2 bs) = (w :: u16) \<longleftrightarrow> slice off 2 bs = to_le 2 w"
  using to_le_from_le [of "slice off 2 bs", where 'a = 16] from_to_le_u16 [of w] by auto

lemma slice_le_u32: "off + 4 \<le> length bs \<Longrightarrow> from_le (slice off 4 bs) = (w :: u32) \<longleftrightarrow> slice off 4 bs = to_le 4 w"
  using to_le_from_le [of "slice off 4 bs", where 'a = 32] from_to_le_u32 [of w] by auto

text \<open>The fields of a record.\<close>

lemma record_fields:
  assumes "20 \<le> length bs"
  shows "bs = slice 0 4 bs @ slice 4 2 bs @ slice 6 2 bs @ slice 8 4 bs @ slice 12 4 bs @ slice 16 4 bs @ drop 20 bs"
proof -
  have split: "drop a bs = slice a n bs @ drop (a + n) bs" for a n
    by (metis add.commute append_take_drop_id drop_drop slice_def)
  show ?thesis
    using split [of 0 4] split [of 4 2] split [of 6 2] split [of 8 4] split [of 12 4] split [of 16 4] by simp
qed

lemma encode_fields:
  "encode_table_record md = TABLE_RECORD_MAGIC @ to_le 2 TABLE_RECORD_VERSION @ to_le 2 (0 :: u16)
     @ to_le 4 (table_id_get (metadata_id md)) @ to_le 4 (heap_first_page_id md)
     @ to_le 4 (as_u32 (length (schema_encode (metadata_schema md)))) @ schema_encode (metadata_schema md)"
  by (simp add: encode_table_record_def Let_def)

lemma encode_table_record_length [simp]:
  "length (encode_table_record md) = TABLE_RECORD_HEADER_SIZE + length (schema_encode (metadata_schema md))"
  by (simp add: encode_fields TABLE_RECORD_MAGIC_def)

lemma encode_eq_iff:
  assumes "20 \<le> length bs"
  shows "bs = encode_table_record md \<longleftrightarrow> slice 0 4 bs = TABLE_RECORD_MAGIC \<and> slice 4 2 bs = to_le 2 TABLE_RECORD_VERSION
    \<and> slice 6 2 bs = to_le 2 (0 :: u16) \<and> slice 8 4 bs = to_le 4 (table_id_get (metadata_id md))
    \<and> slice 12 4 bs = to_le 4 (heap_first_page_id md)
    \<and> slice 16 4 bs = to_le 4 (as_u32 (length (schema_encode (metadata_schema md))))
    \<and> drop 20 bs = schema_encode (metadata_schema md)"
proof -
  have "length (slice 0 4 bs) = 4" "length (slice 4 2 bs) = 2" "length (slice 6 2 bs) = 2" "length (slice 8 4 bs) = 4"
    "length (slice 12 4 bs) = 4" "length (slice 16 4 bs) = 4"
    using assms by simp_all
  moreover have "length TABLE_RECORD_MAGIC = 4" by (simp add: TABLE_RECORD_MAGIC_def)
  ultimately show ?thesis
    by (subst record_fields [OF assms]) (simp add: encode_fields)
qed

text \<open>What the decoder does with a record that is long enough.\<close>

lemma decode_table_record_eq:
  assumes "20 \<le> length bs"
  shows "decode_table_record bs =
    (if slice 0 4 bs \<noteq> TABLE_RECORD_MAGIC then Err (CE_CorruptRecord ''invalid table record magic'')
     else if slice 4 2 bs \<noteq> to_le 2 TABLE_RECORD_VERSION then Err (CE_CorruptRecord ''unsupported table record version'')
     else if slice 6 2 bs \<noteq> to_le 2 (0 :: u16) then Err (CE_CorruptRecord ''table record reserved flags are not zero'')
     else if (from_le (slice 8 4 bs) :: u32) = 0 then Err (CE_CorruptRecord ''invalid table ID'')
     else if (from_le (slice 12 4 bs) :: u32) = 0 then Err (CE_CorruptRecord ''invalid table heap root'')
     else if 20 + unat (from_le (slice 16 4 bs) :: u32) \<noteq> length bs
     then Err (CE_CorruptRecord ''table record schema length does not match record'')
     else and_then (map_err CE_Schema (schema_decode (drop 20 bs))) (\<lambda>schema.
       Ok \<lparr>metadata_id = TableId (from_le (slice 8 4 bs)), metadata_schema = schema,
           heap_first_page_id = from_le (slice 12 4 bs)\<rparr>))"
proof -
  have "(w :: u32) < 1 \<longleftrightarrow> w = 0" for w
    by (simp add: word_less_nat_alt unat_eq_zero)
  moreover have "checked_add_usize 20 (unat (w :: u32)) = Some (20 + unat w)" for w
    using unat_u32_less [of w] by (simp add: checked_add_usize_def)
  ultimately show ?thesis
    using assms by (simp add: decode_table_record_def slice_at_def catalog_read_u16_ok catalog_read_u32_ok slice_le_u16)
qed

lemma decode_encode_table_record:
  assumes "metadata_wf md"
  shows "decode_table_record (encode_table_record md) = Ok md"
proof -
  let ?bs = "encode_table_record md" and ?n = "length (schema_encode (metadata_schema md))"
  have len: "20 \<le> length ?bs" by simp
  have n: "?n < 4294967296" using assms schema_encode_size [of "metadata_schema md"] by (simp add: metadata_wf_def)
  have schema: "schema_decode (schema_encode (metadata_schema md)) = Ok (metadata_schema md)"
    using assms by (simp add: metadata_wf_def schema_decode_encode)
  note fields = encode_eq_iff [OF len, of md, simplified]
  show ?thesis
    unfolding decode_table_record_eq [OF len] using assms n schema fields
    by (simp add: metadata_wf_def)
qed

lemma decode_table_record_inv:
  assumes "decode_table_record bs = Ok md"
  shows "metadata_wf md \<and> bs = encode_table_record md"
proof -
  have len: "20 \<le> length bs"
    using assms by (simp add: decode_table_record_def split: if_splits)
  obtain schema where md: "md = \<lparr>metadata_id = TableId (from_le (slice 8 4 bs)), metadata_schema = schema,
        heap_first_page_id = from_le (slice 12 4 bs)\<rparr>"
    and schema: "schema_decode (drop 20 bs) = Ok schema"
    and f: "slice 0 4 bs = TABLE_RECORD_MAGIC" "slice 4 2 bs = to_le 2 TABLE_RECORD_VERSION" "slice 6 2 bs = to_le 2 (0 :: u16)"
      "(from_le (slice 8 4 bs) :: u32) \<noteq> 0" "(from_le (slice 12 4 bs) :: u32) \<noteq> 0"
      "20 + unat (from_le (slice 16 4 bs) :: u32) = length bs"
    using assms unfolding decode_table_record_eq [OF len] by (auto simp: and_then_Ok_iff split: if_splits)
  have s: "schema_wf schema" "schema_encode schema = drop 20 bs"
    using schema_decode_inv [OF schema] by auto
  then have "length (schema_encode schema) = unat (from_le (slice 16 4 bs) :: u32)"
    using f(6) len by simp
  then have "from_le (slice 16 4 bs) = as_u32 (length (schema_encode schema))"
    by (simp add: as_u32_def)
  then have "slice 16 4 bs = to_le 4 (as_u32 (length (schema_encode schema)))"
    using len by (simp add: slice_le_u32)
  moreover have "slice 8 4 bs = to_le 4 (from_le (slice 8 4 bs) :: u32)" "slice 12 4 bs = to_le 4 (from_le (slice 12 4 bs) :: u32)"
    using len slice_le_u32 [of 8 bs "from_le (slice 8 4 bs)"] slice_le_u32 [of 12 bs "from_le (slice 12 4 bs)"] by simp_all
  ultimately have "bs = encode_table_record md"
    unfolding encode_eq_iff [OF len] using f s md by simp
  then show ?thesis using f s md by (simp add: metadata_wf_def)
qed

lemma decode_table_record_not_Panic: "decode_table_record bs \<noteq> Panic"
proof (cases "20 \<le> length bs")
  case True
  have "map_err CE_Schema (schema_decode (drop 20 bs)) \<noteq> Panic"
    using schema_decode_not_Panic [of "drop 20 bs"] by (cases "schema_decode (drop 20 bs)") auto
  then show ?thesis
    unfolding decode_table_record_eq [OF True] by (simp add: and_then_Panic_iff)
qed (simp add: decode_table_record_def)

lemma encode_table_record_inj:
  "metadata_wf a \<Longrightarrow> metadata_wf b \<Longrightarrow> encode_table_record a = encode_table_record b \<longleftrightarrow> a = b"
  using decode_encode_table_record by (metis result.inject(1))

end
