(* ===== verification/Slotted_Layout.thy ===== *)
theory Slotted_Layout
  imports Slotted_Page
begin

text \<open>
  What a valid heap page is, as a predicate on its bytes, and the proof that
  \<open>validate\<close> accepts exactly the pages that satisfy it. The fields of the header and of
  the slot directory are read here as functions of the byte array, and every write of an
  operation is one \<open>put\<close>, so that the later proofs compute with \<open>slice\<close> and
  \<open>splice\<close> only.
\<close>

section \<open>Fields as functions of the bytes\<close>

definition sp_bytes :: "slotted_page \<Rightarrow> bytes" where
  "sp_bytes sp = page_bytes (page_ref sp)"

definition hdr :: "bytes \<Rightarrow> nat \<Rightarrow> u16" where
  "hdr bs off = from_le (slice off 2 bs)"

definition sfield :: "bytes \<Rightarrow> nat \<Rightarrow> nat \<Rightarrow> u16" where
  "sfield bs i f = from_le (slice (32 + 8 * i + f) 2 bs)"

definition nslots :: "bytes \<Rightarrow> nat" where "nslots bs = unat (hdr bs SLOT_COUNT_OFFSET)"
definition free_lo :: "bytes \<Rightarrow> nat" where "free_lo bs = unat (hdr bs FREE_START_OFFSET)"
definition free_hi :: "bytes \<Rightarrow> nat" where "free_hi bs = unat (hdr bs FREE_END_OFFSET)"
definition nlive :: "bytes \<Rightarrow> nat" where "nlive bs = unat (hdr bs LIVE_COUNT_OFFSET)"
definition rec_off :: "bytes \<Rightarrow> nat \<Rightarrow> nat" where "rec_off bs i = unat (sfield bs i SLOT_RECORD_OFFSET)"
definition rec_len :: "bytes \<Rightarrow> nat \<Rightarrow> nat" where "rec_len bs i = unat (sfield bs i SLOT_RECORD_LENGTH)"
definition slot_gen :: "bytes \<Rightarrow> nat \<Rightarrow> u16" where "slot_gen bs i = sfield bs i SLOT_GENERATION"
definition slot_flags :: "bytes \<Rightarrow> nat \<Rightarrow> u16" where "slot_flags bs i = sfield bs i SLOT_FLAGS"

definition is_live :: "bytes \<Rightarrow> nat \<Rightarrow> bool" where
  "is_live bs i \<longleftrightarrow> slot_flags bs i = SLOT_LIVE"

definition rec_bytes :: "bytes \<Rightarrow> nat \<Rightarrow> bytes" where
  "rec_bytes bs i = slice (rec_off bs i) (rec_len bs i) bs"

lemmas field_defs = nslots_def free_lo_def free_hi_def nlive_def rec_off_def rec_len_def
  slot_gen_def slot_flags_def

definition slot_ok :: "bytes \<Rightarrow> nat \<Rightarrow> bool" where
  "slot_ok bs i \<longleftrightarrow>
     (if is_live bs i
      then slot_gen bs i \<noteq> 0 \<and> free_hi bs \<le> rec_off bs i \<and> rec_off bs i + rec_len bs i \<le> PAGE_SIZE
      else (slot_flags bs i = 0 \<or> slot_flags bs i = SLOT_RETIRED) \<and> rec_off bs i = 0 \<and> rec_len bs i = 0)"

definition live_slots :: "bytes \<Rightarrow> nat list" where
  "live_slots bs = filter (is_live bs) [0..<nslots bs]"

definition range_of :: "bytes \<Rightarrow> nat \<Rightarrow> nat \<times> nat" where
  "range_of bs i = (rec_off bs i, rec_off bs i + rec_len bs i)"

definition live_ranges :: "bytes \<Rightarrow> (nat \<times> nat) list" where
  "live_ranges bs = map (range_of bs) (filter (\<lambda>i. rec_len bs i \<noteq> 0) (live_slots bs))"

definition disjoint_ranges :: "nat \<times> nat \<Rightarrow> nat \<times> nat \<Rightarrow> bool" where
  "disjoint_ranges a b \<longleftrightarrow> snd a \<le> fst b \<or> snd b \<le> fst a"

text \<open>The specification of a valid page: the page header and directory agree, every slot is
  well formed, and no two live records share a byte.\<close>

definition valid_layout :: "bytes \<Rightarrow> bool" where
  "valid_layout bs \<longleftrightarrow>
     length bs = PAGE_SIZE \<and> slice 0 4 bs = HEAP_MAGIC \<and> bs ! 4 = FORMAT_VERSION \<and> bs ! 5 = HEAP_PAGE_KIND
     \<and> free_lo bs = PAGE_HEADER_SIZE + nslots bs * SLOT_ENTRY_SIZE
     \<and> free_lo bs \<le> free_hi bs \<and> free_hi bs \<le> PAGE_SIZE
     \<and> (\<forall>i<nslots bs. slot_ok bs i)
     \<and> nlive bs = length (live_slots bs)
     \<and> sorted_wrt disjoint_ranges (live_ranges bs)"

section \<open>Reading fields through the operations\<close>

lemma header_u16_eq [act_simps]:
  "off + 2 \<le> PAGE_SIZE \<Longrightarrow> header_u16 off sp = Ok (hdr (sp_bytes sp) off)"
  by (simp add: header_u16_def read_u16_eq hdr_def sp_bytes_def)

lemma slot_u16_eq [act_simps]:
  "32 + 8 * unat slot + f + 2 \<le> PAGE_SIZE \<Longrightarrow> slot_u16 slot f sp = Ok (sfield (sp_bytes sp) (unat slot) f)"
  by (simp add: slot_u16_def slot_offset_def read_u16_eq sfield_def sp_bytes_def mult.commute)

lemma slot_count_eq [act_simps]: "slot_count sp = Ok (hdr (sp_bytes sp) SLOT_COUNT_OFFSET)"
  by (simp add: slot_count_def header_u16_eq)

lemma live_count_eq [act_simps]: "live_count sp = Ok (hdr (sp_bytes sp) LIVE_COUNT_OFFSET)"
  by (simp add: live_count_def header_u16_eq)

lemma free_start_eq [act_simps]: "free_start sp = Ok (free_lo (sp_bytes sp))"
  by (simp add: free_start_def header_u16_eq free_lo_def)

lemma free_end_eq [act_simps]: "free_end sp = Ok (free_hi (sp_bytes sp))"
  by (simp add: free_end_def header_u16_eq free_hi_def)

lemma contiguous_free_space_eq [act_simps]:
  "contiguous_free_space sp = sub_usize (free_hi (sp_bytes sp)) (free_lo (sp_bytes sp))"
  by (simp add: contiguous_free_space_def act_simps)

lemma slot_range_hdr [act_simps]: "slot_range (hdr bs SLOT_COUNT_OFFSET) = map of_nat [0..<nslots bs]"
  by (simp add: slot_range_def nslots_def)

lemma unat_slot [simp]: "i < 65536 \<Longrightarrow> unat (of_nat i :: u16) = i"
  by (rule unat_of_nat_u16)

section \<open>Writes\<close>

definition writable :: "slotted_page \<Rightarrow> bool" where
  "writable sp \<longleftrightarrow> (case backing sp of Shared _ \<Rightarrow> False | _ \<Rightarrow> True)"

definition put :: "nat \<Rightarrow> bytes \<Rightarrow> slotted_page \<Rightarrow> slotted_page" where
  "put off src sp =
     (let upd = (\<lambda>p. p\<lparr>page_bytes := splice off src (page_bytes p), page_dirty := True\<rparr>)
      in case backing sp of
        Owned p \<Rightarrow> sp\<lparr>backing := Owned (upd p)\<rparr>
      | Borrowed p \<Rightarrow> sp\<lparr>backing := Borrowed (upd p)\<rparr>
      | Shared p \<Rightarrow> sp\<lparr>backing := Shared (upd p)\<rparr>)"

lemma put_fields [simp]:
  "sp_bytes (put off src sp) = splice off src (sp_bytes sp)"
  "writable (put off src sp) = writable sp"
  "sp_page_id (put off src sp) = sp_page_id sp"
  "page_dirty (page_ref (put off src sp))"
  by (auto simp: put_def sp_bytes_def page_ref_def writable_def sp_page_id_def Let_def
      split: page_backing.splits)

lemma page_mut_write [act_simps]:
  "page_mut (page_write off src) sp =
     (if \<not> writable sp then (Err SP_ReadOnly, sp)
      else if off + length src \<le> PAGE_SIZE then (Ok (), put off src sp)
      else (Err (SP_Page (OutOfBounds off (length src))), sp))"
  by (cases sp; cases "backing sp") (auto simp: page_mut_def page_write_eq put_def writable_def)

lemma page_mut_write_u16 [act_simps]:
  "page_mut (write_u16 off v) sp =
     (if \<not> writable sp then (Err SP_ReadOnly, sp)
      else if off + 2 \<le> PAGE_SIZE then (Ok (), put off (to_le 2 v) sp)
      else (Err (SP_Page (OutOfBounds off 2)), sp))"
  by (simp add: write_u16_def page_mut_write)

lemma page_mut_write_u32 [act_simps]:
  "page_mut (write_u32 off v) sp =
     (if \<not> writable sp then (Err SP_ReadOnly, sp)
      else if off + 4 \<le> PAGE_SIZE then (Ok (), put off (to_le 4 v) sp)
      else (Err (SP_Page (OutOfBounds off 4)), sp))"
  by (simp add: write_u32_def page_mut_write)

text \<open>Fields of spliced bytes: a field is the value just written to it, or unchanged.\<close>

lemma hdr_splice_same [frame_simps]:
  "off + 2 \<le> length bs \<Longrightarrow> hdr (splice off (to_le 2 v) bs) off = v"
  by (simp add: hdr_def)

lemma hdr_splice_other [frame_simps]:
  "o' + 2 \<le> off \<or> off + length src \<le> o' \<Longrightarrow> hdr (splice off src bs) o' = hdr bs o'"
  by (simp add: hdr_def slice_splice_disjoint)

lemma sfield_splice_same [frame_simps]:
  "off = 32 + 8 * i + f \<Longrightarrow> off + 2 \<le> length bs \<Longrightarrow> sfield (splice off (to_le 2 v) bs) i f = v"
  by (simp add: sfield_def)

lemma sfield_splice_other [frame_simps]:
  "32 + 8 * i + f + 2 \<le> off \<or> off + length src \<le> 32 + 8 * i + f \<Longrightarrow>
   sfield (splice off src bs) i f = sfield bs i f"
  by (simp add: sfield_def slice_splice_disjoint)

section \<open>Overlap check\<close>

lemma sorted_wrt_perm:
  assumes sym: "\<And>x y. R x y \<Longrightarrow> R y x" and "mset xs = mset ys"
  shows "sorted_wrt R xs \<longleftrightarrow> sorted_wrt R ys"
  using assms(2)
proof (induction xs arbitrary: ys)
  case Nil
  then show ?case by simp
next
  case (Cons x xs)
  then obtain as bs where ys: "ys = as @ x # bs" and m: "mset xs = mset (as @ bs)"
    by (metis add_mset_remove_trivial insert_DiffM mset.simps(2) mset_append set_mset_mset split_list
        union_mset_add_mset_right union_single_eq_member)
  have "set xs = set as \<union> set bs"
    using m by (metis set_append set_mset_mset)
  moreover have "sorted_wrt R xs \<longleftrightarrow> sorted_wrt R (as @ bs)"
    using m by (rule Cons.IH)
  ultimately show ?case
    using sym by (auto simp: ys sorted_wrt_append)
qed

lemma windows_overlap_sorted:
  assumes "sorted (map fst rs)" and "\<And>r. r \<in> set rs \<Longrightarrow> fst r < snd r"
  shows "\<not> windows_overlap rs \<longleftrightarrow> sorted_wrt disjoint_ranges rs"
  using assms
proof (induction rs rule: windows_overlap.induct)
  case (1 a b rest)
  then have IH: "\<not> windows_overlap (b # rest) \<longleftrightarrow> sorted_wrt disjoint_ranges (b # rest)"
    by simp
  have "fst a \<le> fst b" "fst b < snd b" "\<And>c. c \<in> set rest \<Longrightarrow> fst b \<le> fst c"
    using "1.prems" by auto
  then have "snd a \<le> fst b \<longleftrightarrow> (\<forall>c \<in> set (b # rest). disjoint_ranges a c)"
    by (fastforce simp: disjoint_ranges_def)
  with IH show ?case by auto
qed auto

lemma windows_overlap_sort_key:
  assumes "\<And>r. r \<in> set rs \<Longrightarrow> fst r < snd r"
  shows "\<not> windows_overlap (sort_key fst rs) \<longleftrightarrow> sorted_wrt disjoint_ranges rs"
proof -
  have "\<not> windows_overlap (sort_key fst rs) \<longleftrightarrow> sorted_wrt disjoint_ranges (sort_key fst rs)"
    using assms by (intro windows_overlap_sorted) auto
  also have "\<dots> \<longleftrightarrow> sorted_wrt disjoint_ranges rs"
    by (rule sorted_wrt_perm) (auto simp: disjoint_ranges_def)
  finally show ?thesis .
qed

lemma sorted_wrt_map_filter_upt:
  "sorted_wrt R (map f (filter P [0..<n])) \<longleftrightarrow> (\<forall>j<n. \<forall>i<j. P i \<longrightarrow> P j \<longrightarrow> R (f i) (f j))"
  by (induction n) (auto simp: sorted_wrt_append less_Suc_eq)

section \<open>Validation\<close>

lemma validate_slot_run:
  assumes "i < 1020" and "unat obs + 1 < 65536"
  shows "validate_slot sp (of_nat i) (obs, rs) =
    (let bs = sp_bytes sp in
     if is_live bs i then
       if slot_gen bs i = 0 then Err (SP_Corrupt ''live slot has generation zero'')
       else if PAGE_SIZE < rec_off bs i + rec_len bs i then Err (SP_Corrupt ''record exceeds page boundary'')
       else if rec_off bs i < free_hi bs then Err (SP_Corrupt ''record begins inside free space'')
       else Ok (obs + 1, rs @ (if rec_len bs i \<noteq> 0 then [range_of bs i] else []))
     else if slot_flags bs i = 0 \<or> slot_flags bs i = SLOT_RETIRED then
       if rec_off bs i \<noteq> 0 \<or> rec_len bs i \<noteq> 0
       then Err (SP_Corrupt ''non-live slot references record data'') else Ok (obs, rs)
     else Err (SP_Corrupt ''invalid slot flags''))"
proof -
  let ?bs = "sp_bytes sp"
  have "rec_off ?bs i < 65536" "rec_len ?bs i < 65536"
    by (simp_all add: rec_off_def rec_len_def unat_u16_less)
  moreover have "slot_u16 (of_nat i) f sp = Ok (sfield ?bs i f)" if "f \<le> 6" for f
    using assms that by (simp add: slot_u16_eq)
  ultimately show ?thesis
    using assms by (simp add: validate_slot_def free_end_eq Let_def check_def is_live_def rec_off_def
        rec_len_def slot_gen_def slot_flags_def range_of_def checked_add_usize_def checked_add_word_def)
qed

lemma validate_slot_eq:
  assumes "i < 1020" and "unat obs + 1 < 65536"
  shows "slot_ok (sp_bytes sp) i \<Longrightarrow>
      validate_slot sp (of_nat i) (obs, rs) =
        Ok (if is_live (sp_bytes sp) i then obs + 1 else obs,
            rs @ (if is_live (sp_bytes sp) i \<and> rec_len (sp_bytes sp) i \<noteq> 0
                  then [range_of (sp_bytes sp) i] else []))"
    and "\<not> slot_ok (sp_bytes sp) i \<Longrightarrow>
      \<exists>e. validate_slot sp (of_nat i) (obs, rs) = Err (SP_Corrupt e)"
  unfolding validate_slot_run [OF assms] slot_ok_def
  by (auto simp: Let_def split: if_splits)

definition ranges_of :: "bytes \<Rightarrow> nat list \<Rightarrow> (nat \<times> nat) list" where
  "ranges_of bs is = map (range_of bs) (filter (\<lambda>i. rec_len bs i \<noteq> 0) (filter (is_live bs) is))"

lemma ranges_of_Cons:
  "ranges_of bs (i # is) =
     (if is_live bs i \<and> rec_len bs i \<noteq> 0 then [range_of bs i] else []) @ ranges_of bs is"
  by (simp add: ranges_of_def)

lemma validate_slots_ok:
  assumes "\<And>i. i \<in> set is \<Longrightarrow> i < 1020 \<and> slot_ok (sp_bytes sp) i" and "unat obs + length is < 65536"
  shows "validate_slots sp (map of_nat is) (obs, rs) =
    Ok (obs + of_nat (length (filter (is_live (sp_bytes sp)) is)), rs @ ranges_of (sp_bytes sp) is)"
  using assms
proof (induction "is" arbitrary: obs rs)
  case Nil
  then show ?case by (simp add: ranges_of_def)
next
  case (Cons i "is")
  let ?obs = "if is_live (sp_bytes sp) i then obs + 1 else obs"
  have "unat ?obs + length is < 65536"
    using Cons.prems(2) by (auto simp: unat_plus_one)
  moreover have "i < 1020" "slot_ok (sp_bytes sp) i" "unat obs + 1 < 65536"
    using Cons.prems by auto
  ultimately show ?case
    using Cons.IH [of ?obs] Cons.prems(1)
    by (simp add: validate_slot_eq(1) ranges_of_Cons)
qed

lemma validate_slots_err:
  assumes "\<And>i. i \<in> set is \<Longrightarrow> i < 1020" and "unat obs + length is < 65536"
    and "\<exists>i\<in>set is. \<not> slot_ok (sp_bytes sp) i"
  shows "\<exists>e. validate_slots sp (map of_nat is) (obs, rs) = Err (SP_Corrupt e)"
  using assms
proof (induction "is" arbitrary: obs rs)
  case Nil
  then show ?case by simp
next
  case (Cons i "is")
  let ?obs = "if is_live (sp_bytes sp) i then obs + 1 else obs"
  have obs: "unat ?obs + length is < 65536" "unat obs + 1 < 65536" and i: "i < 1020"
    using Cons.prems by (auto simp: unat_plus_one)
  show ?case
  proof (cases "slot_ok (sp_bytes sp) i")
    case True
    then show ?thesis
      using Cons.IH [of ?obs] Cons.prems obs by (auto simp: validate_slot_eq(1) [OF i])
  next
    case False
    then show ?thesis
      using validate_slot_eq(2) [OF i obs(2) False, of rs] by auto
  qed
qed

lemma layout_lo_bound: "free_lo bs \<le> PAGE_SIZE \<Longrightarrow> free_lo bs = 32 + nslots bs * 8 \<Longrightarrow> nslots bs \<le> 1020"
  by simp

lemma slice_1: "off < length bs \<Longrightarrow> slice off 1 bs = [bs ! off]"
  by (simp add: slice_def Cons_nth_drop_Suc [symmetric])

lemma validate_slots_layout:
  assumes "nslots (sp_bytes sp) \<le> 1020"
  shows "(\<forall>i<nslots (sp_bytes sp). slot_ok (sp_bytes sp) i) \<Longrightarrow>
      validate_slots sp (map of_nat [0..<nslots (sp_bytes sp)]) (0, []) =
        Ok (of_nat (length (live_slots (sp_bytes sp))), live_ranges (sp_bytes sp))"
    and "\<not> (\<forall>i<nslots (sp_bytes sp). slot_ok (sp_bytes sp) i) \<Longrightarrow>
      \<exists>e. validate_slots sp (map of_nat [0..<nslots (sp_bytes sp)]) (0, []) = Err (SP_Corrupt e)"
proof -
  let ?is = "[0..<nslots (sp_bytes sp)]"
  {
    assume "\<forall>i<nslots (sp_bytes sp). slot_ok (sp_bytes sp) i"
    then show "validate_slots sp (map of_nat ?is) (0, []) =
        Ok (of_nat (length (live_slots (sp_bytes sp))), live_ranges (sp_bytes sp))"
      using assms by (subst validate_slots_ok) (auto simp: live_slots_def live_ranges_def ranges_of_def)
  next
    assume "\<not> (\<forall>i<nslots (sp_bytes sp). slot_ok (sp_bytes sp) i)"
    then show "\<exists>e. validate_slots sp (map of_nat ?is) (0, []) = Err (SP_Corrupt e)"
      using assms by (intro validate_slots_err) auto
  }
qed

lemma live_ranges_nonempty: "r \<in> set (live_ranges bs) \<Longrightarrow> fst r < snd r"
  by (auto simp: live_ranges_def range_of_def)

lemma length_live_slots: "length (live_slots bs) \<le> nslots bs"
  using length_filter_le [of "is_live bs" "[0..<nslots bs]"] by (simp add: live_slots_def)

lemma live_count_check:
  assumes "nslots bs \<le> 1020"
  shows "of_nat (length (live_slots bs)) = hdr bs LIVE_COUNT_OFFSET \<longleftrightarrow> nlive bs = length (live_slots bs)"
proof -
  have small: "length (live_slots bs) < 65536"
    using length_live_slots [of bs] assms by simp
  then show ?thesis
    unfolding nlive_def using unat_of_nat_u16 [OF small] by (metis of_nat_unat ucast_id)
qed

text \<open>What \<open>validate\<close> returns on any page of the right size: \<open>Ok\<close> exactly on the valid
  layouts, a corruption error on all others, and never a panic.\<close>

lemma validate_cases:
  assumes "length (sp_bytes sp) = PAGE_SIZE"
  shows "if valid_layout (sp_bytes sp) then validate sp = Ok () else (\<exists>e. validate sp = Err (SP_Corrupt e))"
proof -
  let ?bs = "sp_bytes sp"
  have small: "nslots ?bs < 65536"
    unfolding nslots_def by (rule unat_u16_less)
  have magic: "slice 0 4 (page_bytes (page_ref sp)) = slice 0 4 ?bs"
    by (simp add: sp_bytes_def)
  have bytes: "slice 4 (Suc 0) (page_bytes (page_ref sp)) = [?bs ! 4]"
      "slice 5 (Suc 0) (page_bytes (page_ref sp)) = [?bs ! 5]"
    using assms slice_1 [of 4 ?bs] slice_1 [of 5 ?bs] by (simp_all add: sp_bytes_def)
  show ?thesis
  proof (cases "free_lo ?bs = 32 + nslots ?bs * 8 \<and> free_lo ?bs \<le> PAGE_SIZE")
    case False
    then show ?thesis
      using small by (auto simp: validate_def page_read_eq magic bytes check_def act_simps
          checked_mul_usize_def checked_add_usize_def valid_layout_def nslots_def)
  next
    case True
    then have n: "nslots ?bs \<le> 1020" by simp
    show ?thesis
    proof (cases "\<forall>i<nslots ?bs. slot_ok ?bs i")
      case False
      then show ?thesis
        using validate_slots_layout(2) [OF n False] small True
        by (auto simp: validate_def page_read_eq magic bytes check_def act_simps
            checked_mul_usize_def checked_add_usize_def valid_layout_def nslots_def)
    next
      case slots: True
      have ov: "windows_overlap (sort_key fst (live_ranges ?bs)) \<longleftrightarrow> \<not> sorted_wrt disjoint_ranges (live_ranges ?bs)"
        using windows_overlap_sort_key [of "live_ranges ?bs"] live_ranges_nonempty by blast
      show ?thesis
        using validate_slots_layout(1) [OF n slots] small True slots assms live_count_check [OF n] ov
        by (auto simp: validate_def page_read_eq magic bytes check_def act_simps
            checked_mul_usize_def checked_add_usize_def valid_layout_def nslots_def)
    qed
  qed
qed

end
