(* ===== verification/Slotted_Spec.thy ===== *)
theory Slotted_Spec
  imports Slotted_Layout
begin

text \<open>
  What a heap page promises: a list of slots, each live with a generation and a record,
  reusable with the generation its next occupant gets, or retired. \<open>slots_of\<close> reads the
  list off the bytes of a page; the read-only operations of the code are shown here to
  compute the specification's answer from it.
\<close>

section \<open>The abstract page\<close>

datatype slot_view = Live u16 bytes | Reusable u16 | Retired u16

fun slot_payload :: "slot_view \<Rightarrow> nat" where
  "slot_payload (Live g rec) = length rec"
| "slot_payload (Reusable g) = 0"
| "slot_payload (Retired g) = 0"

fun is_reusable :: "slot_view \<Rightarrow> bool" where
  "is_reusable (Reusable g) = True"
| "is_reusable (Live g rec) = False"
| "is_reusable (Retired g) = False"

fun view_gen :: "slot_view \<Rightarrow> u16" where
  "view_gen (Live g rec) = g"
| "view_gen (Reusable g) = g"
| "view_gen (Retired g) = g"

fun view_live :: "slot_view \<Rightarrow> bool" where
  "view_live (Live g rec) = True"
| "view_live (Reusable g) = False"
| "view_live (Retired g) = False"

definition spec_get :: "nat \<Rightarrow> u16 \<Rightarrow> slot_view list \<Rightarrow> bytes option" where
  "spec_get i g xs =
     (if i < length xs then (case xs ! i of Live g' rec \<Rightarrow> if g' = g then Some rec else None | _ \<Rightarrow> None)
      else None)"

definition spec_first_reusable :: "slot_view list \<Rightarrow> nat option" where
  "spec_first_reusable xs = find (\<lambda>i. is_reusable (xs ! i)) [0..<length xs]"

text \<open>Bytes of the page that no header, slot entry or live record uses.\<close>

definition spec_free :: "slot_view list \<Rightarrow> nat" where
  "spec_free xs = PAGE_SIZE - (PAGE_HEADER_SIZE + length xs * SLOT_ENTRY_SIZE) - sum_list (map slot_payload xs)"

text \<open>Insertion takes the first reusable slot with the generation it holds, or appends a
  slot with generation 1.\<close>

definition spec_insert :: "bytes \<Rightarrow> slot_view list \<Rightarrow> nat \<times> u16 \<times> slot_view list" where
  "spec_insert rec xs =
     (case spec_first_reusable xs of
        Some i \<Rightarrow> (i, view_gen (xs ! i), xs[i := Live (view_gen (xs ! i)) rec])
      | None \<Rightarrow> (length xs, 1, xs @ [Live 1 rec]))"

text \<open>Deletion makes the slot reusable with the next generation, and retires it when there is
  no next generation.\<close>

definition spec_delete :: "nat \<Rightarrow> u16 \<Rightarrow> slot_view list \<Rightarrow> slot_view list" where
  "spec_delete i g xs = xs[i := if g = - 1 then Retired g else Reusable (g + 1)]"

section \<open>The abstraction\<close>

definition slot_at :: "bytes \<Rightarrow> nat \<Rightarrow> slot_view" where
  "slot_at bs i =
     (if is_live bs i then Live (slot_gen bs i) (rec_bytes bs i)
      else if slot_flags bs i = 0 then Reusable (slot_gen bs i) else Retired (slot_gen bs i))"

definition slots_of :: "bytes \<Rightarrow> slot_view list" where
  "slots_of bs = map (slot_at bs) [0..<nslots bs]"

definition page_slots :: "slotted_page \<Rightarrow> slot_view list" where
  "page_slots sp = slots_of (sp_bytes sp)"

text \<open>The page's link and the header bytes no slot operation touches.\<close>

definition header_frame :: "bytes \<Rightarrow> bytes \<times> bytes" where
  "header_frame bs = (slice 0 8 bs, slice 16 16 bs)"

text \<open>
  The invariant of the operations is a valid layout in which, in addition, no reusable
  slot waits with generation zero, which \<open>validate\<close> does not check.
\<close>

definition wf_layout :: "bytes \<Rightarrow> bool" where
  "wf_layout bs \<longleftrightarrow> valid_layout bs \<and> Reusable 0 \<notin> set (slots_of bs)"

definition wf_page :: "slotted_page \<Rightarrow> bool" where
  "wf_page sp \<longleftrightarrow> wf_layout (sp_bytes sp)"

lemma length_slots_of [simp]: "length (slots_of bs) = nslots bs"
  by (simp add: slots_of_def)

lemma nth_slots_of [simp]: "i < nslots bs \<Longrightarrow> slots_of bs ! i = slot_at bs i"
  by (simp add: slots_of_def)

lemma slots_of_eqI:
  "nslots bs = length xs \<Longrightarrow> (\<And>i. i < length xs \<Longrightarrow> slot_at bs i = xs ! i) \<Longrightarrow> slots_of bs = xs"
  by (rule nth_equalityI) auto

lemma slot_at_simps [simp]:
  "is_reusable (slot_at bs i) \<longleftrightarrow> slot_flags bs i = 0"
  "view_live (slot_at bs i) \<longleftrightarrow> is_live bs i"
  "view_gen (slot_at bs i) = slot_gen bs i"
  by (auto simp: slot_at_def is_live_def)

lemma wf_layout_iff:
  "wf_layout bs \<longleftrightarrow> valid_layout bs \<and> (\<forall>i<nslots bs. slot_flags bs i = 0 \<longrightarrow> slot_gen bs i \<noteq> 0)"
proof -
  have "Reusable 0 = slot_at bs i \<longleftrightarrow> slot_flags bs i = 0 \<and> slot_gen bs i = 0" for i
    by (auto simp: slot_at_def is_live_def)
  then show ?thesis
    by (auto simp: wf_layout_def slots_of_def image_iff)
qed

section \<open>Consequences of a valid layout\<close>

lemma layoutD:
  assumes "valid_layout bs"
  shows "length bs = PAGE_SIZE" "nslots bs \<le> 1020" "free_lo bs = 32 + 8 * nslots bs"
    "free_lo bs \<le> free_hi bs" "free_hi bs \<le> PAGE_SIZE" "nlive bs = length (live_slots bs)"
    "i < nslots bs \<Longrightarrow> slot_ok bs i"
  using assms by (auto simp: valid_layout_def)

definition live_set :: "bytes \<Rightarrow> nat set" where
  "live_set bs = {i. i < nslots bs \<and> is_live bs i}"

lemma finite_live_set [simp]: "finite (live_set bs)"
  by (simp add: live_set_def)

lemma set_live_slots: "set (live_slots bs) = live_set bs"
  by (auto simp: live_slots_def live_set_def)

lemma length_live_slots_card: "length (live_slots bs) = card (live_set bs)"
proof -
  have "distinct (live_slots bs)"
    by (simp add: live_slots_def)
  then show ?thesis
    by (metis distinct_card set_live_slots)
qed

lemma live_in_page:
  assumes "valid_layout bs" and "i \<in> live_set bs"
  shows "slot_gen bs i \<noteq> 0" "free_hi bs \<le> rec_off bs i" "rec_off bs i + rec_len bs i \<le> PAGE_SIZE"
    "length (rec_bytes bs i) = rec_len bs i"
  using assms layoutD(1) [OF assms(1)] layoutD(7) [OF assms(1), of i]
  by (auto simp: live_set_def slot_ok_def rec_bytes_def)

lemma ranges_disjoint_iff:
  "sorted_wrt disjoint_ranges (live_ranges bs) \<longleftrightarrow>
     (\<forall>i\<in>live_set bs. \<forall>j\<in>live_set bs. i \<noteq> j \<longrightarrow> rec_len bs i \<noteq> 0 \<longrightarrow> rec_len bs j \<noteq> 0 \<longrightarrow>
        disjoint_ranges (range_of bs i) (range_of bs j))" (is "?L \<longleftrightarrow> ?R")
proof -
  have sym: "disjoint_ranges a b = disjoint_ranges b a" for a b
    by (auto simp: disjoint_ranges_def)
  have "?L \<longleftrightarrow> (\<forall>j<nslots bs. \<forall>i<j. is_live bs i \<and> rec_len bs i \<noteq> 0 \<longrightarrow>
      is_live bs j \<and> rec_len bs j \<noteq> 0 \<longrightarrow> disjoint_ranges (range_of bs i) (range_of bs j))"
    by (simp only: live_ranges_def live_slots_def filter_filter sorted_wrt_map_filter_upt)
  also have "\<dots> \<longleftrightarrow> ?R" (is "?M \<longleftrightarrow> _")
  proof
    assume M: ?M
    show ?R
    proof (intro ballI impI)
      fix i j
      assume "i \<in> live_set bs" "j \<in> live_set bs" "i \<noteq> j" "rec_len bs i \<noteq> 0" "rec_len bs j \<noteq> 0"
      then have "i < j \<Longrightarrow> disjoint_ranges (range_of bs i) (range_of bs j)"
        and "j < i \<Longrightarrow> disjoint_ranges (range_of bs j) (range_of bs i)"
        using M by (auto simp: live_set_def)
      then show "disjoint_ranges (range_of bs i) (range_of bs j)"
        using \<open>i \<noteq> j\<close> sym by (metis linorder_neqE_nat)
    qed
  next
    assume ?R
    then show ?M by (auto simp: live_set_def)
  qed
  finally show ?thesis .
qed

lemma valid_layout_iff:
  "valid_layout bs \<longleftrightarrow>
     length bs = PAGE_SIZE \<and> slice 0 4 bs = HEAP_MAGIC \<and> bs ! 4 = FORMAT_VERSION \<and> bs ! 5 = HEAP_PAGE_KIND
     \<and> free_lo bs = PAGE_HEADER_SIZE + nslots bs * SLOT_ENTRY_SIZE
     \<and> free_lo bs \<le> free_hi bs \<and> free_hi bs \<le> PAGE_SIZE
     \<and> (\<forall>i<nslots bs. slot_ok bs i)
     \<and> nlive bs = card (live_set bs)
     \<and> (\<forall>i\<in>live_set bs. \<forall>j\<in>live_set bs. i \<noteq> j \<longrightarrow> rec_len bs i \<noteq> 0 \<longrightarrow> rec_len bs j \<noteq> 0 \<longrightarrow>
          disjoint_ranges (range_of bs i) (range_of bs j))"
  unfolding valid_layout_def ranges_disjoint_iff length_live_slots_card by (rule refl)

definition live_bytes :: "bytes \<Rightarrow> nat" where
  "live_bytes bs = (\<Sum>i\<in>live_set bs. rec_len bs i)"

text \<open>The live records fit between the end of free space and the end of the page, because
  they are disjoint.\<close>

lemma live_bytes_bound:
  assumes valid: "valid_layout bs"
  shows "live_bytes bs \<le> PAGE_SIZE - free_hi bs"
proof -
  let ?r = "\<lambda>i. {rec_off bs i ..< rec_off bs i + rec_len bs i}"
  have "?r i \<inter> ?r j = {}" if "i \<in> live_set bs" "j \<in> live_set bs" "i \<noteq> j" for i j
  proof (cases "rec_len bs i = 0 \<or> rec_len bs j = 0")
    case False
    then have "disjoint_ranges (range_of bs i) (range_of bs j)"
      using valid that by (auto simp: valid_layout_iff)
    then show ?thesis by (auto simp: disjoint_ranges_def range_of_def)
  qed auto
  then have "card (\<Union>i\<in>live_set bs. ?r i) = live_bytes bs"
    unfolding live_bytes_def by (subst card_UN_disjoint) auto
  moreover have "(\<Union>i\<in>live_set bs. ?r i) \<subseteq> {free_hi bs ..< PAGE_SIZE}"
    using live_in_page(2,3) [OF valid] by fastforce
  then have "card (\<Union>i\<in>live_set bs. ?r i) \<le> card {free_hi bs ..< PAGE_SIZE}"
    by (rule card_mono [rotated]) simp
  ultimately show ?thesis by simp
qed

lemma sum_live_upt:
  "(\<Sum>i\<in>live_set bs. f i) = (\<Sum>i<nslots bs. if is_live bs i then f i else (0::nat))"
  unfolding live_set_def by (simp add: sum.If_cases Int_def lessThan_def)

lemma live_bytes_payload:
  assumes "valid_layout bs"
  shows "sum_list (map slot_payload (slots_of bs)) = live_bytes bs"
proof -
  have "slot_payload (slot_at bs i) = (if is_live bs i then rec_len bs i else 0)" if "i < nslots bs" for i
    using live_in_page(4) [OF assms, of i] that by (auto simp: slot_at_def live_set_def)
  then have "map slot_payload (slots_of bs) = map (\<lambda>i. if is_live bs i then rec_len bs i else 0) [0..<nslots bs]"
    by (auto simp: slots_of_def)
  then show ?thesis
    by (simp add: live_bytes_def sum_live_upt lessThan_atLeast0 interv_sum_list_conv_sum_set_nat)
qed

lemma spec_free_eq:
  assumes "valid_layout bs"
  shows "spec_free (slots_of bs) = PAGE_SIZE - free_lo bs - live_bytes bs"
    and "free_lo bs + live_bytes bs + spec_free (slots_of bs) = PAGE_SIZE"
    and "free_hi bs - free_lo bs \<le> spec_free (slots_of bs)"
  using live_bytes_bound [OF assms] layoutD [OF assms]
  by (auto simp: spec_free_def live_bytes_payload [OF assms])

section \<open>The read-only operations\<close>

lemma slot_u16_nat [act_simps]:
  "i < 1020 \<Longrightarrow> f \<le> 6 \<Longrightarrow> slot_u16 (of_nat i) f sp = Ok (sfield (sp_bytes sp) i f)"
  by (simp add: slot_u16_eq)

lemma validate_rid_eq:
  assumes valid: "valid_layout (sp_bytes sp)"
  shows "validate_rid r sp =
    (if rid_page r = sp_page_id sp
        \<and> spec_get (unat (rid_slot r)) (rid_generation r) (page_slots sp) \<noteq> None
     then Ok () else Err (SP_InvalidRid r))"
proof (cases "unat (rid_slot r) < nslots (sp_bytes sp)")
  case True
  then have "unat (rid_slot r) < 1020"
    using layoutD(2) [OF valid] by simp
  then show ?thesis
    using True by (auto simp: validate_rid_def act_simps page_slots_def spec_get_def slot_at_def is_live_def
        slot_gen_def slot_flags_def nslots_def word_le_nat_alt)
next
  case False
  then show ?thesis
    by (simp add: validate_rid_def act_simps page_slots_def spec_get_def nslots_def word_le_nat_alt)
qed

lemma spec_get_slots:
  assumes "valid_layout bs"
  shows "spec_get i g (slots_of bs) =
    (if i \<in> live_set bs \<and> slot_gen bs i = g then Some (rec_bytes bs i) else None)"
  by (auto simp: spec_get_def slot_at_def live_set_def)

lemma sp_get_eq:
  assumes valid: "valid_layout (sp_bytes sp)"
  shows "sp_get r sp =
    (case (if rid_page r = sp_page_id sp
           then spec_get (unat (rid_slot r)) (rid_generation r) (page_slots sp) else None)
     of Some rec \<Rightarrow> Ok rec | None \<Rightarrow> Err (SP_InvalidRid r))"
proof (cases "rid_page r = sp_page_id sp \<and> unat (rid_slot r) \<in> live_set (sp_bytes sp)
    \<and> slot_gen (sp_bytes sp) (unat (rid_slot r)) = rid_generation r")
  case True
  then have slot: "unat (rid_slot r) \<in> live_set (sp_bytes sp)" by simp
  then have "unat (rid_slot r) < 1020"
    using layoutD(2) [OF valid] by (simp add: live_set_def)
  moreover have "page_read (rec_off (sp_bytes sp) i) (rec_len (sp_bytes sp) i) (page_ref sp)
      = Ok (rec_bytes (sp_bytes sp) i)" if "i \<in> live_set (sp_bytes sp)" for i
    using live_in_page(3) [OF valid that] by (simp add: page_read_eq rec_bytes_def sp_bytes_def)
  ultimately show ?thesis
    using True
    by (simp add: sp_get_def validate_rid_eq [OF valid] page_slots_def spec_get_slots [OF valid]
        act_simps rec_off_def rec_len_def)
next
  case False
  then show ?thesis
    by (auto simp: sp_get_def validate_rid_eq [OF valid] page_slots_def spec_get_slots [OF valid]
        split: option.splits)
qed

lemma find_reusable_in_eq:
  assumes "\<And>i. i \<in> set is \<Longrightarrow> i < 1020"
  shows "find_reusable_in sp (map of_nat is) =
    Ok (map_option of_nat (find (\<lambda>i. slot_flags (sp_bytes sp) i = 0) is))"
  using assms by (induction "is") (auto simp: act_simps slot_flags_def)

lemma find_reusable_slot_eq [act_simps]:
  assumes "nslots (sp_bytes sp) \<le> 1020"
  shows "find_reusable_slot sp = Ok (map_option of_nat (spec_first_reusable (page_slots sp)))"
proof -
  have "find (\<lambda>i. slot_flags (sp_bytes sp) i = 0) [0..<nslots (sp_bytes sp)] =
      find (\<lambda>i. is_reusable (page_slots sp ! i)) [0..<nslots (sp_bytes sp)]"
    by (rule find_cong) (auto simp: page_slots_def)
  moreover have "find_reusable_in sp (map of_nat [0..<nslots (sp_bytes sp)]) =
      Ok (map_option of_nat (find (\<lambda>i. slot_flags (sp_bytes sp) i = 0) [0..<nslots (sp_bytes sp)]))"
    using assms by (intro find_reusable_in_eq) auto
  ultimately show ?thesis
    by (simp add: find_reusable_slot_def act_simps spec_first_reusable_def page_slots_def)
qed

lemma first_reusable_Some:
  "spec_first_reusable (slots_of bs) = Some i \<Longrightarrow> i < nslots bs \<and> slot_flags bs i = 0"
  by (auto simp: spec_first_reusable_def find_Some_iff)

lemma first_reusable_None:
  "spec_first_reusable (slots_of bs) = None \<Longrightarrow> i < nslots bs \<Longrightarrow> slot_flags bs i \<noteq> 0"
  by (auto simp: spec_first_reusable_def find_None_iff)

lemma sum_live_lengths_eq:
  assumes "\<And>i. i \<in> set is \<Longrightarrow> i < 1020" and "acc + 65536 * length is < usize_limit"
  shows "sum_live_lengths sp (map of_nat is) acc =
    Ok (acc + sum_list (map (\<lambda>i. if is_live (sp_bytes sp) i then rec_len (sp_bytes sp) i else 0) is))"
  using assms
proof (induction "is" arbitrary: acc)
  case (Cons i "is")
  have "rec_len (sp_bytes sp) i < 65536"
    by (simp add: rec_len_def unat_u16_less)
  then show ?case
    using Cons.prems Cons.IH [of "acc + rec_len (sp_bytes sp) i"] Cons.IH [of acc]
    by (auto simp: act_simps is_live_def slot_flags_def rec_len_def checked_add_usize_def)
qed simp

lemma sum_live_lengths_layout [act_simps]:
  assumes "nslots (sp_bytes sp) \<le> 1020"
  shows "sum_live_lengths sp (map of_nat [0..<nslots (sp_bytes sp)]) 0 = Ok (live_bytes (sp_bytes sp))"
  using assms by (subst sum_live_lengths_eq)
    (auto simp: live_bytes_def sum_live_upt interv_sum_list_conv_sum_set_nat lessThan_atLeast0)

lemma free_space_after_compaction_eq:
  assumes valid: "valid_layout (sp_bytes sp)"
  shows "free_space_after_compaction growth sp =
    (if growth \<le> spec_free (page_slots sp) then Ok (spec_free (page_slots sp) - growth)
     else Err (SP_Corrupt ''page metadata and live records exceed page size''))"
  using layoutD [OF valid] live_bytes_bound [OF valid]
  by (auto simp: free_space_after_compaction_def act_simps checked_sub_usize_def page_slots_def
      spec_free_eq(1) [OF valid])

lemma live_rids_of_eq:
  assumes "\<And>i. i \<in> set is \<Longrightarrow> i < 1020"
  shows "live_rids_of sp (map of_nat is) =
    Ok (map (\<lambda>i. rid_new (sp_page_id sp) (of_nat i) (slot_gen (sp_bytes sp) i))
         (filter (is_live (sp_bytes sp)) is))"
  using assms by (induction "is") (auto simp: act_simps is_live_def slot_flags_def slot_gen_def)

lemma live_rids_eq:
  assumes "nslots (sp_bytes sp) \<le> 1020"
  shows "live_rids sp =
    Ok (map (\<lambda>i. rid_new (sp_page_id sp) (of_nat i) (slot_gen (sp_bytes sp) i)) (live_slots (sp_bytes sp)))"
proof -
  have "live_rids_of sp (map of_nat [0..<nslots (sp_bytes sp)]) =
      Ok (map (\<lambda>i. rid_new (sp_page_id sp) (of_nat i) (slot_gen (sp_bytes sp) i)) (live_slots (sp_bytes sp)))"
    using assms unfolding live_slots_def by (intro live_rids_of_eq) auto
  then show ?thesis
    by (simp add: live_rids_def act_simps)
qed

end
