(* ===== verification/Slotted_Update.thy ===== *)
theory Slotted_Update
  imports Slotted_Spec
begin

text \<open>
  How the fields of a page change under the two kinds of write the operations are made of,
  a whole slot entry and one header word, and the operations that need no more than that:
  initialization, linking and deletion.
\<close>

section \<open>Two kinds of write\<close>

definition upd_slot :: "nat \<Rightarrow> u16 \<Rightarrow> u16 \<Rightarrow> u16 \<Rightarrow> u16 \<Rightarrow> bytes \<Rightarrow> bytes" where
  "upd_slot i ro rl g f bs =
     splice (32 + 8 * i + 6) (to_le 2 f) (splice (32 + 8 * i + 4) (to_le 2 g)
       (splice (32 + 8 * i + 2) (to_le 2 rl) (splice (32 + 8 * i + 0) (to_le 2 ro) bs)))"

definition upd_header :: "nat \<Rightarrow> u16 \<Rightarrow> bytes \<Rightarrow> bytes" where
  "upd_header off v bs = splice off (to_le 2 v) bs"

definition upd_record :: "nat \<Rightarrow> bytes \<Rightarrow> bytes \<Rightarrow> bytes" where
  "upd_record off rec bs = splice off rec bs"

abbreviation (input) header_word :: "nat \<Rightarrow> bool" where
  "header_word off \<equiv> off = 8 \<or> off = 10 \<or> off = 12 \<or> off = 14"

abbreviation (input) slot_word :: "nat \<Rightarrow> bool" where
  "slot_word f \<equiv> f = 0 \<or> f = 2 \<or> f = 4 \<or> f = 6"

lemma length_upd [simp]:
  "length (upd_slot i ro rl g f bs) = length bs"
  "length (upd_header off v bs) = length bs"
  "length (upd_record off rec bs) = length bs"
  by (simp_all add: upd_slot_def upd_header_def upd_record_def)

lemma hdr_upd_slot [frame_simps]: "off + 2 \<le> 32 \<Longrightarrow> hdr (upd_slot i ro rl g f bs) off = hdr bs off"
  by (simp add: upd_slot_def frame_simps)

lemma hdr_upd_header [frame_simps]:
  "header_word off \<Longrightarrow> header_word off' \<Longrightarrow> length bs = PAGE_SIZE \<Longrightarrow>
   hdr (upd_header off v bs) off' = (if off' = off then v else hdr bs off')"
  by (auto simp: upd_header_def frame_simps)

lemma hdr_upd_record [frame_simps]: "32 \<le> o' \<Longrightarrow> off + 2 \<le> 32 \<Longrightarrow> hdr (upd_record o' rec bs) off = hdr bs off"
  by (simp add: upd_record_def frame_simps)

lemma sfield_upd_slot_same [frame_simps]:
  assumes "32 + 8 * i + 8 \<le> length bs"
  shows "sfield (upd_slot i ro rl g f bs) i 0 = ro" "sfield (upd_slot i ro rl g f bs) i 2 = rl"
    "sfield (upd_slot i ro rl g f bs) i 4 = g" "sfield (upd_slot i ro rl g f bs) i 6 = f"
  using assms by (simp_all add: upd_slot_def frame_simps)

lemma sfield_upd_slot_other [frame_simps]:
  assumes "j \<noteq> i" and "slot_word k"
  shows "sfield (upd_slot i ro rl g f bs) j k = sfield bs j k"
proof -
  have "j < i \<or> i < j" using assms(1) by arith
  then show ?thesis
  proof
    assume "j < i"
    then show ?thesis
      using assms(2) by (auto simp: upd_slot_def frame_simps)
  next
    assume "i < j"
    then show ?thesis
      using assms(2) by (auto simp: upd_slot_def frame_simps)
  qed
qed

lemma sfield_upd_header [frame_simps]: "header_word off \<Longrightarrow> sfield (upd_header off v bs) j k = sfield bs j k"
  by (auto simp: upd_header_def frame_simps)

lemma sfield_upd_record [frame_simps]:
  "32 + 8 * j + k + 2 \<le> off \<Longrightarrow> sfield (upd_record off rec bs) j k = sfield bs j k"
  by (simp add: upd_record_def frame_simps)

lemma slice_upd [frame_simps]:
  "32 + 8 * i + 8 \<le> off \<Longrightarrow> slice off n (upd_slot i ro rl g f bs) = slice off n bs"
  "header_word w \<Longrightarrow> 32 \<le> off \<Longrightarrow> slice off n (upd_header w v bs) = slice off n bs"
  "off + n \<le> o' \<or> o' + length rec \<le> off \<Longrightarrow> slice off n (upd_record o' rec bs) = slice off n bs"
  by (auto simp: upd_slot_def upd_header_def upd_record_def frame_simps)

lemma header_frame_upd [simp]:
  "header_frame (upd_slot i ro rl g f bs) = header_frame bs"
  "header_word w \<Longrightarrow> header_frame (upd_header w v bs) = header_frame bs"
  "32 \<le> off \<Longrightarrow> header_frame (upd_record off rec bs) = header_frame bs"
  by (auto simp: header_frame_def upd_slot_def upd_header_def upd_record_def frame_simps)

text \<open>What a valid layout needs of the first bytes is part of the header frame.\<close>

definition header_ok :: "bytes \<Rightarrow> bool" where
  "header_ok bs \<longleftrightarrow> slice 0 4 bs = HEAP_MAGIC \<and> bs ! 4 = FORMAT_VERSION \<and> bs ! 5 = HEAP_PAGE_KIND"

lemma header_ok_frame:
  assumes "header_frame bs' = header_frame bs" and "length bs' = PAGE_SIZE" and "length bs = PAGE_SIZE"
  shows "header_ok bs' = header_ok bs"
proof -
  have eq: "slice 0 8 bs' = slice 0 8 bs"
    using assms(1) by (simp add: header_frame_def)
  have "slice 0 4 bs' = slice 0 4 bs"
    using arg_cong [OF eq, of "slice 0 4"] by (simp add: slice_slice)
  moreover have "bs' ! i = bs ! i" if "i < 8" for i
    using arg_cong [OF eq, of "\<lambda>xs. xs ! i"] that assms by (simp add: nth_slice)
  ultimately show ?thesis by (simp add: header_ok_def)
qed

lemma valid_layoutI:
  assumes "length bs = PAGE_SIZE" "header_ok bs" "free_lo bs = 32 + 8 * nslots bs"
    "free_lo bs \<le> free_hi bs" "free_hi bs \<le> PAGE_SIZE"
    "\<And>i. i < nslots bs \<Longrightarrow> slot_ok bs i" "nlive bs = card (live_set bs)"
    "\<And>i j. i \<in> live_set bs \<Longrightarrow> j \<in> live_set bs \<Longrightarrow> i < j \<Longrightarrow> rec_len bs i \<noteq> 0 \<Longrightarrow> rec_len bs j \<noteq> 0 \<Longrightarrow>
       disjoint_ranges (range_of bs i) (range_of bs j)"
  shows "valid_layout bs"
proof -
  have "disjoint_ranges (range_of bs i) (range_of bs j)"
    if "i \<in> live_set bs" "j \<in> live_set bs" "i \<noteq> j" "rec_len bs i \<noteq> 0" "rec_len bs j \<noteq> 0" for i j
  proof (cases "i < j")
    case True
    then show ?thesis using assms(8) that by blast
  next
    case False
    then have "disjoint_ranges (range_of bs j) (range_of bs i)"
      using assms(8) [of j i] that by simp
    then show ?thesis by (auto simp: disjoint_ranges_def)
  qed
  then show ?thesis
    using assms(1-7) unfolding valid_layout_iff header_ok_def by simp
qed

lemma valid_layout_header_ok: "valid_layout bs \<Longrightarrow> header_ok bs"
  by (simp add: valid_layout_def header_ok_def)

lemma valid_disjoint:
  "valid_layout bs \<Longrightarrow> i \<in> live_set bs \<Longrightarrow> j \<in> live_set bs \<Longrightarrow> i \<noteq> j \<Longrightarrow> rec_len bs i \<noteq> 0 \<Longrightarrow>
   rec_len bs j \<noteq> 0 \<Longrightarrow> disjoint_ranges (range_of bs i) (range_of bs j)"
  by (simp add: valid_layout_iff)

section \<open>Runs of writes\<close>

lemma write_slot_u16_eq [act_simps]:
  "write_slot_u16 slot f v sp =
     (if \<not> writable sp then (Err SP_ReadOnly, sp)
      else if 32 + 8 * unat slot + f + 2 \<le> PAGE_SIZE then (Ok (), put (32 + 8 * unat slot + f) (to_le 2 v) sp)
      else (Err (SP_Page (OutOfBounds (32 + 8 * unat slot + f) 2)), sp))"
  by (simp add: write_slot_u16_def slot_offset_def page_mut_write_u16 mult.commute)

lemma write_header_u16_eq [act_simps]:
  "off + 2 \<le> PAGE_SIZE \<Longrightarrow> write_header_u16 off v sp =
     (if writable sp then (Ok (), put off (to_le 2 v) sp) else (Err SP_ReadOnly, sp))"
  by (simp add: write_header_u16_def page_mut_write_u16)

text \<open>The state after a list of writes, without naming each of them.\<close>

definition sp_update :: "bytes \<Rightarrow> slotted_page \<Rightarrow> slotted_page" where
  "sp_update bs sp =
     (let upd = (\<lambda>p. p\<lparr>page_bytes := bs, page_dirty := True\<rparr>)
      in case backing sp of
        Owned p \<Rightarrow> sp\<lparr>backing := Owned (upd p)\<rparr>
      | Borrowed p \<Rightarrow> sp\<lparr>backing := Borrowed (upd p)\<rparr>
      | Shared p \<Rightarrow> sp\<lparr>backing := Shared (upd p)\<rparr>)"

lemma put_sp_update: "put off src sp = sp_update (splice off src (sp_bytes sp)) sp"
  by (cases sp; cases "backing sp") (auto simp: put_def sp_update_def sp_bytes_def page_ref_def)

lemma sp_update_fields [simp]:
  "sp_bytes (sp_update bs sp) = bs"
  "writable (sp_update bs sp) = writable sp"
  "sp_page_id (sp_update bs sp) = sp_page_id sp"
  "sp_update bs' (sp_update bs sp) = sp_update bs' sp"
  by (auto simp: sp_update_def sp_bytes_def page_ref_def writable_def sp_page_id_def Let_def
      split: page_backing.splits)

section \<open>Initialization\<close>

definition empty_layout :: bytes where
  "empty_layout =
     splice 28 (to_le 4 (0 :: u32)) (splice 20 (replicate 8 0) (splice 16 (to_le 4 INVALID_PAGE_ID)
    (upd_header 14 0 (upd_header 12 8192 (upd_header 10 32 (upd_header 8 0
    (splice 6 (to_le 2 (0 :: u16)) (splice 5 [1] (splice 4 [1] (splice 0 HEAP_MAGIC
    (replicate PAGE_SIZE 0)))))))))))"

lemma initialize_page_eq:
  assumes "page_sized p"
  shows "initialize_page p = (Ok (), p\<lparr>page_bytes := empty_layout, page_dirty := True\<rparr>)"
  using assms
  by (simp add: initialize_page_def act_simps page_write_eq write_u16_def write_u32_def page_sized_def
      splice_whole empty_layout_def upd_header_def as_u16_def)

lemma empty_layout_fields:
  "length empty_layout = PAGE_SIZE" "hdr empty_layout 8 = 0" "hdr empty_layout 10 = 32"
  "hdr empty_layout 12 = 8192" "hdr empty_layout 14 = 0" "header_ok empty_layout"
  "slice 16 4 empty_layout = to_le 4 INVALID_PAGE_ID"
  by (simp_all add: empty_layout_def header_ok_def frame_simps upd_header_def nth_splice)

lemma empty_layout_slots: "nslots empty_layout = 0" "slots_of empty_layout = []"
  by (simp_all add: nslots_def empty_layout_fields slots_of_def)

lemma valid_empty_layout: "valid_layout empty_layout"
  by (rule valid_layoutI)
    (auto simp: empty_layout_fields field_defs live_set_def)

lemma wf_empty_layout: "wf_layout empty_layout"
  by (simp add: wf_layout_def valid_empty_layout empty_layout_slots)

lemma slotted_initialize_eq:
  "page_sized p \<Longrightarrow> slotted_initialize p = Ok \<lparr>backing = Borrowed (p\<lparr>page_bytes := empty_layout, page_dirty := True\<rparr>)\<rparr>"
  by (simp add: slotted_initialize_def initialize_page_eq)

section \<open>Links\<close>

definition link_raw :: "bytes \<Rightarrow> u32" where
  "link_raw bs = from_le (slice 16 4 bs)"

lemma next_page_id_eq:
  "next_page_id sp = Ok (if link_raw (sp_bytes sp) \<noteq> INVALID_PAGE_ID then Some (link_raw (sp_bytes sp)) else None)"
  by (simp add: next_page_id_def read_u32_eq link_raw_def sp_bytes_def)

lemma link_raw_frame:
  assumes "header_frame bs' = header_frame bs"
  shows "link_raw bs' = link_raw bs"
proof -
  have "slice 16 16 bs' = slice 16 16 bs"
    using assms by (simp add: header_frame_def)
  from arg_cong [OF this, of "slice 0 4"] show ?thesis
    by (simp add: link_raw_def slice_slice)
qed

lemma next_page_id_frame:
  "header_frame (sp_bytes sp') = header_frame (sp_bytes sp) \<Longrightarrow> next_page_id sp' = next_page_id sp"
  by (simp add: next_page_id_eq link_raw_frame [of "sp_bytes sp'" "sp_bytes sp"])

lemma layout_cong_header:
  assumes "valid_layout bs" "length bs' = PAGE_SIZE" "header_ok bs'"
    and "\<And>off n. off + n \<le> 16 \<Longrightarrow> 8 \<le> off \<Longrightarrow> slice off n bs' = slice off n bs"
    and "\<And>off n. 32 \<le> off \<Longrightarrow> slice off n bs' = slice off n bs"
  shows "valid_layout bs'" and "slots_of bs' = slots_of bs"
proof -
  have f: "hdr bs' 8 = hdr bs 8" "hdr bs' 10 = hdr bs 10" "hdr bs' 12 = hdr bs 12" "hdr bs' 14 = hdr bs 14"
    "\<And>i k. sfield bs' i k = sfield bs i k"
    by (simp_all add: hdr_def sfield_def assms(4,5))
  then have g: "nslots bs' = nslots bs" "free_lo bs' = free_lo bs" "free_hi bs' = free_hi bs" "nlive bs' = nlive bs"
    "rec_off bs' = rec_off bs" "rec_len bs' = rec_len bs" "slot_gen bs' = slot_gen bs" "slot_flags bs' = slot_flags bs"
    by (auto simp: field_defs)
  then have h: "is_live bs' = is_live bs" "range_of bs' = range_of bs" "live_set bs' = live_set bs"
    "slot_ok bs' = slot_ok bs"
    by (auto simp: is_live_def fun_eq_iff range_of_def live_set_def slot_ok_def)
  show "valid_layout bs'"
    using assms(1,2,3) unfolding valid_layout_iff header_ok_def by (simp add: g h)
  have "rec_bytes bs' i = rec_bytes bs i" if "i \<in> live_set bs" for i
    using live_in_page(2) [OF assms(1) that] layoutD(3,4) [OF assms(1)] assms(5)
    by (simp add: rec_bytes_def g)
  then show "slots_of bs' = slots_of bs"
    by (auto simp: slots_of_def slot_at_def g h live_set_def)
qed

lemma set_next_page_id_eq:
  assumes "writable sp"
  shows "set_next_page_id n sp =
    (Ok (), put 16 (to_le 4 (case n of None \<Rightarrow> INVALID_PAGE_ID | Some p \<Rightarrow> p)) sp)"
  using assms by (simp add: set_next_page_id_def page_mut_write_u32)

lemma set_next_page_id_layout:
  assumes valid: "valid_layout (sp_bytes sp)" and w: "writable sp"
  shows "\<exists>sp'. set_next_page_id n sp = (Ok (), sp') \<and> valid_layout (sp_bytes sp')
     \<and> page_slots sp' = page_slots sp \<and> next_page_id sp' = Ok (if n = Some INVALID_PAGE_ID then None else n)
     \<and> sp_page_id sp' = sp_page_id sp \<and> writable sp'"
proof -
  let ?raw = "case n of None \<Rightarrow> INVALID_PAGE_ID | Some p \<Rightarrow> p"
  let ?bs' = "splice 16 (to_le 4 ?raw) (sp_bytes sp)"
  have len: "length (sp_bytes sp) = PAGE_SIZE" "header_ok (sp_bytes sp)"
    using valid layoutD(1) valid_layout_header_ok by blast+
  have hok: "header_ok ?bs'"
    using len by (simp add: header_ok_def frame_simps nth_splice)
  have link: "link_raw ?bs' = ?raw"
    using len by (simp add: link_raw_def)
  have layout: "valid_layout ?bs'" "slots_of ?bs' = slots_of (sp_bytes sp)"
    using layout_cong_header [OF valid _ hok] len by (simp_all add: frame_simps)
  have "next_page_id (put 16 (to_le 4 ?raw) sp) = Ok (if n = Some INVALID_PAGE_ID then None else n)"
    using link by (cases n) (simp_all add: next_page_id_eq)
  then show ?thesis
    using layout w by (simp add: set_next_page_id_eq page_slots_def)
qed

section \<open>Deletion\<close>

lemma unat_pred: "0 < unat w \<Longrightarrow> unat (w - 1 :: 'a::len word) = unat w - 1"
  by (metis less_irrefl unat_eq_zero unat_minus_one)

definition delete_bytes :: "nat \<Rightarrow> u16 \<Rightarrow> u16 \<Rightarrow> bytes \<Rightarrow> bytes" where
  "delete_bytes i g f bs = upd_header 14 (hdr bs 14 - 1) (upd_slot i 0 0 g f bs)"

lemma delete_bytes_layout:
  assumes valid: "valid_layout bs" and i: "i \<in> live_set bs" and f: "f = 0 \<or> f = SLOT_RETIRED"
  shows "valid_layout (delete_bytes i g f bs)"
    and "slots_of (delete_bytes i g f bs) = (slots_of bs)[i := if f = 0 then Reusable g else Retired g]"
proof -
  let ?bs = "delete_bytes i g f bs"
  note L = layoutD [OF valid]
  have i1: "i < nslots bs" "i < 1020" "32 + 8 * i + 8 \<le> free_hi bs"
    using i L by (auto simp: live_set_def)
  have pos: "0 < nlive bs"
    using i L(6) by (auto simp: length_live_slots_card card_gt_0_iff)
  have h: "nslots ?bs = nslots bs" "free_lo ?bs = free_lo bs" "free_hi ?bs = free_hi bs"
    "nlive ?bs = nlive bs - 1"
    using L(1) pos by (simp_all add: delete_bytes_def field_defs frame_simps unat_pred)
  have s: "sfield ?bs j k = (if j = i then (if k = 4 then g else if k = 6 then f else 0) else sfield bs j k)"
    if "k = 0 \<or> k = 2 \<or> k = 4 \<or> k = 6" for j k
    using that i1 L by (auto simp: delete_bytes_def frame_simps)
  have r: "rec_off ?bs j = (if j = i then 0 else rec_off bs j)" "rec_len ?bs j = (if j = i then 0 else rec_len bs j)"
    "slot_gen ?bs j = (if j = i then g else slot_gen bs j)" "slot_flags ?bs j = (if j = i then f else slot_flags bs j)" for j
    by (simp_all add: rec_off_def rec_len_def slot_gen_def slot_flags_def s)
  have live: "is_live ?bs j \<longleftrightarrow> j \<noteq> i \<and> is_live bs j" for j
    using f by (auto simp: is_live_def r)
  then have ls: "live_set ?bs = live_set bs - {i}"
    by (auto simp: live_set_def h)
  have ok: "slot_ok ?bs j" if "j < nslots bs" for j
    using L(7) [OF that] f by (cases "j = i") (auto simp: slot_ok_def live r h)
  show "valid_layout ?bs"
  proof (rule valid_layoutI)
    show "header_ok ?bs"
      using valid_layout_header_ok [OF valid] L(1)
      by (subst header_ok_frame [of _ bs]) (simp_all add: delete_bytes_def)
    show "nlive ?bs = card (live_set ?bs)"
      using i L(6) by (simp add: h ls length_live_slots_card)
    show "disjoint_ranges (range_of ?bs j) (range_of ?bs k)"
      if "j \<in> live_set ?bs" "k \<in> live_set ?bs" "j < k" "rec_len ?bs j \<noteq> 0" "rec_len ?bs k \<noteq> 0" for j k
      using valid_disjoint [OF valid, of j k] that by (simp add: ls r range_of_def)
  qed (use L ok in \<open>simp_all add: h\<close>, simp add: delete_bytes_def)
  have rb: "rec_bytes ?bs j = rec_bytes bs j" if "j \<in> live_set bs" "j \<noteq> i" for j
    using live_in_page(2) [OF valid that(1)] i1 that(2)
    by (simp add: rec_bytes_def r) (simp add: delete_bytes_def frame_simps)
  show "slots_of ?bs = (slots_of bs)[i := if f = 0 then Reusable g else Retired g]"
  proof (rule slots_of_eqI)
    fix j
    assume "j < length ((slots_of bs)[i := if f = 0 then Reusable g else Retired g])"
    then have "j < nslots bs" by simp
    then show "slot_at ?bs j = (slots_of bs)[i := if f = 0 then Reusable g else Retired g] ! j"
      using rb [of j] i1 unfolding slot_at_def live r
      by (cases "j = i") (simp_all add: live_set_def slot_at_def)
  qed (simp add: h)
qed

lemma sp_delete_eq:
  assumes valid: "valid_layout (sp_bytes sp)"
  shows "sp_delete r sp =
    (if rid_page r = sp_page_id sp \<and> spec_get (unat (rid_slot r)) (rid_generation r) (page_slots sp) \<noteq> None
     then if writable sp
       then (Ok (), sp_update (delete_bytes (unat (rid_slot r))
               (if rid_generation r = - 1 then rid_generation r else rid_generation r + 1)
               (if rid_generation r = - 1 then SLOT_RETIRED else 0) (sp_bytes sp)) sp)
       else (Err SP_ReadOnly, sp)
     else (Err (SP_InvalidRid r), sp))"
proof (cases "rid_page r = sp_page_id sp \<and> unat (rid_slot r) \<in> live_set (sp_bytes sp)
    \<and> slot_gen (sp_bytes sp) (unat (rid_slot r)) = rid_generation r")
  case False
  then show ?thesis
    by (auto simp: sp_delete_def act_simps validate_rid_eq [OF valid] page_slots_def spec_get_slots [OF valid])
next
  case True
  let ?i = "unat (rid_slot r)" and ?bs = "sp_bytes sp"
  have i: "?i \<in> live_set ?bs" using True by simp
  then have small: "?i < 1020"
    using layoutD(2) [OF valid] by (simp add: live_set_def)
  have "0 < nlive ?bs"
    using i layoutD(6) [OF valid] by (auto simp: length_live_slots_card card_gt_0_iff)
  then have lc: "(1 :: u16) \<le> hdr ?bs 14"
    by (simp add: nlive_def word_le_nat_alt)
  have gen: "checked_add_word (rid_generation r) 1 =
      (if rid_generation r = - 1 then None else Some (rid_generation r + 1))"
    using unat_u16_less [of "rid_generation r"] unat_u16_max [of "rid_generation r"]
    by (auto simp: checked_add_word_def)
  show ?thesis
    using True small lc
    by (simp add: sp_delete_def act_simps validate_rid_eq [OF valid] page_slots_def spec_get_slots [OF valid]
        gen checked_sub_word_def Let_def put_sp_update delete_bytes_def upd_slot_def upd_header_def frame_simps
        layoutD(1) [OF valid])
qed

end
