(* ===== verification/Slotted_Insert.thy ===== *)
theory Slotted_Insert
  imports Slotted_Update
begin

text \<open>
  Compaction and insertion on a valid page: compaction repacks the live records against
  the end of the page and changes no slot; insertion does what the abstract page says,
  with the free space of the abstract page deciding alone between success and failure.
\<close>

section \<open>Where compaction puts the records\<close>

definition live_prefix :: "bytes \<Rightarrow> nat \<Rightarrow> nat" where
  "live_prefix bs k = (\<Sum>j<k. if is_live bs j then rec_len bs j else 0)"

definition packed_pos :: "bytes \<Rightarrow> nat \<Rightarrow> nat" where
  "packed_pos bs i = PAGE_SIZE - live_prefix bs (Suc i)"

lemma live_prefix_Suc [simp]:
  "live_prefix bs (Suc k) = live_prefix bs k + (if is_live bs k then rec_len bs k else 0)"
  by (simp add: live_prefix_def)

lemma live_prefix_mono: "i \<le> j \<Longrightarrow> live_prefix bs i \<le> live_prefix bs j"
  by (auto simp: live_prefix_def intro: sum_mono2)

lemma live_prefix_all: "live_prefix bs (nslots bs) = live_bytes bs"
  by (simp add: live_prefix_def live_bytes_def sum_live_upt)

lemma live_prefix_bound:
  assumes "valid_layout bs" and "k \<le> nslots bs"
  shows "live_prefix bs k + free_hi bs \<le> PAGE_SIZE"
  using live_prefix_mono [OF assms(2), of bs] live_bytes_bound [OF assms(1)] layoutD(5) [OF assms(1)]
  by (simp add: live_prefix_all)

lemma packed_pos_step:
  assumes "valid_layout bs" and "i \<in> live_set bs"
  shows "packed_pos bs i + rec_len bs i = PAGE_SIZE - live_prefix bs i"
    and "free_hi bs \<le> packed_pos bs i" and "packed_pos bs i + rec_len bs i \<le> PAGE_SIZE"
  using live_prefix_bound [OF assms(1), of "Suc i"] assms(2)
  by (auto simp: packed_pos_def live_set_def)

lemma packed_pos_disjoint:
  assumes "valid_layout bs" and "j \<in> live_set bs" and "i < j"
  shows "packed_pos bs j + rec_len bs j \<le> packed_pos bs i"
  using packed_pos_step(1) [OF assms(1,2)] live_prefix_mono [of "Suc i" j bs] assms(3)
  by (simp add: packed_pos_def)

definition packed_offsets :: "bytes \<Rightarrow> nat \<Rightarrow> (slot_id \<times> u16) list" where
  "packed_offsets bs k = map (\<lambda>i. (of_nat i, as_u16 (packed_pos bs i))) (filter (is_live bs) [0..<k])"

lemma packed_offsets_Suc:
  "packed_offsets bs (Suc k) =
     packed_offsets bs k @ (if is_live bs k then [(of_nat k, as_u16 (packed_pos bs k))] else [])"
  by (simp add: packed_offsets_def)

definition packed_upto :: "bytes \<Rightarrow> nat \<Rightarrow> bytes \<Rightarrow> bool" where
  "packed_upto bs k pk \<longleftrightarrow> length pk = PAGE_SIZE \<and>
     (\<forall>i\<in>live_set bs. i < k \<longrightarrow> slice (packed_pos bs i) (rec_len bs i) pk = rec_bytes bs i)"

lemma packed_upto_step:
  assumes valid: "valid_layout bs" and k: "k \<in> live_set bs" and pk: "packed_upto bs k pk"
  shows "packed_upto bs (Suc k) (splice (packed_pos bs k) (rec_bytes bs k) pk)"
proof -
  have len: "length pk = PAGE_SIZE" "length (rec_bytes bs k) = rec_len bs k"
    using pk live_in_page(4) [OF valid k] by (simp_all add: packed_upto_def)
  have "slice (packed_pos bs i) (rec_len bs i) (splice (packed_pos bs k) (rec_bytes bs k) pk) = rec_bytes bs i"
    if "i \<in> live_set bs" "i < Suc k" for i
  proof (cases "i = k")
    case True
    then show ?thesis using packed_pos_step(3) [OF valid k] len by simp
  next
    case False
    then show ?thesis
      using packed_pos_disjoint [OF valid k, of i] pk that len
      by (simp add: slice_splice_disjoint packed_upto_def)
  qed
  then show ?thesis using len by (simp add: packed_upto_def)
qed

lemma compact_loop_from:
  assumes valid: "valid_layout (sp_bytes sp)" and k: "k \<le> nslots (sp_bytes sp)"
  shows "\<forall>pk. packed_upto (sp_bytes sp) k pk \<longrightarrow>
    (\<exists>pk'. compact_loop sp (map of_nat [k..<nslots (sp_bytes sp)])
             (pk, packed_offsets (sp_bytes sp) k, PAGE_SIZE - live_prefix (sp_bytes sp) k)
           = Ok (pk', packed_offsets (sp_bytes sp) (nslots (sp_bytes sp)), PAGE_SIZE - live_bytes (sp_bytes sp))
         \<and> packed_upto (sp_bytes sp) (nslots (sp_bytes sp)) pk')"
  using k
proof (induction rule: inc_induct)
  case base
  show ?case by (simp add: live_prefix_all)
next
  case (step k)
  let ?bs = "sp_bytes sp"
  have k: "k < 1020" "[k..<nslots ?bs] = k # [Suc k..<nslots ?bs]"
    using step(2) layoutD(2) [OF valid] by (simp_all add: upt_conv_Cons)
  show ?case
  proof (cases "is_live ?bs k")
    case False
    then show ?thesis
      using step(3) k by (auto simp: act_simps is_live_def slot_flags_def packed_offsets_Suc packed_upto_def
          less_Suc_eq live_set_def)
  next
    case True
    then have live: "k \<in> live_set ?bs"
      using step(2) by (simp add: live_set_def)
    have te: "checked_sub_usize (PAGE_SIZE - live_prefix ?bs k) (rec_len ?bs k) = Some (packed_pos ?bs k)"
      using packed_pos_step(1) [OF valid live] by (simp add: checked_sub_usize_def)
    have "page_read (rec_off ?bs k) (rec_len ?bs k) (page_ref sp) = Ok (rec_bytes ?bs k)"
      using live_in_page(3) [OF valid live] by (simp add: page_read_eq rec_bytes_def sp_bytes_def)
    then have "compact_loop sp (map of_nat [k..<nslots ?bs]) (pk, packed_offsets ?bs k, PAGE_SIZE - live_prefix ?bs k)
        = compact_loop sp (map of_nat [Suc k..<nslots ?bs])
            (splice (packed_pos ?bs k) (rec_bytes ?bs k) pk, packed_offsets ?bs (Suc k), packed_pos ?bs k)" for pk
      using True k te by (simp add: act_simps is_live_def slot_flags_def packed_offsets_Suc
          rec_off_def rec_len_def)
    then show ?thesis
      using step(3) packed_upto_step [OF valid live] by (simp add: packed_pos_def)
  qed
qed

lemma compact_loop_eq:
  assumes valid: "valid_layout (sp_bytes sp)"
  obtains pk where
    "compact_loop sp (map of_nat [0..<nslots (sp_bytes sp)]) (replicate PAGE_SIZE 0, [], PAGE_SIZE)
       = Ok (pk, packed_offsets (sp_bytes sp) (nslots (sp_bytes sp)), PAGE_SIZE - live_bytes (sp_bytes sp))"
    and "packed_upto (sp_bytes sp) (nslots (sp_bytes sp)) pk"
proof -
  have "packed_upto (sp_bytes sp) 0 (replicate PAGE_SIZE 0)"
    by (simp add: packed_upto_def)
  then show ?thesis
    using compact_loop_from [OF valid, of 0] that
    by (auto simp: packed_offsets_def live_prefix_def)
qed

section \<open>Writing the new offsets\<close>

fun apply_offsets :: "(nat \<Rightarrow> u16) \<Rightarrow> nat list \<Rightarrow> bytes \<Rightarrow> bytes" where
  "apply_offsets v [] bs = bs"
| "apply_offsets v (i # is) bs = apply_offsets v is (splice (32 + 8 * i + 0) (to_le 2 (v i)) bs)"

lemma length_apply_offsets [simp]: "length (apply_offsets v is bs) = length bs"
  by (induction "is" arbitrary: bs) auto

lemma header_apply_offsets [simp]: "header_frame (apply_offsets v is bs) = header_frame bs"
  by (induction "is" arbitrary: bs) (auto simp: header_frame_def frame_simps)

lemma hdr_apply_offsets [frame_simps]: "off + 2 \<le> 32 \<Longrightarrow> hdr (apply_offsets v is bs) off = hdr bs off"
  by (induction "is" arbitrary: bs) (auto simp: frame_simps)

lemma slice_apply_offsets [frame_simps]:
  "(\<And>i. i \<in> set is \<Longrightarrow> 32 + 8 * i + 2 \<le> off) \<Longrightarrow> slice off n (apply_offsets v is bs) = slice off n bs"
  by (induction "is" arbitrary: bs) (auto simp: frame_simps)

lemma sfield_splice_offset:
  assumes "slot_word k" and "32 + 8 * j + 8 \<le> length bs" and "32 + 8 * i + 8 \<le> length bs"
  shows "sfield (splice (32 + 8 * i + 0) (to_le 2 w) bs) j k = (if j = i \<and> k = 0 then w else sfield bs j k)"
proof -
  have "j < i \<or> j = i \<or> i < j" by arith
  then show ?thesis
    using assms by (elim disjE) (simp_all add: frame_simps)
qed

lemma sfield_apply_offsets:
  assumes "slot_word k" and "32 + 8 * j + 8 \<le> length bs" and "\<And>i. i \<in> set is \<Longrightarrow> 32 + 8 * i + 8 \<le> length bs"
  shows "sfield (apply_offsets v is bs) j k = (if j \<in> set is \<and> k = 0 then v j else sfield bs j k)"
  using assms(2,3)
proof (induction "is" arbitrary: bs)
  case (Cons i "is")
  then show ?case
    using sfield_splice_offset [OF assms(1), of j bs i "v i"] by auto
qed simp

lemma write_offsets_eq:
  assumes "writable sp" and "\<And>i. i \<in> set is \<Longrightarrow> i < 1020"
  shows "write_offsets (map (\<lambda>i. (of_nat i, v i)) is) (sp_update bs sp) = (Ok (), sp_update (apply_offsets v is bs) sp)"
  using assms(2)
proof (induction "is" arbitrary: bs)
  case Nil
  show ?case by (simp add: ret_def)
next
  case (Cons i "is")
  have i: "i < 1020" "unat (of_nat i :: u16) = i"
    using Cons.prems [of i] by simp_all
  have "write_offsets (map (\<lambda>i. (of_nat i, v i)) is) (sp_update bs sp) = (Ok (), sp_update (apply_offsets v is bs) sp)" for bs
    using Cons.prems by (intro Cons.IH) simp
  then show ?case
    using assms(1) i by (simp add: act_simps put_sp_update)
qed

section \<open>Compaction\<close>

definition compact_bytes :: "bytes \<Rightarrow> bytes \<Rightarrow> bytes" where
  "compact_bytes pk bs =
     upd_header 12 (as_u16 (PAGE_SIZE - live_bytes bs))
       (apply_offsets (\<lambda>i. as_u16 (packed_pos bs i)) (live_slots bs)
         (splice (free_lo bs) (drop (free_lo bs) pk) bs))"

lemma compact_eq:
  assumes valid: "valid_layout (sp_bytes sp)"
  obtains pk where "packed_upto (sp_bytes sp) (nslots (sp_bytes sp)) pk"
    and "compact sp = (if writable sp then (Ok (), sp_update (compact_bytes pk (sp_bytes sp)) sp)
                       else (Err SP_ReadOnly, sp))"
proof -
  let ?bs = "sp_bytes sp"
  note L = layoutD [OF valid]
  obtain pk where loop: "compact_loop sp (map of_nat [0..<nslots ?bs]) (replicate PAGE_SIZE 0, [], PAGE_SIZE)
       = Ok (pk, packed_offsets ?bs (nslots ?bs), PAGE_SIZE - live_bytes ?bs)"
    and pk: "packed_upto ?bs (nslots ?bs) pk"
    using compact_loop_eq [OF valid] by blast
  have fits: "free_lo ?bs \<le> PAGE_SIZE - live_bytes ?bs" "length pk = PAGE_SIZE"
    using live_bytes_bound [OF valid] L pk by (auto simp: packed_upto_def)
  have offs: "write_offsets (packed_offsets ?bs (nslots ?bs)) (sp_update bs sp) =
      (Ok (), sp_update (apply_offsets (\<lambda>i. as_u16 (packed_pos ?bs i)) (live_slots ?bs) bs) sp)"
    if "writable sp" for bs
    unfolding packed_offsets_def live_slots_def using that L(2) by (intro write_offsets_eq) auto
  show ?thesis
  proof (rule that [OF pk])
    show "compact sp = (if writable sp then (Ok (), sp_update (compact_bytes pk ?bs) sp) else (Err SP_ReadOnly, sp))"
      using fits L offs
      by (simp add: compact_def act_simps loop put_sp_update compact_bytes_def upd_header_def)
  qed
qed

lemma compact_bytes_header:
  assumes valid: "valid_layout bs"
  shows "nslots (compact_bytes pk bs) = nslots bs" and "free_lo (compact_bytes pk bs) = free_lo bs"
    and "nlive (compact_bytes pk bs) = nlive bs" and "free_hi (compact_bytes pk bs) = PAGE_SIZE - live_bytes bs"
    and "header_frame (compact_bytes pk bs) = header_frame bs"
proof -
  note L = layoutD [OF valid]
  have lo: "32 \<le> free_lo bs" using L by simp
  show "nslots (compact_bytes pk bs) = nslots bs" "free_lo (compact_bytes pk bs) = free_lo bs"
    "nlive (compact_bytes pk bs) = nlive bs"
    using L(1) lo by (simp_all add: compact_bytes_def field_defs frame_simps)
  show "free_hi (compact_bytes pk bs) = PAGE_SIZE - live_bytes bs"
    using L(1) by (simp add: compact_bytes_def free_hi_def frame_simps)
  show "header_frame (compact_bytes pk bs) = header_frame bs"
    using lo by (simp add: compact_bytes_def header_frame_def frame_simps flip: header_frame_def)
      (simp add: header_frame_def frame_simps)
qed

lemma live_slots_below:
  assumes "valid_layout bs" and "i \<in> set (live_slots bs)"
  shows "32 + 8 * i + 8 \<le> free_lo bs" and "32 + 8 * i + 8 \<le> PAGE_SIZE"
  using assms layoutD [OF assms(1)] by (auto simp: set_live_slots live_set_def)

text \<open>Only the offsets of live slots change.\<close>

lemma compact_bytes_slots:
  assumes valid: "valid_layout bs" and j: "j < nslots bs"
  shows "rec_off (compact_bytes pk bs) j = (if j \<in> live_set bs then packed_pos bs j else rec_off bs j)"
    and "rec_len (compact_bytes pk bs) j = rec_len bs j" and "slot_gen (compact_bytes pk bs) j = slot_gen bs j"
    and "slot_flags (compact_bytes pk bs) j = slot_flags bs j" and "is_live (compact_bytes pk bs) j \<longleftrightarrow> is_live bs j"
proof -
  let ?bs = "compact_bytes pk bs" and ?cs = "splice (free_lo bs) (drop (free_lo bs) pk) bs"
  note L = layoutD [OF valid]
  have s: "sfield ?bs j k = (if j \<in> live_set bs \<and> k = 0 then as_u16 (packed_pos bs j) else sfield bs j k)" if "slot_word k" for k
  proof -
    have fits: "32 + 8 * j + 8 \<le> free_lo bs" "32 + 8 * j + 8 \<le> PAGE_SIZE"
      using j L by auto
    have "sfield (apply_offsets (\<lambda>i. as_u16 (packed_pos bs i)) (live_slots bs) ?cs) j k =
        (if j \<in> live_set bs \<and> k = 0 then as_u16 (packed_pos bs j) else sfield ?cs j k)"
      using sfield_apply_offsets [OF that, of j ?cs "live_slots bs"] fits(2) live_slots_below(2) [OF valid] L(1)
      by (simp add: set_live_slots)
    moreover have "sfield ?cs j k = sfield bs j k"
      using that fits(1) by (auto simp: frame_simps)
    ultimately show ?thesis
      by (simp add: compact_bytes_def frame_simps)
  qed
  show "rec_off ?bs j = (if j \<in> live_set bs then packed_pos bs j else rec_off bs j)" "rec_len ?bs j = rec_len bs j"
    "slot_gen ?bs j = slot_gen bs j" "slot_flags ?bs j = slot_flags bs j"
    by (simp_all add: rec_off_def rec_len_def slot_gen_def slot_flags_def s packed_pos_def)
  then show "is_live ?bs j \<longleftrightarrow> is_live bs j"
    by (simp add: is_live_def)
qed

lemma compact_bytes_live:
  assumes "valid_layout bs"
  shows "live_set (compact_bytes pk bs) = live_set bs"
  using compact_bytes_slots(5) [OF assms] by (auto simp: live_set_def compact_bytes_header [OF assms])

lemma compact_bytes_records:
  assumes valid: "valid_layout bs" and pk: "packed_upto bs (nslots bs) pk" and j: "j \<in> live_set bs"
  shows "rec_bytes (compact_bytes pk bs) j = rec_bytes bs j"
proof -
  note L = layoutD [OF valid]
  have len: "length pk = PAGE_SIZE" and lo: "32 \<le> free_lo bs"
    using pk L by (simp_all add: packed_upto_def)
  have b: "free_lo bs \<le> packed_pos bs j" "packed_pos bs j + rec_len bs j \<le> PAGE_SIZE" "j < nslots bs"
    using packed_pos_step [OF valid j] L j by (auto simp: live_set_def)
  have "rec_bytes (compact_bytes pk bs) j = slice (packed_pos bs j) (rec_len bs j) (compact_bytes pk bs)"
    using compact_bytes_slots [OF valid b(3)] j by (simp add: rec_bytes_def)
  also have "\<dots> = slice (packed_pos bs j) (rec_len bs j) (splice (free_lo bs) (drop (free_lo bs) pk) bs)"
    using live_slots_below(1) [OF valid] b(1) lo by (fastforce simp: compact_bytes_def slice_upd intro!: slice_apply_offsets)
  also have "\<dots> = slice (packed_pos bs j - free_lo bs) (rec_len bs j) (drop (free_lo bs) pk)"
    using b len L by (subst slice_splice_inside) auto
  also have "\<dots> = slice (packed_pos bs j) (rec_len bs j) pk"
    using b(1) by (simp add: slice_def)
  also have "\<dots> = rec_bytes bs j"
    using pk j b(3) by (simp add: packed_upto_def)
  finally show ?thesis .
qed

lemma compact_bytes_valid:
  assumes valid: "valid_layout bs"
  shows "valid_layout (compact_bytes pk bs)"
proof -
  let ?bs = "compact_bytes pk bs"
  note L = layoutD [OF valid]
  note h = compact_bytes_header [OF valid, of pk] and r = compact_bytes_slots [OF valid, of _ pk]
    and ls = compact_bytes_live [OF valid, of pk]
  have total: "PAGE_SIZE - live_bytes bs \<le> packed_pos bs j" if "j \<in> live_set bs" for j
    using live_prefix_mono [of "Suc j" "nslots bs" bs] that
    by (simp add: packed_pos_def live_prefix_all live_set_def del: live_prefix_Suc)
  have ok: "slot_ok ?bs j" if "j < nslots bs" for j
    using L(7) [OF that] r [OF that] packed_pos_step(3) [OF valid, of j] total [of j] that
    by (auto simp: slot_ok_def h live_set_def)
  show ?thesis
  proof (rule valid_layoutI)
    show "header_ok ?bs"
      using valid_layout_header_ok [OF valid] L(1)
      by (subst header_ok_frame [of _ bs]) (simp_all add: h(5), simp add: compact_bytes_def)
    show "free_lo ?bs \<le> free_hi ?bs"
      using live_bytes_bound [OF valid] L by (simp add: h)
    show "disjoint_ranges (range_of ?bs i) (range_of ?bs j)"
      if "i \<in> live_set ?bs" "j \<in> live_set ?bs" "i < j" for i j
    proof -
      have "i \<in> live_set bs" "j \<in> live_set bs" "i < nslots bs" "j < nslots bs"
        using that(1,2) unfolding ls by (simp_all add: live_set_def)
      then show ?thesis
        using packed_pos_disjoint [OF valid, of j i] that(3) by (simp add: disjoint_ranges_def range_of_def r)
    qed
  qed (use L ok in \<open>simp_all add: h ls length_live_slots_card\<close>, simp add: compact_bytes_def)
qed

lemma compact_bytes_layout:
  assumes valid: "valid_layout bs" and pk: "packed_upto bs (nslots bs) pk"
  shows "valid_layout (compact_bytes pk bs)" and "slots_of (compact_bytes pk bs) = slots_of bs"
    and "free_hi (compact_bytes pk bs) = PAGE_SIZE - live_bytes bs" and "free_lo (compact_bytes pk bs) = free_lo bs"
    and "header_frame (compact_bytes pk bs) = header_frame bs"
  using compact_bytes_valid [OF valid] compact_bytes_header [OF valid] compact_bytes_slots [OF valid]
    compact_bytes_records [OF valid pk]
  by (auto simp: slots_of_def slot_at_def live_set_def)

section \<open>Writing the record\<close>

definition insert_bytes :: "bool \<Rightarrow> nat \<Rightarrow> u16 \<Rightarrow> bytes \<Rightarrow> bytes \<Rightarrow> bytes" where
  "insert_bytes fresh i g rec bs =
     (let ro = free_hi bs - length rec;
          bs1 = upd_slot i (as_u16 ro) (as_u16 (length rec)) g SLOT_LIVE (upd_record ro rec bs);
          bs2 = (if fresh
                 then upd_header 10 (as_u16 (32 + (nslots bs + 1) * 8)) (upd_header 8 (hdr bs 8 + 1) bs1)
                 else bs1)
      in upd_header 14 (hdr bs 14 + 1) (upd_header 12 (as_u16 ro) bs2))"

text \<open>What the insertion of a record into slot \<open>i\<close>, a new or a reusable one, needs of the page.\<close>

definition insertable :: "bool \<Rightarrow> nat \<Rightarrow> bytes \<Rightarrow> bytes \<Rightarrow> bool" where
  "insertable fresh i rec bs \<longleftrightarrow> valid_layout bs
     \<and> free_lo bs + length rec + (if fresh then 8 else 0) \<le> free_hi bs
     \<and> (if fresh then i = nslots bs else i < nslots bs \<and> \<not> is_live bs i)"

abbreviation (input) slots_after :: "bool \<Rightarrow> bytes \<Rightarrow> nat" where
  "slots_after fresh bs \<equiv> (if fresh then nslots bs + 1 else nslots bs)"

lemma insertableD:
  assumes "insertable fresh i rec bs"
  shows "valid_layout bs" and "32 + 8 * slots_after fresh bs \<le> free_hi bs - length rec"
    and "free_hi bs - length rec + length rec = free_hi bs" and "length rec \<le> PAGE_SIZE"
    and "slots_after fresh bs \<le> 1020" and "i < slots_after fresh bs" and "i \<notin> live_set bs"
    and "j < slots_after fresh bs \<Longrightarrow> j \<noteq> i \<Longrightarrow> j < nslots bs"
proof -
  have v: "valid_layout bs" and room: "free_lo bs + length rec + (if fresh then 8 else 0) \<le> free_hi bs"
    and i: "if fresh then i = nslots bs else i < nslots bs \<and> \<not> is_live bs i"
    using assms unfolding insertable_def by blast+
  note L = layoutD [OF v]
  show "valid_layout bs" by (rule v)
  show "32 + 8 * slots_after fresh bs \<le> free_hi bs - length rec" "free_hi bs - length rec + length rec = free_hi bs"
    "length rec \<le> PAGE_SIZE" "slots_after fresh bs \<le> 1020"
    using room L by (auto split: if_splits)
  show "i < slots_after fresh bs" "i \<notin> live_set bs" "j < slots_after fresh bs \<Longrightarrow> j \<noteq> i \<Longrightarrow> j < nslots bs"
    using i by (auto simp: live_set_def split: if_splits)
qed

text \<open>The header fields after it.\<close>

lemma insert_bytes_header:
  assumes ins: "insertable fresh i rec bs"
  shows "nslots (insert_bytes fresh i g rec bs) = slots_after fresh bs"
    and "free_lo (insert_bytes fresh i g rec bs) = 32 + 8 * slots_after fresh bs"
    and "free_hi (insert_bytes fresh i g rec bs) = free_hi bs - length rec"
    and "nlive (insert_bytes fresh i g rec bs) = nlive bs + 1"
    and "header_frame (insert_bytes fresh i g rec bs) = header_frame bs"
proof -
  let ?bs = "insert_bytes fresh i g rec bs"
  note I = insertableD [OF ins]
  note L = layoutD [OF I(1)]
  have nlive: "nlive bs \<le> 1020"
    using L(2,6) length_live_slots [of bs] by simp
  have un: "unat (hdr bs 8 + 1) = nslots bs + 1" "unat (hdr bs 14 + 1) = nlive bs + 1"
    using L(2) nlive by (simp_all add: nslots_def nlive_def unat_plus_one)
  have ro: "32 \<le> free_hi bs - length rec" "free_hi bs - length rec \<le> PAGE_SIZE"
    using I(2) L(5) by auto
  show "nslots ?bs = slots_after fresh bs" "free_lo ?bs = 32 + 8 * slots_after fresh bs"
    "free_hi ?bs = free_hi bs - length rec" "nlive ?bs = nlive bs + 1"
    using L ro un I(2) by (auto simp: insert_bytes_def Let_def nslots_def free_lo_def free_hi_def nlive_def frame_simps)
  show "header_frame ?bs = header_frame bs"
    using ro(1) by (simp add: insert_bytes_def Let_def)
qed

text \<open>The slots after it: slot \<open>i\<close> has the record, every other slot is as before.\<close>

lemma insert_bytes_slots:
  assumes ins: "insertable fresh i rec bs" and j: "j < slots_after fresh bs"
  shows "rec_off (insert_bytes fresh i g rec bs) j = (if j = i then free_hi bs - length rec else rec_off bs j)"
    and "rec_len (insert_bytes fresh i g rec bs) j = (if j = i then length rec else rec_len bs j)"
    and "slot_gen (insert_bytes fresh i g rec bs) j = (if j = i then g else slot_gen bs j)"
    and "slot_flags (insert_bytes fresh i g rec bs) j = (if j = i then SLOT_LIVE else slot_flags bs j)"
    and "is_live (insert_bytes fresh i g rec bs) j \<longleftrightarrow> j = i \<or> is_live bs j"
proof -
  let ?bs = "insert_bytes fresh i g rec bs" and ?ro = "free_hi bs - length rec"
  note I = insertableD [OF ins]
  note L = layoutD [OF I(1)]
  have s: "sfield ?bs j k = (if j = i then (if k = 0 then as_u16 ?ro else if k = 2 then as_u16 (length rec)
        else if k = 4 then g else SLOT_LIVE) else sfield bs j k)" if "slot_word k" for k
  proof -
    have "32 + 8 * i + 8 \<le> length bs" "32 + 8 * j + k + 2 \<le> ?ro"
      using I(2,6) L(1,5) that j by auto
    then show ?thesis
      using that by (cases "j = i") (auto simp: insert_bytes_def Let_def frame_simps)
  qed
  show "rec_off ?bs j = (if j = i then ?ro else rec_off bs j)" "rec_len ?bs j = (if j = i then length rec else rec_len bs j)"
    "slot_gen ?bs j = (if j = i then g else slot_gen bs j)" "slot_flags ?bs j = (if j = i then SLOT_LIVE else slot_flags bs j)"
    using I(4) L(5) by (simp_all add: rec_off_def rec_len_def slot_gen_def slot_flags_def s)
  then show "is_live ?bs j \<longleftrightarrow> j = i \<or> is_live bs j"
    by (simp add: is_live_def)
qed

lemma insert_bytes_live:
  assumes ins: "insertable fresh i rec bs"
  shows "live_set (insert_bytes fresh i g rec bs) = insert i (live_set bs)"
proof (rule set_eqI)
  fix j
  show "j \<in> live_set (insert_bytes fresh i g rec bs) \<longleftrightarrow> j \<in> insert i (live_set bs)"
    using insert_bytes_slots(5) [OF ins, of j g] insertableD(6) [OF ins] insertableD(8) [OF ins, of j]
    unfolding live_set_def insert_bytes_header(1) [OF ins] by (auto split: if_splits)
qed

lemma insert_bytes_old:
  assumes ins: "insertable fresh i rec bs" and j: "j \<in> live_set bs"
  shows "j \<noteq> i" and "j < slots_after fresh bs" and "free_hi bs \<le> rec_off bs j" and "rec_off bs j + rec_len bs j \<le> PAGE_SIZE"
  using insertableD(7) [OF ins] live_in_page(2,3) [OF insertableD(1) [OF ins] j] j by (auto simp: live_set_def)

lemma insert_bytes_records:
  assumes ins: "insertable fresh i rec bs" and j: "j \<in> live_set (insert_bytes fresh i g rec bs)"
  shows "rec_bytes (insert_bytes fresh i g rec bs) j = (if j = i then rec else rec_bytes bs j)"
proof -
  let ?ro = "free_hi bs - length rec"
  note I = insertableD [OF ins]
  have ro: "32 + 8 * slots_after fresh bs \<le> ?ro" "?ro + length rec = free_hi bs" "i < slots_after fresh bs"
    using I(2,3,6) .
  show ?thesis
  proof (cases "j = i")
    case True
    have "?ro + length rec \<le> length bs"
      using I(3) layoutD(1,5) [OF I(1)] by simp
    from slice_splice_same [OF this refl]
    have "slice ?ro (length rec) (insert_bytes fresh i g rec bs) = rec"
      using ro(1,3) by (simp add: insert_bytes_def Let_def frame_simps) (simp add: upd_record_def)
    then show ?thesis using True insert_bytes_slots [OF ins I(6)] by (simp add: rec_bytes_def)
  next
    case False
    then have "j \<in> live_set bs" using j insert_bytes_live [OF ins] by simp
    note o = insert_bytes_old [OF ins this]
    have eq: "rec_bytes (insert_bytes fresh i g rec bs) j = slice (rec_off bs j) (rec_len bs j) (insert_bytes fresh i g rec bs)"
      using insert_bytes_slots [OF ins o(2)] o(1) by (simp add: rec_bytes_def)
    show ?thesis
      using False o ro unfolding eq by (simp add: rec_bytes_def insert_bytes_def Let_def frame_simps)
  qed
qed

lemma insert_bytes_valid:
  assumes ins: "insertable fresh i rec bs" and g: "g \<noteq> 0"
  shows "valid_layout (insert_bytes fresh i g rec bs)"
proof (rule valid_layoutI)
  let ?bs = "insert_bytes fresh i g rec bs"
  note I = insertableD [OF ins]
  note L = layoutD [OF I(1)]
  note h = insert_bytes_header [OF ins, of g] and ls = insert_bytes_live [OF ins, of g]
  note old = insert_bytes_old [OF ins] and r = insert_bytes_slots [OF ins, of _ g]
  show "header_ok ?bs"
    using valid_layout_header_ok [OF I(1)] L(1)
    by (subst header_ok_frame [of _ bs]) (simp_all add: h(5), simp add: insert_bytes_def Let_def)
  show "nlive ?bs = card (live_set ?bs)"
    using I(7) L(6) by (simp add: h ls length_live_slots_card)
  show "slot_ok ?bs j" if "j < nslots ?bs" for j
  proof -
    have j: "j < slots_after fresh bs" using that by (simp only: h)
    show ?thesis
    proof (cases "j = i")
      case True
      then show ?thesis using g I(2-4) r [OF j] L(5) by (simp add: slot_ok_def h)
    next
      case False
      then show ?thesis
        using L(7) [OF I(8) [OF j False]] r [OF j] I(3) by (auto simp: slot_ok_def h)
    qed
  qed
  show "disjoint_ranges (range_of ?bs j) (range_of ?bs k)"
    if "j \<in> live_set ?bs" "k \<in> live_set ?bs" "j < k" "rec_len ?bs j \<noteq> 0" "rec_len ?bs k \<noteq> 0" for j k
  proof (cases "j = i \<or> k = i")
    case True
    then show ?thesis
      using that(1-3) old [of j] old [of k] I(3,6) unfolding ls disjoint_ranges_def range_of_def by (auto simp: r)
  next
    case False
    then have m: "j \<in> live_set bs" "k \<in> live_set bs"
      using that(1,2) ls by auto
    then show ?thesis
      using valid_disjoint [OF I(1) m] that(3-5) old(2) [OF m(1)] old(2) [OF m(2)] False
      by (simp add: range_of_def r)
  qed
qed (use insertableD [OF assms(1)] layoutD [OF insertableD(1) [OF assms(1)]] in
    \<open>simp_all add: insert_bytes_header [OF assms(1)]\<close>, simp add: insert_bytes_def Let_def)

lemma insert_bytes_layout:
  assumes valid: "valid_layout bs" and g: "g \<noteq> 0"
    and room: "free_lo bs + length rec + (if fresh then 8 else 0) \<le> free_hi bs"
    and i: "if fresh then i = nslots bs else i < nslots bs \<and> \<not> is_live bs i"
  shows "valid_layout (insert_bytes fresh i g rec bs)"
    and "slots_of (insert_bytes fresh i g rec bs) =
           (if fresh then slots_of bs @ [Live g rec] else (slots_of bs)[i := Live g rec])"
    and "header_frame (insert_bytes fresh i g rec bs) = header_frame bs"
proof -
  let ?bs = "insert_bytes fresh i g rec bs" and ?xs = "if fresh then slots_of bs @ [Live g rec] else (slots_of bs)[i := Live g rec]"
  have ins: "insertable fresh i rec bs"
    using valid room i by (simp add: insertable_def)
  show "valid_layout ?bs" by (rule insert_bytes_valid [OF ins g])
  show "header_frame ?bs = header_frame bs" by (rule insert_bytes_header(5) [OF ins])
  show "slots_of ?bs = ?xs"
  proof (rule slots_of_eqI)
    show "nslots ?bs = length ?xs"
      by (simp add: insert_bytes_header [OF ins])
    fix j
    assume "j < length ?xs"
    then have j: "j < slots_after fresh bs" by (auto split: if_splits)
    note r = insert_bytes_slots [OF ins j, of g]
    have "slot_at ?bs j = (if j = i then Live g rec else slot_at bs j)"
      using insert_bytes_records [OF ins, of j g] r j
      by (auto simp: slot_at_def live_set_def insert_bytes_header [OF ins])
    then show "slot_at ?bs j = ?xs ! j"
      using i j by (auto simp: nth_append nth_list_update split: if_splits)
  qed
qed

lemma insert_write_eq:
  assumes valid: "valid_layout (sp_bytes sp)" and w: "writable sp"
    and room: "free_lo (sp_bytes sp) + length rec + (if i = None then 8 else 0) \<le> free_hi (sp_bytes sp)"
    and i: "\<And>k. i = Some k \<Longrightarrow> k < nslots (sp_bytes sp)"
  shows "insert_write rec (as_u16 (length rec)) (map_option of_nat i) sp =
    (let k = (case i of None \<Rightarrow> nslots (sp_bytes sp) | Some k \<Rightarrow> k);
         g = (case i of None \<Rightarrow> 1 | Some k \<Rightarrow> slot_gen (sp_bytes sp) k)
     in (Ok (rid_new (sp_page_id sp) (of_nat k) g),
         sp_update (insert_bytes (i = None) k g rec (sp_bytes sp)) sp))"
proof -
  let ?bs = "sp_bytes sp" and ?ro = "free_hi (sp_bytes sp) - length rec"
  note L = layoutD [OF valid]
  have sub: "sub_usize (free_hi ?bs) (length rec) = (Ok ?ro :: usize sp_result)" "?ro + length rec \<le> PAGE_SIZE" "32 \<le> ?ro"
    using room L by (auto simp: sub_usize_def)
  have n: "unat (hdr ?bs 8) = nslots ?bs" "of_nat (nslots ?bs) = hdr ?bs 8"
    by (simp_all add: nslots_def)
  have nlive: "unat (hdr ?bs 14) \<le> 1020"
    using L(2,6) length_live_slots [of ?bs] by (simp add: nlive_def)
  show ?thesis
  proof (cases i)
    case None
    then have "nslots ?bs < 1020" "32 + 8 * nslots ?bs + 8 \<le> ?ro"
      using room L by auto
    moreover have "unat (hdr ?bs 8 + 1) = nslots ?bs + 1"
      using n(1) \<open>nslots ?bs < 1020\<close> by (simp add: unat_plus_one)
    ultimately show ?thesis
      using None w sub nlive L(1) n
      by (simp add: insert_write_def act_simps put_sp_update checked_add_word_def frame_simps Let_def
          insert_bytes_def upd_slot_def upd_header_def upd_record_def)
  next
    case (Some k)
    then have "k < 1020" "32 + 8 * k + 8 \<le> ?ro"
      using i [of k] room L by auto
    then show ?thesis
      using Some w sub nlive L(1)
      by (simp add: insert_write_def act_simps put_sp_update checked_add_word_def frame_simps Let_def
          insert_bytes_def upd_slot_def upd_header_def upd_record_def slot_gen_def)
  qed
qed

end
