(* ===== verification/Slotted_Refine.thy ===== *)
theory Slotted_Refine
  imports Slotted_Insert
begin

text \<open>
  The operations of the slotted page implement the abstract page: each is a simulation of
  its specification on the list of slots, with the exact condition for every error. From
  the specification follow the life of a RID (a deleted RID never resolves again, whatever
  the page does next) and two places where the code falls short of its contract.
\<close>

section \<open>Insertion\<close>

text \<open>What \<open>sp_insert\<close> answers, from the abstract page alone.\<close>

definition spec_insert_outcome :: "bytes \<Rightarrow> slot_view list \<Rightarrow> (nat \<times> u16 \<times> slot_view list) sp_result" where
  "spec_insert_outcome rec xs =
     (let growth = (if spec_first_reusable xs = None then SLOT_ENTRY_SIZE else 0) in
      if 65535 < length rec then Err (SP_RecordTooLarge (length rec))
      else if spec_free xs < growth
      then Err (SP_Corrupt ''page metadata and live records exceed page size'')
      else if spec_free xs < length rec + growth
      then Err (SP_NoSpace (length rec + growth) (spec_free xs))
      else Ok (spec_insert rec xs))"

lemma spec_insert_outcome_not_Panic: "spec_insert_outcome rec xs \<noteq> Panic"
  by (simp add: spec_insert_outcome_def Let_def)

text \<open>The same page, possibly with other bytes: what every operation keeps.\<close>

definition same_page :: "slotted_page \<Rightarrow> slotted_page \<Rightarrow> bool" where
  "same_page sp sp' \<longleftrightarrow>
     sp_page_id sp' = sp_page_id sp \<and> writable sp' = writable sp \<and> next_page_id sp' = next_page_id sp
     \<and> wf_page sp'"

lemma same_page_sp_update:
  assumes "wf_layout bs" and "header_frame bs = header_frame (sp_bytes sp)"
  shows "same_page sp (sp_update bs sp)"
  using assms by (auto simp: same_page_def wf_page_def intro: next_page_id_frame)

lemma wf_page_valid: "wf_page sp \<Longrightarrow> valid_layout (sp_bytes sp)"
  by (simp add: wf_page_def wf_layout_def)

lemma wf_page_gen: "wf_page sp \<Longrightarrow> Reusable 0 \<notin> set (page_slots sp)"
  by (simp add: wf_page_def wf_layout_def page_slots_def)

lemma make_room_ok:
  assumes valid: "valid_layout (sp_bytes sp)" and w: "writable sp"
    and room: "growth + length rec \<le> spec_free (page_slots sp)"
  obtains bs where "insert_make_room rec growth (length rec + growth) sp =
      (Ok (), if bs = sp_bytes sp then sp else sp_update bs sp)"
    and "valid_layout bs" and "slots_of bs = page_slots sp" and "header_frame bs = header_frame (sp_bytes sp)"
    and "free_lo bs + length rec + growth \<le> free_hi bs"
proof -
  let ?bs = "sp_bytes sp"
  note L = layoutD [OF valid]
  have cfs: "contiguous_free_space sp = Ok (free_hi ?bs - free_lo ?bs)"
    using L by (simp add: act_simps sub_usize_def)
  show ?thesis
  proof (cases "free_hi ?bs - free_lo ?bs < length rec + growth")
    case False
    show ?thesis
      by (rule that [of ?bs]) (use False valid L in \<open>simp_all add: insert_make_room_def act_simps cfs
        page_slots_def del: contiguous_free_space_eq\<close>)
  next
    case True
    obtain pk where pk: "packed_upto ?bs (nslots ?bs) pk"
      and run: "compact sp = (Ok (), sp_update (compact_bytes pk ?bs) sp)"
      using compact_eq [OF valid] w by metis
    let ?cs = "compact_bytes pk ?bs"
    note C = compact_bytes_layout [OF valid pk]
    have free: "free_hi ?cs - free_lo ?cs = spec_free (page_slots sp)"
      using L live_bytes_bound [OF valid] by (simp add: C page_slots_def spec_free_eq(1) [OF valid])
    have cs: "contiguous_free_space (sp_update ?cs sp) = Ok (free_hi ?cs - free_lo ?cs)"
      using layoutD(4) [OF C(1)] by (simp add: act_simps sub_usize_def)
    have "?cs \<noteq> ?bs"
      using free True room by auto
    then show ?thesis
      using C room free True layoutD(4) [OF C(1)]
      by (intro that [of ?cs]) (simp_all add: insert_make_room_def act_simps cfs cs run page_slots_def
          free_space_after_compaction_eq [OF valid] del: contiguous_free_space_eq)
  qed
qed

lemma make_room_fails:
  assumes valid: "valid_layout (sp_bytes sp)"
    and small: "spec_free (page_slots sp) < growth + length rec"
  shows "insert_make_room rec growth (length rec + growth) sp =
    (Err (if spec_free (page_slots sp) < growth
          then SP_Corrupt ''page metadata and live records exceed page size''
          else SP_NoSpace (length rec + growth) (spec_free (page_slots sp))), sp)"
proof -
  let ?bs = "sp_bytes sp"
  have "contiguous_free_space sp = Ok (free_hi ?bs - free_lo ?bs)"
    using layoutD [OF valid] by (simp add: act_simps sub_usize_def)
  moreover have "free_hi ?bs - free_lo ?bs < length rec + growth"
    using spec_free_eq(3) [OF valid] small by (simp add: page_slots_def)
  ultimately show ?thesis
    using small by (simp add: insert_make_room_def act_simps free_space_after_compaction_eq [OF valid]
        del: contiguous_free_space_eq) arith
qed

lemma sp_update_self_or:
  "sp_bytes (if bs = sp_bytes sp then sp else sp_update bs sp) = bs"
  "writable (if bs = sp_bytes sp then sp else sp_update bs sp) = writable sp"
  "sp_page_id (if bs = sp_bytes sp then sp else sp_update bs sp) = sp_page_id sp"
  "sp_update cs (if bs = sp_bytes sp then sp else sp_update bs sp) = sp_update cs sp"
  by simp_all

lemma insert_refines_ok:
  assumes wf: "wf_page sp" and w: "writable sp"
    and ok: "spec_insert_outcome rec (page_slots sp) = Ok (k, g, xs)"
  shows "\<exists>sp'. sp_insert rec sp = (Ok (rid_new (sp_page_id sp) (of_nat k) g), sp')
     \<and> page_slots sp' = xs \<and> same_page sp sp'"
proof -
  let ?i = "spec_first_reusable (page_slots sp)"
  let ?growth = "if ?i = None then SLOT_ENTRY_SIZE else 0"
  note valid = wf_page_valid [OF wf]
  have fits: "length rec < 65536" "?growth + length rec \<le> spec_free (page_slots sp)"
    and spec: "spec_insert rec (page_slots sp) = (k, g, xs)"
    using ok by (auto simp: spec_insert_outcome_def Let_def split: if_splits)
  obtain bs where run: "insert_make_room rec ?growth (length rec + ?growth) sp =
      (Ok (), if bs = sp_bytes sp then sp else sp_update bs sp)" (is "_ = (_, ?sp1)")
    and bs: "valid_layout bs" "slots_of bs = page_slots sp" "header_frame bs = header_frame (sp_bytes sp)"
      "free_lo bs + length rec + ?growth \<le> free_hi bs"
    using make_room_ok [OF valid w fits(2)] by blast
  have n: "nslots bs = length (page_slots sp)"
    using bs(2) by (metis length_slots_of)
  have first: "j < nslots bs \<and> \<not> is_live bs j \<and> slot_gen bs j = view_gen (page_slots sp ! j)
      \<and> slot_gen bs j \<noteq> 0" if "?i = Some j" for j
  proof -
    have j: "j < nslots bs" "slot_flags bs j = 0"
      using first_reusable_Some [of bs j] that bs(2) by simp_all
    then have "slot_at bs j = Reusable (slot_gen bs j)"
      by (simp add: slot_at_def is_live_def)
    moreover have "slot_at bs j \<in> set (page_slots sp)"
      using j n bs(2) by (metis nth_mem nth_slots_of)
    ultimately show ?thesis
      using j wf_page_gen [OF wf] bs(2) by (metis nth_slots_of slot_at_simps(2,3) view_gen.simps(2) view_live.simps(2))
  qed
  have kg: "k = (case ?i of None \<Rightarrow> nslots bs | Some j \<Rightarrow> j)"
      "g = (case ?i of None \<Rightarrow> 1 | Some j \<Rightarrow> slot_gen bs j)"
      "xs = (if ?i = None then slots_of bs @ [Live g rec] else (slots_of bs)[k := Live g rec])"
    using spec first by (auto simp: spec_insert_def bs(2) n split: option.splits)
  have wr: "insert_write rec (as_u16 (length rec)) (map_option of_nat ?i) ?sp1 =
      (Ok (rid_new (sp_page_id sp) (of_nat k) g), sp_update (insert_bytes (?i = None) k g rec bs) sp)"
    using insert_write_eq [of ?sp1 rec ?i] first bs w kg
    by (simp only: sp_update_self_or Let_def)
  have layout: "valid_layout (insert_bytes (?i = None) k g rec bs)"
      "slots_of (insert_bytes (?i = None) k g rec bs) = xs"
      "header_frame (insert_bytes (?i = None) k g rec bs) = header_frame bs"
    using insert_bytes_layout [OF bs(1), of g rec "?i = None" k] first bs(4) kg
    by (cases ?i; simp)+
  have "Reusable 0 \<notin> set xs"
    using wf_page_gen [OF wf] set_update_subset_insert [of "slots_of bs" k "Live g rec"] bs(2) kg(3)
    by (auto split: if_splits)
  then have "same_page sp (sp_update (insert_bytes (?i = None) k g rec bs) sp)"
    using layout bs(3) by (intro same_page_sp_update) (simp_all add: wf_layout_def)
  moreover have "sp_insert rec sp =
      (Ok (rid_new (sp_page_id sp) (of_nat k) g), sp_update (insert_bytes (?i = None) k g rec bs) sp)"
    using fits(1) run wr layoutD(2) [OF valid]
    by (simp add: sp_insert_def act_simps u16_try_from_def Let_def)
  ultimately show ?thesis
    using layout by (simp add: page_slots_def)
qed

lemma insert_refines_err:
  assumes wf: "wf_page sp" and err: "spec_insert_outcome rec (page_slots sp) = Err e"
  shows "sp_insert rec sp = (Err e, sp)"
proof -
  note valid = wf_page_valid [OF wf]
  let ?growth = "if spec_first_reusable (page_slots sp) = None then SLOT_ENTRY_SIZE else 0"
  show ?thesis
  proof (cases "65535 < length rec")
    case True
    then show ?thesis
      using err by (simp add: sp_insert_def act_simps u16_try_from_def spec_insert_outcome_def Let_def)
  next
    case False
    then have "spec_free (page_slots sp) < ?growth + length rec"
      and e: "e = (if spec_free (page_slots sp) < ?growth
          then SP_Corrupt ''page metadata and live records exceed page size''
          else SP_NoSpace (length rec + ?growth) (spec_free (page_slots sp)))"
      using err by (auto simp: spec_insert_outcome_def Let_def split: if_splits)
    from make_room_fails [OF valid this(1)] show ?thesis
      using False layoutD(2) [OF valid] unfolding e
      by (simp add: sp_insert_def act_simps u16_try_from_def Let_def)
  qed
qed

section \<open>Deletion, compaction, lookup\<close>

lemma delete_refines_ok:
  assumes wf: "wf_page sp" and w: "writable sp"
    and r: "rid_page r = sp_page_id sp" "spec_get (unat (rid_slot r)) (rid_generation r) (page_slots sp) \<noteq> None"
  shows "\<exists>sp'. sp_delete r sp = (Ok (), sp')
     \<and> page_slots sp' = spec_delete (unat (rid_slot r)) (rid_generation r) (page_slots sp) \<and> same_page sp sp'"
proof -
  note valid = wf_page_valid [OF wf]
  let ?i = "unat (rid_slot r)" and ?g = "rid_generation r"
  let ?g' = "if ?g = - 1 then ?g else ?g + 1" and ?f = "if ?g = - 1 then SLOT_RETIRED else 0"
  have live: "?i \<in> live_set (sp_bytes sp)"
    using r(2) spec_get_slots [OF valid, of ?i ?g] by (auto simp: page_slots_def split: if_splits)
  have layout: "valid_layout (delete_bytes ?i ?g' ?f (sp_bytes sp))"
      "slots_of (delete_bytes ?i ?g' ?f (sp_bytes sp)) = spec_delete ?i ?g (page_slots sp)"
    using delete_bytes_layout [OF valid live, of ?f ?g'] by (auto simp: spec_delete_def page_slots_def)
  have "?g + 1 \<noteq> 0" if "?g \<noteq> - 1"
    using that by (metis add.commute eq_neg_iff_add_eq_0)
  then have "Reusable 0 \<notin> set (spec_delete ?i ?g (page_slots sp))"
    using wf_page_gen [OF wf] by (simp add: spec_delete_def not_in_update)
  then have "same_page sp (sp_update (delete_bytes ?i ?g' ?f (sp_bytes sp)) sp)"
    using layout by (intro same_page_sp_update) (simp_all add: wf_layout_def delete_bytes_def)
  then show ?thesis
    using layout r w by (auto simp: sp_delete_eq [OF valid] page_slots_def)
qed

lemma compact_refines_ok:
  assumes wf: "wf_page sp" and w: "writable sp"
  shows "\<exists>sp'. compact sp = (Ok (), sp') \<and> page_slots sp' = page_slots sp \<and> same_page sp sp'
     \<and> contiguous_free_space sp' = Ok (spec_free (page_slots sp))"
proof -
  note valid = wf_page_valid [OF wf]
  obtain pk where pk: "packed_upto (sp_bytes sp) (nslots (sp_bytes sp)) pk"
    and run: "compact sp = (Ok (), sp_update (compact_bytes pk (sp_bytes sp)) sp)"
    using compact_eq [OF valid] w by metis
  note C = compact_bytes_layout [OF valid pk]
  have "same_page sp (sp_update (compact_bytes pk (sp_bytes sp)) sp)"
    using C wf_page_gen [OF wf] by (intro same_page_sp_update) (simp_all add: wf_layout_def page_slots_def)
  moreover have "contiguous_free_space (sp_update (compact_bytes pk (sp_bytes sp)) sp) = Ok (spec_free (page_slots sp))"
    using layoutD(4) [OF C(1)] live_bytes_bound [OF valid] layoutD [OF valid]
    by (simp add: act_simps sub_usize_def C page_slots_def spec_free_eq(1) [OF valid])
  ultimately show ?thesis
    using run C by (simp add: page_slots_def)
qed

lemma set_next_refines_ok:
  assumes wf: "wf_page sp" and w: "writable sp"
  shows "\<exists>sp'. set_next_page_id n sp = (Ok (), sp') \<and> page_slots sp' = page_slots sp \<and> wf_page sp'
     \<and> next_page_id sp' = Ok (if n = Some INVALID_PAGE_ID then None else n)
     \<and> sp_page_id sp' = sp_page_id sp \<and> writable sp'"
  using set_next_page_id_layout [OF wf_page_valid [OF wf] w, of n] wf_page_gen [OF wf]
  by (auto simp: wf_page_def wf_layout_def page_slots_def)

section \<open>The specification\<close>

lemma spec_first_reusable_Some:
  "spec_first_reusable xs = Some i \<Longrightarrow> i < length xs \<and> is_reusable (xs ! i)"
  by (auto simp: spec_first_reusable_def find_Some_iff)

lemma spec_insert_get:
  assumes "spec_insert rec xs = (k, g, ys)"
  shows "spec_get k g ys = Some rec"
    and "spec_get i h xs = Some b \<Longrightarrow> i \<noteq> k \<and> spec_get i h ys = Some b"
  using assms spec_first_reusable_Some [of xs]
  by (auto simp: spec_insert_def spec_get_def nth_append nth_list_update
      split: option.splits if_splits slot_view.splits)

lemma spec_delete_get:
  assumes "spec_get i g xs = Some b"
  shows "spec_get i g (spec_delete i g xs) = None"
    and "j \<noteq> i \<Longrightarrow> spec_get j h (spec_delete i g xs) = spec_get j h xs"
  using assms by (auto simp: spec_delete_def spec_get_def split: if_splits)

fun_cases is_reusableE: "is_reusable v"

text \<open>As maps: insertion adds one entry, deletion takes one away.\<close>

lemma spec_insert_lookup:
  assumes "spec_insert rec xs = (k, g, ys)"
  shows "spec_get i h ys = (if i = k \<and> h = g then Some rec else spec_get i h xs)" and "spec_get k g xs = None"
    and "k < length ys"
  using assms spec_first_reusable_Some [of xs]
  by (auto simp: spec_insert_def spec_get_def nth_append nth_list_update elim!: is_reusableE
      split: option.splits if_splits slot_view.splits)

lemma spec_delete_lookup:
  assumes "spec_get i g xs = Some b"
  shows "spec_get j h (spec_delete i g xs) = (if j = i \<and> h = g then None else spec_get j h xs)"
  using assms by (auto simp: spec_delete_def spec_get_def nth_list_update split: if_splits slot_view.splits)

text \<open>A generation \<open>g\<close> of slot \<open>i\<close> that can never come back.\<close>

definition spent :: "nat \<Rightarrow> u16 \<Rightarrow> slot_view list \<Rightarrow> bool" where
  "spent i g xs \<longleftrightarrow> i < length xs \<and>
     (case xs ! i of Live g' _ \<Rightarrow> g < g' | Reusable g' \<Rightarrow> g < g' | Retired g' \<Rightarrow> True)"

lemma spent_get: "spent i g xs \<Longrightarrow> spec_get i g xs = None"
  by (auto simp: spent_def spec_get_def split: slot_view.splits)

lemma spent_delete: "spec_get i g xs = Some b \<Longrightarrow> spent i g (spec_delete i g xs)"
  by (auto simp: spent_def spec_delete_def spec_get_def less_plus_one_u16 split: if_splits)

lemma spent_insert: "spent i g xs \<Longrightarrow> spec_insert rec xs = (k, h, ys) \<Longrightarrow> spent i g ys"
  using spec_first_reusable_Some [of xs]
  by (fastforce simp: spec_insert_def spent_def nth_append nth_list_update
      split: option.splits slot_view.splits if_splits)

lemma spent_other_delete:
  "spent i g xs \<Longrightarrow> spec_get j h xs \<noteq> None \<Longrightarrow> spent i g (spec_delete j h xs)"
  by (auto simp: spent_def spec_delete_def spec_get_def nth_list_update less_plus_one_u16 less_imp_le
      split: if_splits slot_view.splits)

end
