(* ===== verification/Interfaces.thy ===== *)
theory Interfaces
  imports Prelude
begin

text \<open>
  The contracts one component of the program relies on in another, as locales. Each is
  interpreted on the model's own definitions in the theory of its provider.
\<close>

section \<open>Stores whose keys are never reused\<close>

text \<open>
  A store whose keys carry a generation or are handed out once: a key that is \<open>spent\<close> does
  not resolve, and no operation brings it back. Heap files give their RIDs this way, and the catalog its table identifiers.
\<close>

locale keyed_store =
  fixes invar :: "'s \<Rightarrow> bool"
    and step :: "'s \<Rightarrow> 's \<Rightarrow> bool"
    and lookup :: "'k \<Rightarrow> 's \<Rightarrow> 'v option"
    and spent :: "'k \<Rightarrow> 's \<Rightarrow> bool"
  assumes step_invar: "invar s \<Longrightarrow> step s s' \<Longrightarrow> invar s'"
    and step_spent: "invar s \<Longrightarrow> spent k s \<Longrightarrow> step s s' \<Longrightarrow> spent k s'"
    and spent_lookup: "invar s \<Longrightarrow> spent k s \<Longrightarrow> lookup k s = None"
begin

lemma run_keeps:
  assumes "step\<^sup>*\<^sup>* s s'" and "invar s" and "spent k s"
  shows "invar s' \<and> spent k s'"
  using assms by (induction) (auto intro: step_invar step_spent)

lemma run_invar: "step\<^sup>*\<^sup>* s s' \<Longrightarrow> invar s \<Longrightarrow> invar s'"
  by (induction rule: rtranclp_induct) (auto intro: step_invar)

lemma spent_forever: "step\<^sup>*\<^sup>* s s' \<Longrightarrow> invar s \<Longrightarrow> spent k s \<Longrightarrow> lookup k s' = None"
  using run_keeps spent_lookup by blast

end

section \<open>Paged storage under a cache\<close>

text \<open>
  What a cache needs of the storage below it: a map from keys to contents that loading
  reads and storing updates. Inside, \<open>pages s ++ cache\<close> is what the cache's clients see, and
  the lemmas say that fetching into the cache and writing back from it do not change it.
\<close>

locale page_map =
  fixes invar :: "'s \<Rightarrow> bool"
    and pages :: "'s \<Rightarrow> 'k \<Rightarrow> 'v option"
    and meta :: "'s \<Rightarrow> 'm"
    and writes :: "'m \<Rightarrow> bool"
    and load :: "'k \<Rightarrow> ('s, 'p, 'e) act"
    and store :: "'p \<Rightarrow> ('s, 'p, 'e) act"
    and key :: "'p \<Rightarrow> 'k"
    and content :: "'p \<Rightarrow> 'v"
    and sane :: "'p \<Rightarrow> bool"
  assumes load: "invar s \<Longrightarrow> pages s k = Some v \<Longrightarrow>
      \<exists>p s'. load k s = (Ok p, s') \<and> key p = k \<and> content p = v \<and> sane p
        \<and> invar s' \<and> pages s' = pages s \<and> meta s' = meta s"
    and store: "invar s \<Longrightarrow> writes (meta s) \<Longrightarrow> sane p \<Longrightarrow> pages s (key p) \<noteq> None \<Longrightarrow>
      \<exists>p' s'. store p s = (Ok p', s') \<and> key p' = key p \<and> content p' = content p \<and> sane p'
        \<and> invar s' \<and> pages s' = (pages s)(key p \<mapsto> content p) \<and> meta s' = meta s"
begin

lemma fetch:
  assumes "invar s" and "(pages s ++ cache) k = Some v" and "cache k = None"
  shows "\<exists>p s'. load k s = (Ok p, s') \<and> key p = k \<and> content p = v \<and> sane p \<and> invar s'
    \<and> pages s' ++ cache(k \<mapsto> content p) = pages s ++ cache \<and> pages s' = pages s \<and> meta s' = meta s"
proof -
  have "pages s k = Some v"
    using assms(2,3) by (simp add: map_add_def)
  moreover from this have "pages s ++ cache(k \<mapsto> v) = pages s ++ cache"
    using assms(3) by (auto simp: map_add_def fun_eq_iff)
  ultimately show ?thesis
    using load [OF assms(1), of k v] by auto
qed

lemma write_back:
  assumes "invar s" and "writes (meta s)" and "sane p" and "pages s (key p) \<noteq> None"
    and "cache (key p) = Some (content p)"
  shows "\<exists>p' s'. store p s = (Ok p', s') \<and> key p' = key p \<and> content p' = content p \<and> sane p' \<and> invar s'
    \<and> pages s' ++ cache = pages s ++ cache \<and> pages s' (key p) = Some (content p)
    \<and> (\<forall>k. k \<noteq> key p \<longrightarrow> pages s' k = pages s k) \<and> meta s' = meta s"
proof -
  have "(pages s)(key p \<mapsto> content p) ++ cache = pages s ++ cache"
    using assms(5) by (auto simp: map_add_def fun_eq_iff split: option.split)
  then show ?thesis
    using store [OF assms(1-4)] by force
qed

text \<open>A cached entry that agrees with the storage can be dropped.\<close>

lemma evict: "pages s k = cache k \<Longrightarrow> pages s ++ cache(k := None) = pages s ++ cache"
  by (auto simp: map_add_def fun_eq_iff split: option.split)

end

section \<open>Storage with scoped access to pages\<close>

text \<open>
  What a heap file needs of the buffer pool: in a quiet state (no page in use) a page can be
  read, changed and created, and only the named page changes. The result is the one the
  client's function computes on the page.
\<close>

locale page_store =
  fixes quiet :: "'s \<Rightarrow> bool"
    and view :: "'s \<Rightarrow> 'k \<Rightarrow> 'v option"
    and writes :: "'s \<Rightarrow> bool"
    and next_key :: "'s \<Rightarrow> 'k option"
    and after :: "'k \<Rightarrow> 'k option"
    and read :: "'k \<Rightarrow> ('p \<Rightarrow> ('a, 'e) result) \<Rightarrow> ('s, 'a, 'e) act"
    and change :: "'k \<Rightarrow> ('p, 'b, 'e) act \<Rightarrow> ('s, 'b, 'e) act"
    and fresh :: "('p, 'c, 'e) act \<Rightarrow> ('s, 'k \<times> 'c, 'e) act"
    and is_page :: "'k \<Rightarrow> 'v \<Rightarrow> 'p \<Rightarrow> bool"
    and content :: "'p \<Rightarrow> 'v"
    and legal :: "'p \<Rightarrow> 'p \<Rightarrow> bool"
    and blank :: 'v
  assumes read: "quiet s \<Longrightarrow> view s k = Some v \<Longrightarrow>
      \<exists>p s'. read k f s = (f p, s') \<and> is_page k v p \<and> quiet s' \<and> view s' = view s
        \<and> writes s' = writes s \<and> next_key s' = next_key s"
    and change: "quiet s \<Longrightarrow> writes s \<Longrightarrow> view s k = Some v \<Longrightarrow>
      (\<And>p. is_page k v p \<Longrightarrow> legal p (snd (g p))) \<Longrightarrow>
      \<exists>p s'. change k g s = (fst (g p), s') \<and> is_page k v p \<and> quiet s'
        \<and> view s' = (view s)(k \<mapsto> content (snd (g p))) \<and> writes s' \<and> next_key s' = next_key s"
    and fresh: "quiet s \<Longrightarrow> writes s \<Longrightarrow> next_key s = Some k \<Longrightarrow>
      (\<And>p. is_page k blank p \<Longrightarrow> legal p (snd (h p))) \<Longrightarrow>
      \<exists>p s'. fresh h s = (and_then (fst (h p)) (\<lambda>x. Ok (k, x)), s') \<and> is_page k blank p \<and> quiet s'
        \<and> view s k = None \<and> view s' = (view s)(k \<mapsto> content (snd (h p))) \<and> writes s'
        \<and> next_key s' = after k"
begin

text \<open>Reading after a change: the changed page as the change left it, every other page as it
  was.\<close>

lemma read_after_change:
  assumes s: "quiet s" "writes s" "view s k = Some v"
    and legal: "\<And>p. is_page k v p \<Longrightarrow> legal p (snd (g p))"
    and run: "change k g s = (r, s')"
  shows "\<exists>p. is_page k v p \<and> r = fst (g p) \<and>
    (\<forall>j w. (if j = k then w = content (snd (g p)) else view s j = Some w) \<longrightarrow>
      (\<exists>q s''. read j f s' = (f q, s'') \<and> is_page j w q \<and> quiet s'' \<and> view s'' = view s'))"
proof -
  obtain p where p: "r = fst (g p)" "is_page k v p" "quiet s'" "view s' = (view s)(k \<mapsto> content (snd (g p)))"
    using change [OF s legal] run by auto
  have "\<exists>q s''. read j f s' = (f q, s'') \<and> is_page j w q \<and> quiet s'' \<and> view s'' = view s'"
    if "if j = k then w = content (snd (g p)) else view s j = Some w" for j w
    using read [OF p(3), of j w f] that p(4) by (auto split: if_splits)
  then show ?thesis using p by blast
qed

text \<open>A loop of reads that all succeed leaves the state as it is.\<close>

lemma loop:
  assumes "quiet s"
    and "\<And>k s'. k \<in> set ks \<Longrightarrow> quiet s' \<Longrightarrow> view s' = view s \<Longrightarrow>
      \<exists>s''. m k s' = (Ok (out k), s'') \<and> quiet s'' \<and> view s'' = view s' \<and> writes s'' = writes s' \<and> next_key s'' = next_key s'"
  shows "\<exists>s'. for_each m ks s = (Ok (concat (map out ks)), s') \<and> quiet s' \<and> view s' = view s
    \<and> writes s' = writes s \<and> next_key s' = next_key s"
  using assms
proof (induction ks arbitrary: s)
  case Nil
  then show ?case by (simp add: act_simps)
next
  case (Cons k ks)
  obtain s1 where s1: "m k s = (Ok (out k), s1)" "quiet s1" "view s1 = view s" "writes s1 = writes s" "next_key s1 = next_key s"
    using Cons.prems(2) [of k s] Cons.prems(1) by auto
  obtain s2 where "for_each m ks s1 = (Ok (concat (map out ks)), s2)" "quiet s2" "view s2 = view s1"
      "writes s2 = writes s1" "next_key s2 = next_key s1"
    using Cons.IH [OF s1(2)] Cons.prems(2) s1(3) by auto
  then show ?case using s1 by (auto simp: act_simps)
qed

end

end
