(* ===== verification/Slotted_Props.thy ===== *)
theory Slotted_Props
  imports Slotted_Refine Interfaces
begin

text \<open>
  The properties of the slotted page: validation decides the layout predicate, each
  operation refines the abstract page, a deleted RID stays dead along every run of
  operations, a shared view is never written, and two defects of the code.
\<close>

section \<open>A page to evaluate on\<close>

text \<open>A fresh page, and a fresh page with one record: the inputs of the witnesses.\<close>

definition fresh_page :: "page_id \<Rightarrow> slotted_page" where
  "fresh_page pid = \<lparr>backing = Owned (zeroed pid\<lparr>page_bytes := empty_layout, page_dirty := True\<rparr>)\<rparr>"

lemma slotted_new_eq: "slotted_new pid = Ok (fresh_page pid)"
  by (simp add: slotted_new_def initialize_page_eq fresh_page_def)

lemma fresh_page_fields [simp]:
  "sp_bytes (fresh_page pid) = empty_layout" "writable (fresh_page pid)" "sp_page_id (fresh_page pid) = pid"
  "page_slots (fresh_page pid) = []" "wf_page (fresh_page pid)"
  by (simp_all add: fresh_page_def sp_bytes_def page_ref_def writable_def sp_page_id_def zeroed_def page_slots_def
      empty_layout_slots wf_page_def wf_empty_layout)

lemma spec_free_Nil [simp]: "spec_free [] = 8160"
  by (simp add: spec_free_def)

lemma spec_first_reusable_simps [simp]:
  "spec_first_reusable [] = None"
  "spec_first_reusable [v] = (if is_reusable v then Some 0 else None)"
  by (simp_all add: spec_first_reusable_def)

lemma insert_fresh:
  assumes "length rec \<le> 8152"
  shows "\<exists>sp. sp_insert rec (fresh_page pid) = (Ok (rid_new pid 0 1), sp)
    \<and> page_slots sp = [Live 1 rec] \<and> same_page (fresh_page pid) sp"
  using insert_refines_ok [of "fresh_page pid" rec 0 1 "[Live 1 rec]"] assms
  by (simp add: spec_insert_outcome_def spec_insert_def)

section \<open>Validation\<close>

text \<open>C18. Opening a page validates it: \<open>validate\<close> never panics, and it accepts a page exactly
  when the header, the slot directory, the free-space bounds and the live count agree and no
  two live records overlap; any other page is refused as corrupt.\<close>

theorem validate_accepts_iff:
  assumes "length (sp_bytes sp) = PAGE_SIZE"
  shows "(validate sp = Ok () \<longleftrightarrow> valid_layout (sp_bytes sp))
    \<and> (\<not> valid_layout (sp_bytes sp) \<longleftrightarrow> (\<exists>e. validate sp = Err (SP_Corrupt e)))"
  using validate_cases [OF assms] by (auto split: if_splits)

theorem validate_accepts_iff_witness:
  "validate (fresh_page 7) = Ok ()"
  using validate_accepts_iff [of "fresh_page 7"] valid_empty_layout by (simp add: empty_layout_fields)

section \<open>The operations refine the abstract page\<close>

text \<open>C7. Insertion does what the abstract page says, on every branch: it fails, leaving the page
  untouched, with the error the free space of the page determines, or it stores the record in
  the first reusable slot (else a new one), keeps the page valid, its identity and its link,
  and returns the RID of that slot. It never panics.\<close>

theorem sp_insert_refines:
  assumes "wf_page sp" and "writable sp"
  shows "case spec_insert_outcome rec (page_slots sp) of
      Ok (k, g, xs) \<Rightarrow> \<exists>sp'. sp_insert rec sp = (Ok (rid_new (sp_page_id sp) (of_nat k) g), sp')
                        \<and> page_slots sp' = xs \<and> same_page sp sp'
    | Err e \<Rightarrow> sp_insert rec sp = (Err e, sp)
    | Panic \<Rightarrow> False"
  using insert_refines_ok [OF assms] insert_refines_err [OF assms(1)] spec_insert_outcome_not_Panic
  by (auto split: result.split)

theorem sp_insert_refines_witness:
  "\<exists>sp. sp_insert [110, 111] (fresh_page 3) = (Ok (rid_new 3 0 1), sp) \<and> page_slots sp = [Live 1 [110, 111]]"
  using sp_insert_refines [of "fresh_page 3" "[110, 111]"]
  by (auto simp: spec_insert_outcome_def spec_insert_def)

text \<open>C20. Deletion frees exactly the slot of a live RID: the slot becomes reusable with the next
  generation, or is retired when the generation is exhausted, and every other slot, the page's
  identity and its link stay; a RID that is not live is refused with the page untouched.\<close>

theorem sp_delete_refines:
  assumes "wf_page sp" and "writable sp"
  shows "if rid_page r = sp_page_id sp \<and> spec_get (unat (rid_slot r)) (rid_generation r) (page_slots sp) \<noteq> None
    then \<exists>sp'. sp_delete r sp = (Ok (), sp')
          \<and> page_slots sp' = spec_delete (unat (rid_slot r)) (rid_generation r) (page_slots sp)
          \<and> same_page sp sp'
    else sp_delete r sp = (Err (SP_InvalidRid r), sp)"
  using delete_refines_ok [OF assms] by (auto simp: sp_delete_eq [OF wf_page_valid [OF assms(1)]])

theorem sp_delete_refines_witness:
  "\<exists>sp sp'. sp_insert [1] (fresh_page 3) = (Ok (rid_new 3 0 1), sp)
     \<and> sp_delete (rid_new 3 0 1) sp = (Ok (), sp') \<and> page_slots sp' = [Reusable 2]"
proof -
  obtain sp where sp: "sp_insert [1] (fresh_page 3) = (Ok (rid_new 3 0 1), sp)"
      "page_slots sp = [Live 1 [1]]" "same_page (fresh_page 3) sp"
    using insert_fresh [of "[1]" 3] by auto
  then show ?thesis
    using sp_delete_refines [of sp "rid_new 3 0 1"]
    by (auto simp: same_page_def rid_new_def spec_get_def spec_delete_def)
qed

text \<open>C19. Compaction always succeeds on a valid page, changes no slot, generation or record, so
  every live RID keeps resolving to its bytes, and leaves all the free space contiguous.\<close>

theorem compact_refines:
  assumes "wf_page sp" and "writable sp"
  shows "\<exists>sp'. compact sp = (Ok (), sp') \<and> page_slots sp' = page_slots sp \<and> same_page sp sp'
    \<and> (\<forall>r. sp_get r sp' = sp_get r sp) \<and> contiguous_free_space sp' = Ok (spec_free (page_slots sp))"
proof -
  obtain sp' where sp': "compact sp = (Ok (), sp')" "page_slots sp' = page_slots sp" "same_page sp sp'"
      "contiguous_free_space sp' = Ok (spec_free (page_slots sp))"
    using compact_refines_ok [OF assms] by blast
  then have "sp_get r sp' = sp_get r sp" for r
    using wf_page_valid [OF assms(1)] wf_page_valid [of sp'] by (simp add: same_page_def sp_get_eq)
  then show ?thesis using sp' by blast
qed

theorem compact_refines_witness:
  "\<exists>sp'. compact (fresh_page 3) = (Ok (), sp') \<and> contiguous_free_space sp' = Ok 8160"
  using compact_refines [of "fresh_page 3"] by auto

text \<open>Lookup answers from the abstract page: a RID resolves exactly when its page, slot and
  generation match a live slot, and then to that slot's bytes; \<open>live_rids\<close> lists, in slot
  order and without repetition, exactly the RIDs that resolve.\<close>

theorem sp_get_refines:
  assumes "valid_layout (sp_bytes sp)"
  shows "sp_get r sp =
      (case (if rid_page r = sp_page_id sp
             then spec_get (unat (rid_slot r)) (rid_generation r) (page_slots sp) else None)
       of Some rec \<Rightarrow> Ok rec | None \<Rightarrow> Err (SP_InvalidRid r))
    \<and> (\<exists>rids. live_rids sp = Ok rids \<and> distinct rids \<and> sorted (map rid_slot rids)
        \<and> (r \<in> set rids \<longleftrightarrow> is_ok (sp_get r sp)))"
proof -
  let ?rids = "map (\<lambda>i. rid_new (sp_page_id sp) (of_nat i) (slot_gen (sp_bytes sp) i)) (live_slots (sp_bytes sp))"
  have small: "i < 65536" if "i \<in> set (live_slots (sp_bytes sp))" for i
    using that layoutD(2) [OF assms] by (simp add: set_live_slots live_set_def)
  then have "inj_on (\<lambda>i. rid_new (sp_page_id sp) (of_nat i) (slot_gen (sp_bytes sp) i)) (set (live_slots (sp_bytes sp)))"
    by (intro inj_onI) (metis rid.ext_inject rid_new_def unat_of_nat_u16)
  then have "distinct ?rids"
    by (simp add: distinct_map live_slots_def)
  moreover have "sorted (live_slots (sp_bytes sp))"
    by (simp add: live_slots_def sorted_wrt_filter)
  then have "sorted (map rid_slot ?rids)"
    using small by (auto simp: sorted_map rid_new_def word_le_nat_alt elim: sorted_wrt_mono_rel [rotated])
  moreover have "r \<in> set ?rids \<longleftrightarrow> is_ok (sp_get r sp)"
  proof -
    have "r \<in> set ?rids \<longleftrightarrow> rid_page r = sp_page_id sp \<and> unat (rid_slot r) \<in> live_set (sp_bytes sp)
        \<and> slot_gen (sp_bytes sp) (unat (rid_slot r)) = rid_generation r"
      using small by (cases r) (auto simp: set_live_slots rid_new_def image_iff intro!: bexI [of _ "unat (rid_slot r)"])
    then show ?thesis
      by (auto simp: sp_get_eq [OF assms] page_slots_def spec_get_slots [OF assms] split: option.splits if_splits)
  qed
  ultimately show ?thesis
    using sp_get_eq [OF assms, of r] live_rids_eq [OF layoutD(2) [OF assms]] by blast
qed

theorem sp_get_refines_witness:
  "\<exists>sp. sp_insert [9, 8] (fresh_page 3) = (Ok (rid_new 3 0 1), sp) \<and> sp_get (rid_new 3 0 1) sp = Ok [9, 8]"
proof -
  obtain sp where sp: "sp_insert [9, 8] (fresh_page 3) = (Ok (rid_new 3 0 1), sp)"
      "page_slots sp = [Live 1 [9, 8]]" "same_page (fresh_page 3) sp"
    using insert_fresh [of "[9, 8]" 3] by auto
  then show ?thesis
    using sp_get_refines [of sp "rid_new 3 0 1"] wf_page_valid [of sp]
    by (auto simp: same_page_def rid_new_def spec_get_def)
qed

text \<open>What a successful insertion gives its caller: the new RID resolves to the record, and
  every RID that resolved before is another one and still resolves to the same bytes.\<close>

theorem insert_then_get:
  assumes "wf_page sp" and "writable sp" and "sp_insert rec sp = (Ok r, sp')"
  shows "sp_get r sp' = Ok rec
    \<and> (\<forall>q b. sp_get q sp = Ok b \<longrightarrow> q \<noteq> r \<and> sp_get q sp' = Ok b)"
proof -
  obtain k g xs where ok: "spec_insert_outcome rec (page_slots sp) = Ok (k, g, xs)"
    using insert_refines_err [OF assms(1), of rec] assms(3) spec_insert_outcome_not_Panic
    by (cases "spec_insert_outcome rec (page_slots sp)") auto
  then have r: "r = rid_new (sp_page_id sp) (of_nat k) g" "page_slots sp' = xs" "same_page sp sp'"
    using insert_refines_ok [OF assms(1,2) ok] assms(3) by auto
  have spec: "spec_insert rec (page_slots sp) = (k, g, xs)"
    using ok by (auto simp: spec_insert_outcome_def Let_def split: if_splits)
  have v: "valid_layout (sp_bytes sp)" "valid_layout (sp_bytes sp')"
    using assms(1) r(3) wf_page_valid by (auto simp: same_page_def)
  have "k < length xs" and "length xs = nslots (sp_bytes sp')"
    using spec_insert_get(1) [OF spec] r(2) by (auto simp: spec_get_def page_slots_def split: if_splits)
  then have k: "k < 65536"
    using layoutD(2) [OF v(2)] by simp
  have pid: "sp_page_id sp' = sp_page_id sp"
    using r(3) by (simp add: same_page_def)
  have "sp_get r sp' = Ok rec"
    using k spec_insert_get(1) [OF spec] by (simp add: sp_get_eq [OF v(2)] r(1,2) pid rid_new_def)
  moreover have "q \<noteq> r \<and> sp_get q sp' = Ok b" if "sp_get q sp = Ok b" for q b
  proof -
    have q: "rid_page q = sp_page_id sp"
        "spec_get (unat (rid_slot q)) (rid_generation q) (page_slots sp) = Some b"
      using that by (auto simp: sp_get_eq [OF v(1)] split: if_splits option.splits)
    from spec_insert_get(2) [OF spec this(2)]
    have "unat (rid_slot q) \<noteq> k" and "spec_get (unat (rid_slot q)) (rid_generation q) xs = Some b"
      by auto
    then show ?thesis
      using q k by (auto simp: sp_get_eq [OF v(2)] r pid rid_new_def)
  qed
  ultimately show ?thesis by blast
qed

theorem insert_then_get_witness:
  "\<exists>sp. sp_insert [5] (fresh_page 1) = (Ok (rid_new 1 0 1), sp) \<and> sp_get (rid_new 1 0 1) sp = Ok [5]"
  using insert_fresh [of "[5]" 1] insert_then_get [of "fresh_page 1" "[5]" "rid_new 1 0 1"] by auto

section \<open>Runs of operations\<close>

text \<open>Any operation on an opened page, successful or not.\<close>

inductive page_step :: "slotted_page \<Rightarrow> slotted_page \<Rightarrow> bool" where
  step_insert: "sp_insert rec sp = (r, sp') \<Longrightarrow> page_step sp sp'"
| step_delete: "sp_delete q sp = (u, sp') \<Longrightarrow> page_step sp sp'"
| step_compact: "compact sp = (u, sp') \<Longrightarrow> page_step sp sp'"
| step_link: "set_next_page_id n sp = (u, sp') \<Longrightarrow> page_step sp sp'"

inductive_cases page_stepE: "page_step sp sp'"

text \<open>What an operation leaves of the abstract page.\<close>

lemma page_step_slots:
  assumes wf: "wf_page sp" and w: "writable sp" and step: "page_step sp sp'"
  shows "wf_page sp' \<and> writable sp' \<and> sp_page_id sp' = sp_page_id sp \<and>
    (page_slots sp' = page_slots sp
     \<or> (\<exists>rec k h. spec_insert rec (page_slots sp) = (k, h, page_slots sp'))
     \<or> (\<exists>j h. spec_get j h (page_slots sp) \<noteq> None \<and> page_slots sp' = spec_delete j h (page_slots sp)))"
  using step
proof (cases rule: page_step.cases)
  case (step_insert rec r)
  show ?thesis
  proof (cases "spec_insert_outcome rec (page_slots sp)")
    case (Ok x)
    obtain k g xs where x: "x = (k, g, xs)" by (cases x)
    have "spec_insert rec (page_slots sp) = (k, g, xs)"
      using Ok x by (auto simp: spec_insert_outcome_def Let_def split: if_splits)
    then show ?thesis
      using insert_refines_ok [OF wf w Ok [unfolded x]] step_insert w by (auto simp: same_page_def)
  next
    case (Err e)
    show ?thesis using insert_refines_err [OF wf Err] step_insert wf w by simp
  next
    case Panic
    then show ?thesis by (simp add: spec_insert_outcome_not_Panic)
  qed
next
  case (step_delete q u)
  show ?thesis
  proof (cases "rid_page q = sp_page_id sp \<and> spec_get (unat (rid_slot q)) (rid_generation q) (page_slots sp) \<noteq> None")
    case True
    then have "wf_page sp' \<and> writable sp' \<and> sp_page_id sp' = sp_page_id sp
        \<and> page_slots sp' = spec_delete (unat (rid_slot q)) (rid_generation q) (page_slots sp)"
      using delete_refines_ok [OF wf w, of q] step_delete w by (auto simp: same_page_def)
    then show ?thesis using True by blast
  next
    case False
    then show ?thesis
      using step_delete wf w by (auto simp: sp_delete_eq [OF wf_page_valid [OF wf]])
  qed
next
  case (step_compact u)
  then show ?thesis using compact_refines_ok [OF wf w] w by (auto simp: same_page_def)
next
  case (step_link n u)
  then show ?thesis using set_next_refines_ok [OF wf w, of n] by auto
qed

definition page_lookup :: "rid \<Rightarrow> slotted_page \<Rightarrow> bytes option" where
  "page_lookup r sp = (case sp_get r sp of Ok b \<Rightarrow> Some b | _ \<Rightarrow> None)"

definition rid_spent :: "rid \<Rightarrow> slotted_page \<Rightarrow> bool" where
  "rid_spent r sp \<longleftrightarrow> spent (unat (rid_slot r)) (rid_generation r) (page_slots sp)"

lemma page_lookup_eq:
  "wf_page sp \<Longrightarrow> page_lookup r sp =
     (if rid_page r = sp_page_id sp then spec_get (unat (rid_slot r)) (rid_generation r) (page_slots sp) else None)"
  by (auto simp: page_lookup_def sp_get_eq [OF wf_page_valid] split: option.split)

interpretation page: keyed_store "\<lambda>sp. wf_page sp \<and> writable sp" page_step page_lookup rid_spent
proof
  fix s s' :: slotted_page and k :: rid
  assume inv: "wf_page s \<and> writable s"
  show "page_lookup k s = None" if "rid_spent k s"
    using that inv by (simp add: page_lookup_eq rid_spent_def spent_get)
  assume step: "page_step s s'"
  show "wf_page s' \<and> writable s'"
    using page_step_slots inv step by blast
  show "rid_spent k s'" if "rid_spent k s"
    using page_step_slots [OF _ _ step] inv that spent_insert spent_other_delete
    unfolding rid_spent_def by metis
qed

text \<open>Generations keep stale RIDs dead: once a RID has been deleted, no sequence of inserts,
  deletes, compactions and link changes, successful or not, makes it resolve again, even
  though its slot is given to other records. The page stays valid along the run.\<close>

theorem deleted_rid_stays_dead:
  assumes "wf_page sp" and "writable sp" and "sp_delete r sp = (Ok (), sp1)"
    and "page_step\<^sup>*\<^sup>* sp1 sp2"
  shows "sp_get r sp2 = Err (SP_InvalidRid r) \<and> validate sp2 = Ok ()"
proof -
  note valid = wf_page_valid [OF assms(1)]
  have live: "rid_page r = sp_page_id sp" "spec_get (unat (rid_slot r)) (rid_generation r) (page_slots sp) \<noteq> None"
    using assms(3) by (auto simp: sp_delete_eq [OF valid] page_slots_def split: if_splits)
  have sp1: "wf_page sp1 \<and> writable sp1" "rid_spent r sp1"
    using delete_refines_ok [OF assms(1,2) live] assms(2,3) live(2)
    by (auto simp: same_page_def rid_spent_def intro: spent_delete)
  have "wf_page sp2 \<and> writable sp2" and "page_lookup r sp2 = None"
    using page.run_invar [OF assms(4) sp1(1)] page.spent_forever [OF assms(4) sp1] by auto
  then show ?thesis
    using wf_page_valid [of sp2] validate_cases [of sp2] layoutD(1) [of "sp_bytes sp2"]
    by (auto simp: page_lookup_def sp_get_eq split: option.splits if_splits)
qed

theorem deleted_rid_stays_dead_witness:
  "\<exists>sp sp1 sp2. sp_insert [1] (fresh_page 3) = (Ok (rid_new 3 0 1), sp)
     \<and> sp_delete (rid_new 3 0 1) sp = (Ok (), sp1) \<and> compact sp1 = (Ok (), sp2)
     \<and> sp_get (rid_new 3 0 1) sp2 = Err (SP_InvalidRid (rid_new 3 0 1))"
proof -
  obtain sp where sp: "sp_insert [1] (fresh_page 3) = (Ok (rid_new 3 0 1), sp)"
      "page_slots sp = [Live 1 [1]]" "same_page (fresh_page 3) sp"
    using insert_fresh [of "[1]" 3] by auto
  then have wf: "wf_page sp" "writable sp" "sp_page_id sp = 3" by (simp_all add: same_page_def)
  then obtain sp1 where sp1: "sp_delete (rid_new 3 0 1) sp = (Ok (), sp1)" "same_page sp sp1"
    using delete_refines_ok [of sp "rid_new 3 0 1"] sp(2) by (auto simp: rid_new_def spec_get_def)
  then obtain sp2 where sp2: "compact sp1 = (Ok (), sp2)"
    using compact_refines_ok [of sp1] wf by (auto simp: same_page_def)
  have "page_step\<^sup>*\<^sup>* sp1 sp2"
    using sp2 by (blast intro: step_compact)
  from deleted_rid_stays_dead [OF wf(1,2) sp1(1) this] show ?thesis
    using sp(1) sp1(1) sp2 by blast
qed

section \<open>Shared views\<close>

text \<open>An action that leaves a shared view as it is.\<close>

definition respects_shared :: "'a sp_act \<Rightarrow> bool" where
  "respects_shared m \<longleftrightarrow> (\<forall>sp. \<not> writable sp \<longrightarrow> snd (m sp) = sp)"

named_theorems shared_intros

lemma respects_shared_basic [shared_intros]:
  "respects_shared (ret x)" "respects_shared (fail e)" "respects_shared (query f)" "respects_shared (page_mut w)"
  by (auto simp: respects_shared_def act_simps page_mut_def writable_def split: page_backing.splits)

lemma respects_shared_bind [shared_intros]:
  assumes "respects_shared m" and "\<And>x. respects_shared (f x)"
  shows "respects_shared (bind_act m f)"
  using assms by (force simp: respects_shared_def act_simps split: prod.splits result.splits)

lemma respects_shared_seq [shared_intros]:
  "respects_shared m \<Longrightarrow> respects_shared k \<Longrightarrow> respects_shared (seq_act m k)"
  unfolding seq_act_def by (rule respects_shared_bind)

lemma respects_shared_offsets [shared_intros]: "respects_shared (write_offsets xs)"
  by (induction xs) (auto simp: write_slot_u16_def intro!: shared_intros)

lemma respects_shared_compact [shared_intros]: "respects_shared compact"
  by (auto simp: compact_def write_header_u16_def intro!: shared_intros split: prod.split if_split)

lemma respects_shared_make_room [shared_intros]: "respects_shared (insert_make_room rec growth required)"
  by (auto simp: insert_make_room_def intro!: shared_intros split: if_split)

lemma respects_shared_write [shared_intros]: "respects_shared (insert_write rec n slot)"
  by (auto simp: insert_write_def write_header_u16_def write_slot_u16_def intro!: shared_intros split: option.split)

lemma respects_shared_ops:
  "respects_shared (sp_insert rec)" "respects_shared (sp_delete r)" "respects_shared (set_next_page_id n)"
  by (auto simp: sp_insert_def sp_delete_def set_next_page_id_def Let_def write_header_u16_def write_slot_u16_def
      intro!: shared_intros split: prod.split)

text \<open>A page opened through a shared reference is never written: whatever its bytes, every
  mutating operation, run to whatever result, leaves it exactly as it was.\<close>

theorem shared_page_never_written:
  assumes "\<not> writable sp" and "page_step\<^sup>*\<^sup>* sp sp'"
  shows "sp' = sp"
  using assms(2,1)
proof (induction rule: rtranclp_induct)
  case (step y z)
  then have y: "y = sp" "\<not> writable y" by auto
  from step.hyps(2) have "z = y"
    using respects_shared_ops respects_shared_compact y(2)
    by (cases rule: page_step.cases) (metis respects_shared_def snd_conv)+
  with y show ?case by simp
qed simp

theorem shared_page_never_written_witness:
  "snd (sp_insert [1] \<lparr>backing = Shared (zeroed 4)\<rparr>) = \<lparr>backing = Shared (zeroed 4)\<rparr>"
proof -
  let ?sp = "\<lparr>backing = Shared (zeroed 4)\<rparr>"
  have "page_step ?sp (snd (sp_insert [1] ?sp))"
    by (rule step_insert) (rule prod.collapse [symmetric])
  then have "page_step\<^sup>*\<^sup>* ?sp (snd (sp_insert [1] ?sp))" by blast
  from shared_page_never_written [OF _ this] show ?thesis by (simp add: writable_def)
qed

section \<open>Two defects\<close>

text \<open>A valid page with less room than a slot entry answers an insertion that needs a new
  slot with a corruption error, not with the no-space error its callers handle: the free
  space is computed with a subtraction that goes below zero.\<close>

theorem full_page_reports_corruption:
  assumes "wf_page sp" and "spec_first_reusable (page_slots sp) = None"
    and "spec_free (page_slots sp) < SLOT_ENTRY_SIZE" and "length rec \<le> 65535"
  shows "validate sp = Ok ()
    \<and> sp_insert rec sp = (Err (SP_Corrupt ''page metadata and live records exceed page size''), sp)"
proof -
  have "validate sp = Ok ()"
    using validate_cases [of sp] wf_page_valid [OF assms(1)] layoutD(1) by auto
  then show ?thesis
    using insert_refines_err [OF assms(1)] assms(2-4) by (simp add: spec_insert_outcome_def)
qed

theorem full_page_reports_corruption_witness:
  "\<exists>sp. sp_insert (replicate 8152 0) (fresh_page 3) = (Ok (rid_new 3 0 1), sp)
    \<and> sp_insert [1] sp = (Err (SP_Corrupt ''page metadata and live records exceed page size''), sp)"
proof -
  obtain sp where sp: "sp_insert (replicate 8152 0) (fresh_page 3) = (Ok (rid_new 3 0 1), sp)"
      "page_slots sp = [Live 1 (replicate 8152 0)]" "same_page (fresh_page 3) sp"
    using insert_fresh [of "replicate 8152 0" 3] by auto
  then show ?thesis
    using full_page_reports_corruption [of sp "[1]"] by (auto simp: same_page_def spec_free_def)
qed

text \<open>C40. Validation accepts a page whose first slot is reusable with generation zero, and the
  insertion that follows succeeds, gives out a RID of generation zero and leaves a page
  that validation refuses, so that the heap cannot be opened again.\<close>

theorem reusable_generation_zero:
  "\<exists>sp sp' e. validate sp = Ok () \<and> writable sp
    \<and> sp_insert [7] sp = (Ok (rid_new (sp_page_id sp) 0 0), sp') \<and> validate sp' = Err (SP_Corrupt e)"
proof -
  let ?bs = "upd_header 10 40 (upd_header 8 1 empty_layout)"
  let ?sp = "sp_update ?bs (fresh_page 3)"
  let ?cs = "insert_bytes False 0 0 [7] ?bs"
  have zeros: "sfield empty_layout 0 k = 0" if "slot_word k" for k
    using that by (auto simp: frame_simps empty_layout_def sfield_def from_le_zeros)
  have f: "length ?bs = PAGE_SIZE" "nslots ?bs = 1" "free_lo ?bs = 40" "free_hi ?bs = 8192" "nlive ?bs = 0"
      "header_ok ?bs" "\<not> is_live ?bs 0" "slot_flags ?bs 0 = 0" "slot_gen ?bs 0 = 0" "rec_off ?bs 0 = 0" "rec_len ?bs 0 = 0"
    by (simp_all add: field_defs is_live_def zeros frame_simps empty_layout_fields
        header_ok_frame [of _ empty_layout])
  have valid: "valid_layout ?bs"
    by (rule valid_layoutI) (use f in \<open>auto simp: slot_ok_def live_set_def less_Suc_eq\<close>)
  have slots: "page_slots ?sp = [Reusable 0]"
    using f by (simp add: page_slots_def slots_of_def slot_at_def)
  have run: "sp_insert [7] ?sp = (Ok (rid_new (sp_page_id ?sp) 0 0), sp_update ?cs ?sp)"
    using insert_write_eq [of ?sp "[7]" "Some 0"] valid f slots
    by (simp add: sp_insert_def act_simps insert_make_room_def u16_try_from_def sub_usize_def Let_def
        find_reusable_slot_eq page_slots_def)
  have "is_live ?cs 0" "slot_gen ?cs 0 = 0" "nslots ?cs = 1"
    using f by (simp_all add: insert_bytes_def Let_def is_live_def field_defs frame_simps)
  then have "\<not> valid_layout ?cs"
    using layoutD(7) [of ?cs 0] by (auto simp: slot_ok_def)
  moreover have "length ?cs = PAGE_SIZE"
    using f by (simp add: insert_bytes_def Let_def)
  ultimately obtain e where "validate (sp_update ?cs ?sp) = Err (SP_Corrupt e)"
    using validate_cases [of "sp_update ?cs ?sp"] by auto
  moreover have "validate ?sp = Ok ()"
    using validate_cases [of ?sp] valid f by simp
  ultimately show ?thesis
    using run by (intro exI [of _ ?sp] exI [of _ "sp_update ?cs ?sp"] exI [of _ e]) simp
qed

end
