(* ===== verification/Disk_Facts.thy ===== *)
theory Disk_Facts
  imports Disk
begin

text \<open>
  The database file as its header and its pages: the header codec, the invariant
  \<open>disk_ok\<close> (the file holds the header the manager has in memory, and all allocated
  pages), and what each operation does to header and pages when no call fails.
\<close>

section \<open>The header codec\<close>

lemma slice_4: "off + 4 \<le> length bs \<Longrightarrow>
    [bs ! off, bs ! (off + 1), bs ! (off + 2), bs ! (off + 3)] = slice off 4 bs"
  by (rule nth_equalityI) (auto simp: nth_slice nth_Cons add.commute numeral_3_eq_3 split: nat.split)

lemma slice_2: "off + 2 \<le> length bs \<Longrightarrow> [bs ! off, bs ! (off + 1)] = slice off 2 bs"
  by (rule nth_equalityI) (auto simp: nth_slice nth_Cons split: nat.split)

lemma disk_read_eq:
  "off + 4 \<le> length bs \<Longrightarrow> disk_read_u32 bs off = from_le (slice off 4 bs)"
  "off + 2 \<le> length bs \<Longrightarrow> disk_read_u16 bs off = from_le (slice off 2 bs)"
  unfolding disk_read_u32_def disk_read_u16_def by (simp_all only: slice_4 slice_2)

lemma length_encode_header [simp]: "length (encode_header h) = PAGE_SIZE"
  by (simp add: encode_header_def Let_def)

text \<open>The headers that have an encoding of their own.\<close>

definition header_wf :: "database_header \<Rightarrow> bool" where
  "header_wf h \<longleftrightarrow> header_next_page_id h \<noteq> 0 \<and> header_catalog_root h \<noteq> Some NO_CATALOG_ROOT"

lemma encode_header_fields:
  "slice 0 8 (encode_header h) = DATABASE_MAGIC"
  "disk_read_u16 (encode_header h) 8 = 1"
  "disk_read_u32 (encode_header h) 12 = as_u32 PAGE_SIZE"
  "disk_read_u32 (encode_header h) 16 = header_next_page_id h"
  "disk_read_u32 (encode_header h) 20 = (case header_catalog_root h of None \<Rightarrow> NO_CATALOG_ROOT | Some p \<Rightarrow> p)"
  by (simp_all add: disk_read_eq encode_header_def frame_simps)

lemma decode_encode_header: "header_wf h \<Longrightarrow> decode_header (encode_header h) = Ok h"
  by (cases h; cases "header_catalog_root h")
    (auto simp: decode_header_def encode_header_fields header_wf_def word_less_nat_alt word_le_nat_alt
      unat_eq_zero simp del: unat_gt_0)

lemma decode_header_wf: "decode_header bs = Ok h \<Longrightarrow> header_wf h"
  by (auto simp: decode_header_def Let_def header_wf_def word_less_nat_alt split: if_splits)

section \<open>Writing bytes into the file\<close>

lemma length_write_at: "length (write_at off src bs) = max (length bs) (off + length src)"
  by (auto simp: write_at_def Let_def)

lemma nth_write_at:
  "i < length bs \<Longrightarrow> write_at off src bs ! i = (if off \<le> i \<and> i < off + length src then src ! (i - off) else bs ! i)"
  by (auto simp: write_at_def Let_def nth_splice nth_append)

lemma slice_write_at_same: "slice off (length src) (write_at off src bs) = src"
  by (simp add: write_at_def Let_def)

lemma slice_write_at_other:
  assumes "o' + n \<le> off \<or> off + length src \<le> o'" and "o' + n \<le> length bs"
  shows "slice o' n (write_at off src bs) = slice o' n bs"
proof (rule nth_equalityI)
  show "length (slice o' n (write_at off src bs)) = length (slice o' n bs)"
    using assms by (simp add: length_slice length_write_at)
  show "slice o' n (write_at off src bs) ! i = slice o' n bs ! i" if "i < length (slice o' n (write_at off src bs))" for i
    using that assms by (auto simp: length_slice length_write_at nth_slice nth_write_at)
qed

section \<open>The invariant\<close>

abbreviation (input) next_id :: "disk_manager \<Rightarrow> page_id" where
  "next_id d \<equiv> header_next_page_id (disk_header d)"

abbreviation (input) disk_bytes :: "disk_manager \<Rightarrow> bytes" where
  "disk_bytes d \<equiv> file_data (disk_file d)"

definition allocated :: "page_id \<Rightarrow> disk_manager \<Rightarrow> bool" where
  "allocated pid d \<longleftrightarrow> pid \<noteq> 0 \<and> pid < next_id d"

text \<open>The abstract file: its pages by identifier.\<close>

definition page_on_disk :: "page_id \<Rightarrow> disk_manager \<Rightarrow> bytes" where
  "page_on_disk pid d = slice (unat pid * PAGE_SIZE) PAGE_SIZE (disk_bytes d)"

definition disk_pages :: "disk_manager \<Rightarrow> page_id \<Rightarrow> bytes option" where
  "disk_pages d pid = (if allocated pid d then Some (page_on_disk pid d) else None)"

definition disk_ok :: "disk_manager \<Rightarrow> bool" where
  "disk_ok d \<longleftrightarrow> header_wf (disk_header d) \<and> slice 0 PAGE_SIZE (disk_bytes d) = encode_header (disk_header d)
     \<and> unat (next_id d) * PAGE_SIZE \<le> length (disk_bytes d)
     \<and> PAGE_SIZE dvd length (disk_bytes d) \<and> length (disk_bytes d) < usize_limit
     \<and> file_writable (disk_file d) = (\<not> disk_read_only d)"

text \<open>No call on the file is going to fail.\<close>

definition healthy :: "disk_manager \<Rightarrow> bool" where
  "healthy d \<longleftrightarrow> file_faults (disk_file d) = []"

lemma ensure_allocated_iff: "ensure_allocated_data_page pid d = Ok () \<longleftrightarrow> allocated pid d"
  by (auto simp: ensure_allocated_data_page_def allocated_def)

lemma ensure_allocated_ok: "allocated pid d \<Longrightarrow> ensure_allocated_data_page pid d = Ok ()"
  by (simp add: ensure_allocated_iff)

lemma allocated_in_file:
  "disk_ok d \<Longrightarrow> allocated pid d \<Longrightarrow> unat pid * PAGE_SIZE + PAGE_SIZE \<le> length (disk_bytes d)"
  by (auto simp: disk_ok_def allocated_def word_less_nat_alt)

lemma allocated_pos: "allocated pid d \<Longrightarrow> 1 \<le> unat pid"
  by (metis One_nat_def Suc_leI allocated_def unat_gt_0 word_gt_0)

lemma pages_apart:
  "pid \<noteq> q \<Longrightarrow> unat q * PAGE_SIZE + PAGE_SIZE \<le> unat pid * PAGE_SIZE \<or> unat pid * PAGE_SIZE + PAGE_SIZE \<le> unat (q :: page_id) * PAGE_SIZE"
proof -
  assume "pid \<noteq> q"
  then have "unat pid < unat q \<or> unat q < unat pid"
    by (metis linorder_neqE_nat word_unat_eq_iff)
  then show ?thesis by auto
qed

section \<open>The operations when no call fails\<close>

lemma file_ops_healthy [simp]:
  assumes "file_faults f = []"
  shows "file_seek off f = (Ok (), f\<lparr>file_pos := off\<rparr>)"
    and "file_writable f \<Longrightarrow> src \<noteq> [] \<Longrightarrow> file_write_all src f =
      (Ok (), f\<lparr>file_data := write_at (file_pos f) src (file_data f), file_pos := file_pos f + length src\<rparr>)"
    and "file_pos f + n \<le> length (file_data f) \<Longrightarrow> file_read_exact n f =
      (Ok (slice (file_pos f) n (file_data f)), f\<lparr>file_pos := file_pos f + n\<rparr>)"
    and "file_sync_all f = (Ok (), f)"
    and "file_len f = (Ok (length (file_data f)), f)"
  using assms
  by (simp_all add: file_seek_def file_write_all_def file_read_exact_def file_sync_all_def file_len_def
      next_fault_def drop_fault_def)

lemma nonempty_page: "length src = PAGE_SIZE \<Longrightarrow> src \<noteq> []"
  by auto

lemma unat_file_offset_0 [simp]: "unat (file_offset 0) = 0"
  by (simp add: unat_file_offset)

lemma persist_header_healthy:
  assumes "healthy d" and "file_writable (disk_file d)"
  shows "persist_header d = (Ok (),
    d\<lparr>disk_file := (disk_file d)\<lparr>file_data := write_at 0 (encode_header (disk_header d)) (disk_bytes d), file_pos := PAGE_SIZE\<rparr>\<rparr>)"
  using assms
  by (simp add: persist_header_def on_file_def write_header_to_file_def io_err_def act_simps healthy_def
      nonempty_page)

lemma write_page_bytes_healthy:
  assumes "healthy d" and "file_writable (disk_file d)" and "length bs = PAGE_SIZE"
  shows "write_page_bytes pid bs d = (Ok (),
    d\<lparr>disk_file := (disk_file d)\<lparr>file_data := write_at (unat pid * PAGE_SIZE) bs (disk_bytes d),
        file_pos := unat pid * PAGE_SIZE + PAGE_SIZE\<rparr>\<rparr>)"
  using assms
  by (simp add: write_page_bytes_def seek_to_page_def on_file_def io_err_def act_simps healthy_def
      nonempty_page unat_file_offset)

lemma disk_read_page_healthy:
  assumes "healthy d" and "disk_ok d" and "allocated pid d"
  shows "\<exists>d'. disk_read_page pid d = (Ok (from_bytes pid (page_on_disk pid d)), d')
    \<and> disk_header d' = disk_header d \<and> disk_bytes d' = disk_bytes d \<and> disk_read_only d' = disk_read_only d
    \<and> disk_ok d' \<and> healthy d'"
  using assms allocated_in_file [OF assms(2,3)]
  by (auto simp: disk_read_page_def act_simps ensure_allocated_ok seek_to_page_def on_file_def io_err_def
      healthy_def unat_file_offset page_on_disk_def disk_ok_def)

lemma disk_write_page_healthy:
  assumes h: "healthy d" and ok: "disk_ok d" and rw: "\<not> disk_read_only d"
    and alloc: "allocated (page_ident p) d" and sized: "page_sized p"
  shows "\<exists>d'. disk_write_page p d = (Ok (mark_clean p), d')
    \<and> disk_header d' = disk_header d \<and> disk_read_only d' = disk_read_only d \<and> disk_ok d' \<and> healthy d'
    \<and> disk_pages d' = (disk_pages d)(page_ident p \<mapsto> page_bytes p)"
proof -
  let ?off = "unat (page_ident p) * PAGE_SIZE"
  let ?d = "d\<lparr>disk_file := (disk_file d)\<lparr>file_data := write_at ?off (page_bytes p) (disk_bytes d),
        file_pos := ?off + PAGE_SIZE\<rparr>\<rparr>"
  have fw: "file_writable (disk_file d)" and len: "length (page_bytes p) = PAGE_SIZE"
    using ok rw sized by (simp_all add: disk_ok_def page_sized_def)
  have run: "disk_write_page p d = (Ok (mark_clean p), ?d)"
    using rw alloc write_page_bytes_healthy [OF h fw len]
    by (simp add: disk_write_page_def act_simps ensure_writable_def ensure_allocated_ok)
  note inside = allocated_in_file [OF ok alloc]
  have hdr: "slice 0 PAGE_SIZE (write_at ?off (page_bytes p) (disk_bytes d)) = slice 0 PAGE_SIZE (disk_bytes d)"
    using allocated_pos [OF alloc] inside by (intro slice_write_at_other) auto
  have "disk_ok ?d"
    using ok hdr inside len by (auto simp: disk_ok_def length_write_at max_def)
  moreover have "disk_pages ?d = (disk_pages d)(page_ident p \<mapsto> page_bytes p)"
  proof
    fix q
    show "disk_pages ?d q = ((disk_pages d)(page_ident p \<mapsto> page_bytes p)) q"
    proof (cases "q = page_ident p")
      case True
      then show ?thesis
        using alloc len slice_write_at_same [of ?off "page_bytes p" "disk_bytes d"]
        by (simp add: disk_pages_def page_on_disk_def allocated_def)
    next
      case False
      then show ?thesis
        using pages_apart [of q "page_ident p"] allocated_in_file [OF ok, of q] len
        by (auto simp: disk_pages_def page_on_disk_def allocated_def slice_write_at_other)
    qed
  qed
  ultimately show ?thesis
    using run h by (simp add: healthy_def)
qed

lemma disk_allocate_page_healthy:
  assumes h: "healthy d" and ok: "disk_ok d" and rw: "\<not> disk_read_only d" and room: "next_id d \<noteq> - 1"
  shows "\<exists>d'. disk_allocate_page d = (Ok (zeroed (next_id d)), d')
    \<and> disk_header d' = (disk_header d)\<lparr>header_next_page_id := next_id d + 1\<rparr>
    \<and> disk_read_only d' = disk_read_only d \<and> disk_ok d' \<and> healthy d'
    \<and> disk_pages d' = (disk_pages d)(next_id d \<mapsto> replicate PAGE_SIZE 0)"
proof -
  let ?n = "next_id d" and ?z = "replicate PAGE_SIZE (0 :: u8)"
  let ?off = "unat ?n * PAGE_SIZE" and ?h = "(disk_header d)\<lparr>header_next_page_id := next_id d + 1\<rparr>"
  let ?bs1 = "write_at ?off ?z (disk_bytes d)"
  let ?bs = "write_at 0 (encode_header ?h) ?bs1"
  let ?d = "d\<lparr>disk_file := (disk_file d)\<lparr>file_data := ?bs, file_pos := PAGE_SIZE\<rparr>, disk_header := ?h\<rparr>"
  have fw: "file_writable (disk_file d)"
    using ok rw by (simp add: disk_ok_def)
  have run: "disk_allocate_page d = (Ok (zeroed ?n), ?d)"
    using rw room write_page_bytes_healthy [OF h fw, of ?z ?n] h fw
    by (simp add: disk_allocate_page_def act_simps ensure_writable_def Let_def zeroed_def
        persist_header_healthy healthy_def)
  have n: "?n \<noteq> 0" "?off \<le> length (disk_bytes d)" "1 \<le> unat ?n"
    using ok by (auto simp: disk_ok_def header_wf_def unat_gt_0 Suc_le_eq)
  have next_n: "unat (?n + 1) = unat ?n + 1"
    using room unat_u32_less [of ?n] unat_u32_max [of ?n] by (intro unat_plus_one) simp
  have lens: "length ?bs = max (length (disk_bytes d)) (?off + PAGE_SIZE)"
    using n by (simp add: length_write_at)
  have page: "slice (unat q * PAGE_SIZE) PAGE_SIZE ?bs =
      (if q = ?n then ?z else slice (unat q * PAGE_SIZE) PAGE_SIZE (disk_bytes d))"
    if "1 \<le> unat q" "q = ?n \<or> unat q * PAGE_SIZE + PAGE_SIZE \<le> length (disk_bytes d)" for q
  proof -
    have "slice (unat q * PAGE_SIZE) PAGE_SIZE ?bs = slice (unat q * PAGE_SIZE) PAGE_SIZE ?bs1"
      using that by (intro slice_write_at_other) (auto simp: length_write_at)
    then show ?thesis
      using that(2) pages_apart [of q ?n] slice_write_at_same [of ?off ?z "disk_bytes d"]
      by (auto simp: slice_write_at_other)
  qed
  have "?off + PAGE_SIZE < usize_limit"
    using unat_u32_less [of ?n] by simp
  moreover have "PAGE_SIZE dvd max (length (disk_bytes d)) (?off + PAGE_SIZE)"
    using ok by (auto simp: disk_ok_def max_def)
  moreover have "slice 0 PAGE_SIZE ?bs = encode_header ?h"
    using slice_write_at_same [of 0 "encode_header ?h" ?bs1] by simp
  moreover have "header_wf ?h"
    using ok next_n by (auto simp: disk_ok_def header_wf_def)
  ultimately have "disk_ok ?d"
    using ok next_n lens by (auto simp: disk_ok_def)
  moreover have "disk_pages ?d = (disk_pages d)(?n \<mapsto> ?z)"
  proof
    fix q
    have "allocated q ?d \<longleftrightarrow> q = ?n \<or> allocated q d"
      using n next_n by (auto simp: allocated_def word_less_nat_alt word_unat_eq_iff)
    then show "disk_pages ?d q = ((disk_pages d)(?n \<mapsto> ?z)) q"
      using page [of q] allocated_pos [of q d] allocated_in_file [OF ok, of q] n
      by (auto simp: disk_pages_def page_on_disk_def)
  qed
  ultimately show ?thesis
    using run h by (simp add: healthy_def)
qed

lemma set_catalog_root_healthy:
  assumes h: "healthy d" and ok: "disk_ok d" and rw: "\<not> disk_read_only d" and alloc: "allocated pid d"
    and unset: "header_catalog_root (disk_header d) = None"
  shows "\<exists>d'. set_catalog_root pid d = (Ok (), d')
    \<and> disk_header d' = (disk_header d)\<lparr>header_catalog_root := Some pid\<rparr>
    \<and> disk_read_only d' = disk_read_only d \<and> disk_ok d' \<and> healthy d' \<and> disk_pages d' = disk_pages d"
proof -
  let ?h = "(disk_header d)\<lparr>header_catalog_root := Some pid\<rparr>"
  let ?bs = "write_at 0 (encode_header ?h) (disk_bytes d)"
  let ?d = "d\<lparr>disk_header := ?h, disk_file := (disk_file d)\<lparr>file_data := ?bs, file_pos := PAGE_SIZE\<rparr>\<rparr>"
  have fw: "file_writable (disk_file d)"
    using ok rw by (simp add: disk_ok_def)
  have run: "set_catalog_root pid d = (Ok (), ?d)"
    using rw alloc unset h fw
    by (simp add: set_catalog_root_def act_simps ensure_writable_def ensure_allocated_ok
        persist_header_healthy healthy_def)
  have n: "PAGE_SIZE \<le> length (disk_bytes d)"
    using allocated_in_file [OF ok alloc] by simp
  have "pid \<noteq> NO_CATALOG_ROOT"
    using alloc unat_u32_less [of "next_id d"] by (auto simp: allocated_def word_less_nat_alt)
  then have "disk_ok ?d"
    using ok n slice_write_at_same [of 0 "encode_header ?h" "disk_bytes d"]
    by (auto simp: disk_ok_def header_wf_def length_write_at max_def)
  moreover have "disk_pages ?d q = disk_pages d q" for q
    using allocated_pos [of q d] allocated_in_file [OF ok, of q]
    by (auto simp: disk_pages_def page_on_disk_def allocated_def slice_write_at_other)
  ultimately show ?thesis
    using run h by (auto simp: healthy_def)
qed

lemma disk_sync_healthy: "healthy d \<Longrightarrow> disk_sync d = (Ok (), d)"
  by (simp add: disk_sync_def on_file_def io_err_def act_simps healthy_def)

end
