(* ===== verification/Disk_Props.thy ===== *)
theory Disk_Props
  imports Disk_Facts Interfaces
begin

text \<open>
  The properties of the disk manager: the header codec, the abstract file (a map from page
  identifiers to contents) and what the operations do to it, reopening, and what holds
  under every script of I/O failures.
\<close>

section \<open>A database to evaluate on\<close>

definition fresh_header :: database_header where
  "fresh_header = \<lparr>header_next_page_id = 1, header_catalog_root = None\<rparr>"

definition fresh_disk :: disk_manager where
  "fresh_disk =
     \<lparr>disk_path = ''db'',
      disk_file = \<lparr>file_data = encode_header fresh_header, file_pos = PAGE_SIZE, file_writable = True, file_faults = []\<rparr>,
      disk_header = fresh_header, disk_read_only = False\<rparr>"

lemma write_at_empty: "write_at 0 src [] = src"
  by (simp add: write_at_def Let_def splice_whole)

lemma disk_create_eq: "disk_create ''db'' None [] = (Ok fresh_disk, Some (disk_bytes fresh_disk))"
  by (simp add: disk_create_def fresh_disk_def fresh_header_def write_header_to_file_def io_err_def act_simps
      nonempty_page write_at_empty Let_def)

lemma fresh_disk_ok [simp]: "disk_ok fresh_disk" "healthy fresh_disk" "\<not> disk_read_only fresh_disk"
  "next_id fresh_disk = 1" "disk_pages fresh_disk = (\<lambda>_. None)" "header_catalog_root (disk_header fresh_disk) = None"
  by (auto simp: fresh_disk_def disk_ok_def header_wf_def fresh_header_def healthy_def disk_pages_def
      allocated_def word_less_nat_alt unat_eq_zero fun_eq_iff)

section \<open>Round trips\<close>

text \<open>The header of a database survives the trip through page zero, and decoding only
  yields headers that do: whatever 8192 bytes it accepts, encoding the result again gives
  bytes with the same meaning.\<close>

theorem database_header_roundtrip:
  "(header_next_page_id h \<noteq> 0 \<and> header_catalog_root h \<noteq> Some NO_CATALOG_ROOT
      \<longrightarrow> decode_header (encode_header h) = Ok h)
   \<and> (decode_header bs = Ok h \<longrightarrow> decode_header (encode_header h) = Ok h)"
  using decode_encode_header [of h] decode_header_wf [of bs h] by (auto simp: header_wf_def)

theorem database_header_roundtrip_witness:
  "decode_header (encode_header \<lparr>header_next_page_id = 7, header_catalog_root = Some 3\<rparr>)
     = Ok \<lparr>header_next_page_id = 7, header_catalog_root = Some 3\<rparr>"
  using database_header_roundtrip [of "\<lparr>header_next_page_id = 7, header_catalog_root = Some 3\<rparr>"] by simp

lemma reopen_disk:
  assumes "disk_ok d"
  shows "\<exists>d'. open_with_mode path ro (Some (file_data (disk_file d))) [] = Ok d'
    \<and> disk_header d' = disk_header d \<and> disk_pages d' = disk_pages d \<and> disk_read_only d' = ro
    \<and> disk_ok d' \<and> healthy d'"
proof -
  let ?bs = "disk_bytes d"
  let ?f = "\<lparr>file_data = ?bs, file_pos = PAGE_SIZE, file_writable = \<not> ro, file_faults = []\<rparr>"
  have len: "unat (of_nat (length ?bs) :: u64) = length ?bs"
    using assms by (simp add: disk_ok_def unat_of_nat take_bit_nat_eq_self)
  have "1 \<le> unat (next_id d)"
    using assms by (metis One_nat_def Suc_leI neq0_conv unat_eq_zero disk_ok_def header_wf_def)
  then have size: "PAGE_SIZE \<le> length ?bs"
    using assms by (auto simp: disk_ok_def)
  have valid: "validate_file_length (of_nat (length ?bs)) = Ok ()"
    using assms size len by (simp add: validate_file_length_def word_less_nat_alt disk_ok_def)
  have "unat (ucast (next_id d) :: u64) \<le> length ?bs div PAGE_SIZE"
    using assms unat_u32_less [of "next_id d"]
    by (simp add: disk_ok_def unsigned_ucast_eq take_bit_nat_eq_self less_eq_div_iff_mult_less_eq)
  then have count: "\<not> (of_nat (length ?bs) :: u64) div 8192 < ucast (next_id d)"
    using len by (simp add: word_less_nat_alt unat_div)
  have decode: "decode_header (slice 0 PAGE_SIZE ?bs) = Ok (disk_header d)"
    using assms decode_encode_header by (simp add: disk_ok_def)
  have "open_with_mode path ro (Some ?bs) [] =
      Ok \<lparr>disk_path = path, disk_file = ?f, disk_header = disk_header d, disk_read_only = ro\<rparr>"
    using size valid count decode
    by (simp add: open_with_mode_def read_header_from_file_def io_err_def act_simps Let_def)
  then show ?thesis
    using assms
    by (auto simp: disk_ok_def healthy_def disk_pages_def allocated_def page_on_disk_def fun_eq_iff)
qed

text \<open>Closing and reopening loses nothing: opening, in either mode, the bytes of a sound
  database gives back its header and its pages.\<close>

theorem reopen_restores:
  assumes "disk_ok d"
  shows "\<exists>d'. open_with_mode path ro (Some (file_data (disk_file d))) [] = Ok d'
    \<and> disk_header d' = disk_header d \<and> disk_pages d' = disk_pages d \<and> disk_read_only d' = ro
    \<and> disk_ok d' \<and> healthy d'"
  using assms by (rule reopen_disk)

theorem reopen_restores_witness:
  "\<exists>d'. open_with_mode ''db'' True (Some (file_data (disk_file fresh_disk))) [] = Ok d' \<and> disk_read_only d'"
  using reopen_restores [of fresh_disk "''db''" True] by auto

section \<open>The abstract file\<close>

text \<open>The database file is the paged storage the buffer pool caches.\<close>

abbreviation (input) disk_meta :: "disk_manager \<Rightarrow> database_header \<times> bool" where
  "disk_meta d \<equiv> (disk_header d, disk_read_only d)"

interpretation disk: page_map "\<lambda>d. disk_ok d \<and> healthy d" disk_pages disk_meta "\<lambda>m. \<not> snd m"
  disk_read_page disk_write_page page_ident page_bytes page_sized
proof
  fix d :: disk_manager and pid bs
  assume d: "disk_ok d \<and> healthy d" "disk_pages d pid = Some bs"
  then have alloc: "allocated pid d" and bs: "bs = page_on_disk pid d"
    by (auto simp: disk_pages_def split: if_splits)
  have "length bs = PAGE_SIZE"
    using allocated_in_file [OF _ alloc] d by (simp add: bs page_on_disk_def)
  moreover obtain d' where "disk_read_page pid d = (Ok (from_bytes pid bs), d')" "disk_header d' = disk_header d"
      "disk_bytes d' = disk_bytes d" "disk_read_only d' = disk_read_only d" "disk_ok d'" "healthy d'"
    using disk_read_page_healthy [OF _ _ alloc] d bs by blast
  ultimately show "\<exists>p d'. disk_read_page pid d = (Ok p, d') \<and> page_ident p = pid \<and> page_bytes p = bs \<and> page_sized p
      \<and> (disk_ok d' \<and> healthy d') \<and> disk_pages d' = disk_pages d \<and> disk_meta d' = disk_meta d"
    by (auto simp: from_bytes_def page_sized_def disk_pages_def page_on_disk_def allocated_def fun_eq_iff)
next
  fix d p
  assume "disk_ok d \<and> healthy d" "\<not> snd (disk_meta d)" "page_sized p" "disk_pages d (page_ident p) \<noteq> None"
  then show "\<exists>p' d'. disk_write_page p d = (Ok p', d') \<and> page_ident p' = page_ident p \<and> page_bytes p' = page_bytes p
      \<and> page_sized p' \<and> (disk_ok d' \<and> healthy d') \<and> disk_pages d' = (disk_pages d)(page_ident p \<mapsto> page_bytes p)
      \<and> disk_meta d' = disk_meta d"
    using disk_write_page_healthy [of d p]
    by (auto simp: disk_pages_def mark_clean_def page_sized_def split: if_splits)
qed

text \<open>C9. On a sound database whose file does not fail, the operations are those of a map from
  page identifiers to contents: reading returns the page, writing replaces exactly that page,
  allocation adds the next page, zeroed, and the errors are exactly those of the guards. The
  database stays sound, so the header on disk always agrees with the one in memory.\<close>

theorem disk_refines_page_map:
  assumes "disk_ok d" and "healthy d"
  shows "(case disk_pages d pid of
      Some bs \<Rightarrow> \<exists>d'. disk_read_page pid d = (Ok (from_bytes pid bs), d')
                   \<and> disk_ok d' \<and> healthy d' \<and> disk_pages d' = disk_pages d
    | None \<Rightarrow> disk_read_page pid d = (Err (if pid = 0 then D_HeaderPageIsReserved else D_PageNotAllocated pid), d))
    \<and> (page_sized p \<longrightarrow>
        (if disk_read_only d then disk_write_page p d = (Err D_ReadOnly, d)
         else if disk_pages d (page_ident p) = None
         then disk_write_page p d =
           (Err (if page_ident p = 0 then D_HeaderPageIsReserved else D_PageNotAllocated (page_ident p)), d)
         else \<exists>d'. disk_write_page p d = (Ok (mark_clean p), d') \<and> disk_ok d' \<and> healthy d'
                \<and> disk_pages d' = (disk_pages d)(page_ident p \<mapsto> page_bytes p)))
    \<and> (if disk_read_only d then disk_allocate_page d = (Err D_ReadOnly, d)
       else if header_next_page_id (disk_header d) = - 1 then disk_allocate_page d = (Err D_PageIdExhausted, d)
       else \<exists>d'. disk_allocate_page d = (Ok (zeroed (header_next_page_id (disk_header d))), d')
              \<and> disk_ok d' \<and> healthy d' \<and> disk_pages d (header_next_page_id (disk_header d)) = None
              \<and> disk_pages d' = (disk_pages d)(header_next_page_id (disk_header d) \<mapsto> replicate PAGE_SIZE 0))"
proof (intro conjI)
  have refuse: "ensure_allocated_data_page q d =
      Err (if q = 0 then D_HeaderPageIsReserved else D_PageNotAllocated q)" if "disk_pages d q = None" for q
    using that by (auto simp: disk_pages_def allocated_def ensure_allocated_data_page_def split: if_splits)
  have alloc: "allocated q d" if "disk_pages d q \<noteq> None" for q
    using that by (auto simp: disk_pages_def split: if_splits)
  show "case disk_pages d pid of
      Some bs \<Rightarrow> \<exists>d'. disk_read_page pid d = (Ok (from_bytes pid bs), d')
                   \<and> disk_ok d' \<and> healthy d' \<and> disk_pages d' = disk_pages d
    | None \<Rightarrow> disk_read_page pid d = (Err (if pid = 0 then D_HeaderPageIsReserved else D_PageNotAllocated pid), d)"
  proof (cases "disk_pages d pid")
    case None
    then show ?thesis by (simp add: disk_read_page_def act_simps refuse)
  next
    case (Some bs)
    then have "bs = page_on_disk pid d" and "allocated pid d"
      by (auto simp: disk_pages_def split: if_splits)
    then show ?thesis
      using disk_read_page_healthy [OF assms(2,1), of pid] Some
      by (force simp: disk_pages_def allocated_def page_on_disk_def fun_eq_iff)
  qed
  show "page_sized p \<longrightarrow>
        (if disk_read_only d then disk_write_page p d = (Err D_ReadOnly, d)
         else if disk_pages d (page_ident p) = None
         then disk_write_page p d =
           (Err (if page_ident p = 0 then D_HeaderPageIsReserved else D_PageNotAllocated (page_ident p)), d)
         else \<exists>d'. disk_write_page p d = (Ok (mark_clean p), d') \<and> disk_ok d' \<and> healthy d'
                \<and> disk_pages d' = (disk_pages d)(page_ident p \<mapsto> page_bytes p))"
    using disk_write_page_healthy [OF assms(2,1) _ alloc, of p]
    by (auto simp: disk_write_page_def act_simps ensure_writable_def refuse)
  show "if disk_read_only d then disk_allocate_page d = (Err D_ReadOnly, d)
       else if next_id d = - 1 then disk_allocate_page d = (Err D_PageIdExhausted, d)
       else \<exists>d'. disk_allocate_page d = (Ok (zeroed (next_id d)), d')
              \<and> disk_ok d' \<and> healthy d' \<and> disk_pages d (next_id d) = None
              \<and> disk_pages d' = (disk_pages d)(next_id d \<mapsto> replicate PAGE_SIZE 0)"
    using disk_allocate_page_healthy [OF assms(2,1)]
    by (auto simp: disk_allocate_page_def act_simps ensure_writable_def disk_pages_def allocated_def)
qed

theorem disk_refines_page_map_witness:
  "\<exists>d. disk_allocate_page fresh_disk = (Ok (zeroed 1), d)
    \<and> disk_pages d = [1 \<mapsto> replicate PAGE_SIZE 0]"
  using disk_refines_page_map [of fresh_disk 1 "zeroed 1"] by auto

section \<open>Under every script of failures\<close>

text \<open>\<open>bs'\<close> is \<open>bs\<close> after writes below \<open>hi\<close> and from \<open>lo\<close> on, and possibly longer.\<close>

definition changed_within :: "nat \<Rightarrow> nat \<Rightarrow> bytes \<Rightarrow> bytes \<Rightarrow> bool" where
  "changed_within lo hi bs bs' \<longleftrightarrow>
     length bs \<le> length bs' \<and> (\<forall>i<length bs. i < lo \<or> hi \<le> i \<longrightarrow> bs' ! i = bs ! i)"

lemma changed_within_refl [simp]: "changed_within lo hi bs bs"
  by (simp add: changed_within_def)

lemma changed_within_slice:
  assumes "changed_within lo hi bs bs'" and "o' + n \<le> lo \<or> hi \<le> o'" and "o' + n \<le> length bs"
  shows "slice o' n bs' = slice o' n bs"
  by (rule nth_equalityI) (use assms in \<open>auto simp: changed_within_def length_slice nth_slice\<close>)

lemma file_seek_any:
  "file_seek off f = (r, f') \<Longrightarrow> file_data f' = file_data f \<and> file_writable f' = file_writable f
     \<and> (r = Ok () \<longrightarrow> file_pos f' = off) \<and> r \<noteq> Panic"
  by (auto simp: file_seek_def drop_fault_def split: option.splits)

lemma file_write_any:
  assumes "file_write_all src f = (r, f')" and "src \<noteq> []"
  shows "changed_within (file_pos f) (file_pos f + length src) (file_data f) (file_data f')
    \<and> file_writable f' = file_writable f
    \<and> (r = Ok () \<longrightarrow> file_pos f + length src \<le> length (file_data f'))
    \<and> (\<not> file_writable f \<longrightarrow> file_data f' = file_data f) \<and> r \<noteq> Panic"
  using assms
  by (auto simp: file_write_all_def drop_fault_def changed_within_def nth_write_at length_write_at Let_def
      split: option.splits if_splits)

lemma write_page_bytes_any:
  assumes "write_page_bytes pid bs d = (r, d')" and "length bs = PAGE_SIZE"
  shows "changed_within (unat pid * PAGE_SIZE) (unat pid * PAGE_SIZE + PAGE_SIZE) (disk_bytes d) (disk_bytes d')
    \<and> disk_header d' = disk_header d \<and> disk_read_only d' = disk_read_only d
    \<and> (r = Ok () \<longrightarrow> unat pid * PAGE_SIZE + PAGE_SIZE \<le> length (disk_bytes d'))"
proof -
  obtain s f1 where seek: "file_seek (unat pid * PAGE_SIZE) (disk_file d) = (s, f1)"
    by (metis prod.exhaust)
  obtain w f2 where wr: "file_write_all bs f1 = (w, f2)"
    by (metis prod.exhaust)
  have "r = map_err (D_Io ''seek database page'' (disk_path d)) s \<and> d' = d\<lparr>disk_file := f1\<rparr> \<and> s \<noteq> Ok ()
    \<or> r = map_err (D_Io ''write database page'' (disk_path d)) w \<and> d' = d\<lparr>disk_file := f2\<rparr> \<and> s = Ok ()"
    using assms(1) seek wr
    by (cases s) (auto simp: write_page_bytes_def seek_to_page_def on_file_def io_err_def act_simps unat_file_offset)
  then show ?thesis
    using file_seek_any [OF seek] file_write_any [OF wr nonempty_page [OF assms(2)]] assms(2)
    by (elim disjE) auto
qed

lemma persist_header_any:
  assumes "persist_header d = (r, d')"
  shows "changed_within 0 PAGE_SIZE (disk_bytes d) (disk_bytes d')
    \<and> disk_header d' = disk_header d \<and> disk_read_only d' = disk_read_only d"
proof -
  obtain s f1 where seek: "file_seek 0 (disk_file d) = (s, f1)"
    by (metis prod.exhaust)
  obtain w f2 where wr: "file_write_all (encode_header (disk_header d)) f1 = (w, f2)"
    by (metis prod.exhaust)
  have "d' = d\<lparr>disk_file := f1\<rparr> \<or> d' = d\<lparr>disk_file := f2\<rparr> \<and> s = Ok ()"
    using assms seek wr
    by (cases s) (auto simp: persist_header_def write_header_to_file_def on_file_def io_err_def act_simps Let_def)
  then show ?thesis
    using file_seek_any [OF seek] file_write_any [OF wr nonempty_page [OF length_encode_header]]
    by (elim disjE) auto
qed

text \<open>An operation, with any result and any failures, that is not a write of page \<open>q\<close>.\<close>

inductive disk_step :: "page_id \<Rightarrow> disk_manager \<Rightarrow> disk_manager \<Rightarrow> bool" for q where
  ds_read: "disk_read_page p d = (r, d') \<Longrightarrow> disk_step q d d'"
| ds_write: "page_sized pg \<Longrightarrow> page_ident pg \<noteq> q \<Longrightarrow> disk_write_page pg d = (r, d') \<Longrightarrow> disk_step q d d'"
| ds_allocate: "disk_allocate_page d = (r, d') \<Longrightarrow> disk_step q d d'"
| ds_root: "set_catalog_root p d = (u, d') \<Longrightarrow> disk_step q d d'"
| ds_sync: "disk_sync d = (u, d') \<Longrightarrow> disk_step q d d'"

text \<open>Every allocated page is inside the file; this much survives failures.\<close>

definition pages_in_file :: "disk_manager \<Rightarrow> bool" where
  "pages_in_file d \<longleftrightarrow> next_id d \<noteq> 0 \<and> unat (next_id d) * PAGE_SIZE \<le> length (disk_bytes d)"

text \<open>The next identifier never decreases, and neither does the file.\<close>

definition extends :: "page_id \<Rightarrow> disk_manager \<Rightarrow> disk_manager \<Rightarrow> bool" where
  "extends q d d' \<longleftrightarrow> pages_in_file d' \<and> next_id d \<le> next_id d' \<and> disk_read_only d' = disk_read_only d
     \<and> (allocated q d \<longrightarrow> page_on_disk q d' = page_on_disk q d)
     \<and> (disk_read_only d \<longrightarrow> disk_bytes d' = disk_bytes d)"

lemma page_inside: "pages_in_file d \<Longrightarrow> allocated q d \<Longrightarrow> unat q * PAGE_SIZE + PAGE_SIZE \<le> length (disk_bytes d)"
  by (auto simp: pages_in_file_def allocated_def word_less_nat_alt)

lemma page_unchanged:
  assumes "changed_within (unat p * PAGE_SIZE) (unat p * PAGE_SIZE + PAGE_SIZE) (disk_bytes d) (disk_bytes d')"
    and "pages_in_file d" and "allocated q d" and "p \<noteq> q"
  shows "page_on_disk q d' = page_on_disk q d"
  using changed_within_slice [OF assms(1), of "unat q * PAGE_SIZE" PAGE_SIZE] pages_apart [OF assms(4)]
    page_inside [OF assms(2,3)] by (auto simp: page_on_disk_def)

lemma read_only_refuses:
  assumes "disk_read_only d"
  shows "disk_write_page p d = (Err D_ReadOnly, d)" "disk_allocate_page d = (Err D_ReadOnly, d)"
    "set_catalog_root r d = (Err D_ReadOnly, d)"
  using assms by (simp_all add: disk_write_page_def disk_allocate_page_def set_catalog_root_def act_simps ensure_writable_def)

lemma disk_read_any:
  "disk_read_page p d = (r, d') \<Longrightarrow>
    disk_header d' = disk_header d \<and> disk_read_only d' = disk_read_only d \<and> disk_bytes d' = disk_bytes d"
  by (auto simp: disk_read_page_def seek_to_page_def on_file_def io_err_def act_simps file_read_exact_def drop_fault_def
      split: prod.splits result.splits option.splits if_splits dest!: file_seek_any)

lemma disk_sync_any:
  "disk_sync d = (u, d') \<Longrightarrow>
    disk_header d' = disk_header d \<and> disk_read_only d' = disk_read_only d \<and> disk_bytes d' = disk_bytes d"
  by (auto simp: disk_sync_def on_file_def io_err_def act_simps file_sync_all_def drop_fault_def
      split: prod.splits result.splits option.splits)

lemma disk_write_any:
  assumes "disk_write_page pg d = (r, d')" and "page_sized pg"
  shows "(d' = d \<or> changed_within (unat (page_ident pg) * PAGE_SIZE) (unat (page_ident pg) * PAGE_SIZE + PAGE_SIZE)
            (disk_bytes d) (disk_bytes d'))
    \<and> disk_header d' = disk_header d \<and> disk_read_only d' = disk_read_only d"
  using assms write_page_bytes_any [of "page_ident pg" "page_bytes pg" d]
  by (auto simp: disk_write_page_def act_simps ensure_writable_def page_sized_def
      split: prod.splits result.splits if_splits)

lemma set_catalog_root_any:
  assumes "set_catalog_root p d = (u, d')"
  shows "changed_within 0 PAGE_SIZE (disk_bytes d) (disk_bytes d') \<and> next_id d' = next_id d
    \<and> disk_read_only d' = disk_read_only d"
  using assms persist_header_any
  by (force simp: set_catalog_root_def act_simps split: prod.splits result.splits option.splits)

lemma disk_allocate_any:
  assumes "disk_allocate_page d = (r, d')" and "pages_in_file d" and "allocated q d"
  shows "pages_in_file d' \<and> next_id d \<le> next_id d' \<and> disk_read_only d' = disk_read_only d
    \<and> page_on_disk q d' = page_on_disk q d"
proof (cases "disk_read_only d \<or> next_id d = - 1")
  case True
  then show ?thesis
    using assms by (cases "disk_read_only d") (auto simp: disk_allocate_page_def act_simps ensure_writable_def)
next
  case False
  let ?z = "replicate PAGE_SIZE (0 :: u8)"
  obtain w d1 where w: "write_page_bytes (next_id d) ?z d = (w, d1)"
    by (metis prod.exhaust)
  note W = write_page_bytes_any [OF w]
  have pid: "next_id d \<noteq> q"
    using assms(3) by (auto simp: allocated_def)
  have keep: "page_on_disk q d1 = page_on_disk q d" "length (disk_bytes d) \<le> length (disk_bytes d1)"
    using page_unchanged [OF _ assms(2,3) pid, of d1] W by (auto simp: changed_within_def)
  have in1: "pages_in_file d1" "allocated q d1"
    using assms(2,3) W keep(2) by (auto simp: pages_in_file_def allocated_def)
  show ?thesis
  proof (cases "w = Ok ()")
    case False
    then have "d' = d1"
      using assms(1) w \<open>\<not> (disk_read_only d \<or> _)\<close>
      by (auto simp: disk_allocate_page_def act_simps ensure_writable_def zeroed_def Let_def split: result.splits)
    then show ?thesis using in1 keep W by auto
  next
    case True
    let ?d2 = "d1\<lparr>disk_header := (disk_header d1)\<lparr>header_next_page_id := next_id d1 + 1\<rparr>\<rparr>"
    obtain u where "persist_header ?d2 = (u, d')"
      using assms(1) w True \<open>\<not> (disk_read_only d \<or> _)\<close>
      by (auto simp: disk_allocate_page_def act_simps ensure_writable_def zeroed_def Let_def
          split: result.splits prod.splits)
    note P = persist_header_any [OF this]
    have next_n: "unat (next_id d + 1) = unat (next_id d) + 1"
      using False unat_u32_less [of "next_id d"] unat_u32_max [of "next_id d"] by (intro unat_plus_one) simp
    have "page_on_disk q d' = page_on_disk q d1"
      using changed_within_slice [of 0 PAGE_SIZE "disk_bytes d1" "disk_bytes d'" "unat q * PAGE_SIZE" PAGE_SIZE]
        P page_inside [OF in1] allocated_pos [OF assms(3)] by (auto simp: page_on_disk_def)
    moreover have "pages_in_file d'"
      using W True P next_n by (auto simp: pages_in_file_def changed_within_def)
    ultimately show ?thesis
      using keep W P next_n by (auto simp: word_le_nat_alt)
  qed
qed

lemma disk_step_extends:
  assumes "disk_step q d d'" and "pages_in_file d" and "allocated q d"
  shows "extends q d d'"
  using assms(1)
proof (cases rule: disk_step.cases)
  case (ds_read p r)
  then show ?thesis
    using disk_read_any assms(2) by (auto simp: extends_def pages_in_file_def page_on_disk_def)
next
  case (ds_write pg r)
  note W = disk_write_any [OF ds_write(3,1)]
  have "page_on_disk q d' = page_on_disk q d"
    using W page_unchanged [OF _ assms(2,3) ds_write(2), of d'] by blast
  moreover have "length (disk_bytes d) \<le> length (disk_bytes d')"
    using W by (auto simp: changed_within_def)
  moreover have "disk_bytes d' = disk_bytes d" if "disk_read_only d"
    using ds_write(3) read_only_refuses(1) [OF that] by simp
  ultimately show ?thesis
    using W assms(2) by (auto simp: extends_def pages_in_file_def)
next
  case (ds_allocate r)
  then show ?thesis
    using disk_allocate_any [OF ds_allocate assms(2,3)] read_only_refuses(2) by (auto simp: extends_def)
next
  case (ds_root p u)
  then have "page_on_disk q d' = page_on_disk q d"
    using set_catalog_root_any page_inside [OF assms(2,3)] allocated_pos [OF assms(3)]
      changed_within_slice [of 0 PAGE_SIZE "disk_bytes d" "disk_bytes d'" "unat q * PAGE_SIZE" PAGE_SIZE]
    by (auto simp: page_on_disk_def)
  moreover have "length (disk_bytes d) \<le> length (disk_bytes d')"
    using set_catalog_root_any [OF ds_root] by (simp add: changed_within_def)
  moreover have "disk_bytes d' = disk_bytes d" if "disk_read_only d"
    using ds_root read_only_refuses(3) [OF that] by simp
  ultimately show ?thesis
    using set_catalog_root_any [OF ds_root] assms(2) by (auto simp: extends_def pages_in_file_def)
next
  case (ds_sync u)
  then show ?thesis
    using disk_sync_any assms(2) by (auto simp: extends_def pages_in_file_def page_on_disk_def)
qed

text \<open>C21. Whatever calls fail and wherever they stop, no sequence of operations disturbs an
  allocated page it does not write: its bytes on disk stay, it stays allocated and inside
  the file. A database opened read-only is not changed at all.\<close>

theorem disk_failures_contained:
  assumes "(disk_step q)\<^sup>*\<^sup>* d d'"
    and "header_next_page_id (disk_header d) \<noteq> 0"
    and "unat (header_next_page_id (disk_header d)) * PAGE_SIZE \<le> length (file_data (disk_file d))"
    and "allocated q d"
  shows "allocated q d' \<and> page_on_disk q d' = page_on_disk q d
    \<and> unat q * PAGE_SIZE + PAGE_SIZE \<le> length (file_data (disk_file d'))
    \<and> (disk_read_only d \<longrightarrow> file_data (disk_file d') = file_data (disk_file d))"
proof -
  have "pages_in_file d' \<and> allocated q d' \<and> page_on_disk q d' = page_on_disk q d
    \<and> disk_read_only d' = disk_read_only d \<and> (disk_read_only d \<longrightarrow> disk_bytes d' = disk_bytes d)"
    using assms(1)
  proof (induction rule: rtranclp_induct)
    case base
    show ?case using assms(2-4) by (simp add: pages_in_file_def)
  next
    case (step d1 d2)
    then have "extends q d1 d2"
      using disk_step_extends by blast
    then show ?case
      using step.IH by (auto simp: extends_def allocated_def)
  qed
  then show ?thesis using page_inside by blast
qed

text \<open>The database of the witness: one page, and a disk on which the second call of every
  operation fails after 100 bytes.\<close>

definition failing_disk :: disk_manager where
  "failing_disk = fresh_disk\<lparr>disk_header := fresh_header\<lparr>header_next_page_id := 2\<rparr>,
     disk_file := (disk_file fresh_disk)\<lparr>file_data := encode_header (fresh_header\<lparr>header_next_page_id := 2\<rparr>)
       @ replicate PAGE_SIZE 9, file_faults := [None, Some 100]\<rparr>\<rparr>"

theorem disk_failures_contained_witness:
  "page_on_disk 1 (snd (disk_allocate_page failing_disk)) = replicate PAGE_SIZE 9"
proof -
  have "(disk_step 1)\<^sup>*\<^sup>* failing_disk (snd (disk_allocate_page failing_disk))"
    using ds_allocate [of failing_disk _ _ 1] by (metis prod.collapse r_into_rtranclp)
  moreover have "allocated 1 failing_disk"
    by (simp add: allocated_def failing_disk_def)
  moreover have "page_on_disk 1 failing_disk = replicate PAGE_SIZE 9"
    by (simp add: page_on_disk_def failing_disk_def slice_append_right)
  ultimately show ?thesis
    using disk_failures_contained [of 1 failing_disk "snd (disk_allocate_page failing_disk)"]
    by (simp add: failing_disk_def)
qed

section \<open>Two defects\<close>

lemma open_ragged:
  assumes "\<not> PAGE_SIZE dvd length bs" and "length bs < usize_limit"
  shows "open_with_mode path ro (Some bs) [] = Err (D_InvalidFileLength (of_nat (length bs)))"
proof -
  have "unat (of_nat (length bs) :: u64) = length bs"
    using assms(2) by (simp add: unat_of_nat take_bit_nat_eq_self)
  then have "validate_file_length (of_nat (length bs)) = Err (D_InvalidFileLength (of_nat (length bs)))"
    using assms(1) by (simp add: validate_file_length_def)
  then show ?thesis
    by (simp add: open_with_mode_def io_err_def act_simps)
qed

text \<open>C38. An allocation that fails in the middle of writing the new page, after any number of its
  bytes, leaves a file of ragged length where the file ended with the last page: every
  allocated page is still there, unchanged, but opening the file, in either mode, is refused.\<close>

theorem failed_allocation_blocks_reopen:
  assumes "disk_ok d" and "\<not> disk_read_only d" and "header_next_page_id (disk_header d) \<noteq> - 1"
    and "length (file_data (disk_file d)) = unat (header_next_page_id (disk_header d)) * PAGE_SIZE"
    and "file_faults (disk_file d) = None # Some n # faults" and "0 < n" and "n < PAGE_SIZE"
  shows "\<exists>d'. disk_allocate_page d = (Err (D_Io ''write database page'' (disk_path d) OtherIo), d')
    \<and> disk_pages d' = disk_pages d
    \<and> length (file_data (disk_file d')) = length (file_data (disk_file d)) + n
    \<and> (\<forall>path ro. open_with_mode path ro (Some (file_data (disk_file d'))) [] =
         Err (D_InvalidFileLength (of_nat (length (file_data (disk_file d')))))) "
proof -
  let ?len = "length (disk_bytes d)" and ?part = "replicate n (0 :: u8)"
  let ?d = "d\<lparr>disk_file := (disk_file d)\<lparr>file_data := write_at ?len ?part (disk_bytes d), file_pos := ?len + n,
      file_faults := faults\<rparr>\<rparr>"
  have part: "take n (replicate PAGE_SIZE (0 :: u8)) = ?part" "?part \<noteq> []"
    using assms(6,7) by (simp_all add: min_def)
  have w: "file_writable (disk_file d)" using assms(1,2) by (simp add: disk_ok_def)
  have fail: "disk_allocate_page d = (Err (D_Io ''write database page'' (disk_path d) OtherIo), ?d)"
    using assms(2-5) w part
    by (simp add: disk_allocate_page_def write_page_bytes_def seek_to_page_def on_file_def io_err_def act_simps
        ensure_writable_def zeroed_def file_seek_def file_write_all_def next_fault_def drop_fault_def unat_file_offset Let_def)
  have len: "length (disk_bytes ?d) = ?len + n" by (simp add: length_write_at)
  have "page_on_disk q ?d = page_on_disk q d" if "allocated q d" for q
    using allocated_in_file [OF assms(1) that]
    by (simp add: page_on_disk_def slice_write_at_other)
  then have pages: "disk_pages ?d = disk_pages d"
    by (simp add: disk_pages_def allocated_def fun_eq_iff)
  have "PAGE_SIZE dvd ?len" using assms(1) by (simp add: disk_ok_def)
  then have ragged: "\<not> PAGE_SIZE dvd length (disk_bytes ?d)"
    using assms(6,7) unfolding len by (simp add: dvd_add_right_iff nat_dvd_not_less)
  have "length (disk_bytes ?d) < usize_limit"
    using assms(4,7) unat_u32_less [of "next_id d"] unfolding len by simp
  note open_ragged [OF ragged this]
  then show ?thesis
    using fail pages len by (intro exI [of _ ?d]) simp
qed

theorem failed_allocation_blocks_reopen_witness:
  "\<exists>d'. disk_allocate_page (fresh_disk\<lparr>disk_file := (disk_file fresh_disk)\<lparr>file_faults := [None, Some 100]\<rparr>\<rparr>)
      = (Err (D_Io ''write database page'' ''db'' OtherIo), d')
    \<and> open_with_mode ''db'' False (Some (file_data (disk_file d'))) [] = Err (D_InvalidFileLength 8292)"
proof -
  let ?d = "fresh_disk\<lparr>disk_file := (disk_file fresh_disk)\<lparr>file_faults := [None, Some 100]\<rparr>\<rparr>"
  have "disk_ok ?d" "\<not> disk_read_only ?d" "next_id ?d \<noteq> - 1" "length (disk_bytes ?d) = unat (next_id ?d) * PAGE_SIZE"
    "file_faults (disk_file ?d) = None # Some 100 # []" "disk_path ?d = ''db''" "length (disk_bytes ?d) = PAGE_SIZE"
    by (simp_all add: disk_ok_def header_wf_def fresh_header_def fresh_disk_def)
  from failed_allocation_blocks_reopen [OF this(1-5)] this(6,7) show ?thesis by fastforce
qed

text \<open>The header with another catalog root differs in the four bytes of that field, and a write of it
  that stops after \<open>k\<close> bytes leaves the header of a root made of bytes of both.\<close>

definition root_field :: "page_id option \<Rightarrow> bytes" where
  "root_field r = to_le 4 (case r of None \<Rightarrow> NO_CATALOG_ROOT | Some p \<Rightarrow> p)"

definition torn_root :: "nat \<Rightarrow> page_id option \<Rightarrow> page_id option \<Rightarrow> page_id option" where
  "torn_root k new old =
     (let raw = from_le (take (k - CATALOG_ROOT_PAGE_ID_OFFSET) (root_field new)
          @ drop (k - CATALOG_ROOT_PAGE_ID_OFFSET) (root_field old))
      in if raw = NO_CATALOG_ROOT then None else Some raw)"

lemma torn_root_ends:
  "k \<le> CATALOG_ROOT_PAGE_ID_OFFSET \<Longrightarrow> old \<noteq> Some NO_CATALOG_ROOT \<Longrightarrow> torn_root k new old = old"
  "CATALOG_ROOT_PAGE_ID_OFFSET + 4 \<le> k \<Longrightarrow> new \<noteq> Some NO_CATALOG_ROOT \<Longrightarrow> torn_root k new old = new"
  by (auto simp: torn_root_def root_field_def split: option.split)

lemma header_root_field: "encode_header (h\<lparr>header_catalog_root := r\<rparr>) = splice CATALOG_ROOT_PAGE_ID_OFFSET (root_field r) (encode_header h)"
  unfolding encode_header_def root_field_def Let_def
  by (rule nth_equalityI) (simp_all add: nth_splice)

lemma torn_header:
  "take k (encode_header (h\<lparr>header_catalog_root := new\<rparr>)) @ drop k (encode_header (h\<lparr>header_catalog_root := old\<rparr>))
    = encode_header (h\<lparr>header_catalog_root := torn_root k new old\<rparr>)"
proof -
  let ?mix = "take (k - CATALOG_ROOT_PAGE_ID_OFFSET) (root_field new) @ drop (k - CATALOG_ROOT_PAGE_ID_OFFSET) (root_field old)"
  have len: "length (root_field r) = 4" for r by (simp add: root_field_def)
  have mix: "length ?mix = 4" by (simp add: len)
  have "to_le 4 (from_le ?mix :: u32) = ?mix"
    using to_le_from_le [of ?mix, where 'a = 32] mix by simp
  then have "root_field (torn_root k new old) = ?mix"
    by (auto simp: torn_root_def root_field_def [of "if _ then _ else _"] Let_def dest: sym)
  moreover have "take k (splice 20 a bs) @ drop k (splice 20 b bs) = splice 20 (take (k - 20) a @ drop (k - 20) b) bs"
    if "length a = 4" "length b = 4" for a b bs :: bytes
    by (rule nth_equalityI) (use that in \<open>auto simp: nth_splice nth_append min_def\<close>)
  ultimately show ?thesis
    by (simp add: header_root_field len)
qed

text \<open>C39. When writing the header fails, after any number of its bytes, setting the catalog root
  reports the error but keeps the root in memory: every further attempt on the manager is refused
  because a root is set. The file, opened again, has the root the bytes written so far make up:
  none when the write stopped before the field, and when it stopped inside it an identifier
  made of bytes of both.\<close>

theorem failed_catalog_root_not_retryable:
  assumes "disk_ok d" and "\<not> disk_read_only d" and "allocated pid d"
    and "header_catalog_root (disk_header d) = None" and "file_faults (disk_file d) = None # Some k # faults"
  shows "\<exists>d'. set_catalog_root pid d = (Err (D_Io ''write database header'' (disk_path d) OtherIo), d')
    \<and> (\<forall>q. allocated q d \<longrightarrow> set_catalog_root q d' = (Err (D_CatalogRootAlreadySet pid), d'))
    \<and> (\<exists>d''. disk_open path (Some (file_data (disk_file d'))) [] = Ok d'' \<and> disk_pages d'' = disk_pages d
          \<and> header_catalog_root (disk_header d'') = torn_root k (Some pid) None)"
proof -
  let ?h = "disk_header d"
  let ?h1 = "?h\<lparr>header_catalog_root := Some pid\<rparr>" and ?h2 = "?h\<lparr>header_catalog_root := torn_root k (Some pid) None\<rparr>"
  let ?part = "take k (encode_header ?h1)"
  define bs where "bs = (if ?part = [] then disk_bytes d else write_at 0 ?part (disk_bytes d))"
  let ?d = "d\<lparr>disk_header := ?h1, disk_file := (disk_file d)\<lparr>file_data := bs, file_pos := length ?part, file_faults := faults\<rparr>\<rparr>"
  let ?t = "d\<lparr>disk_header := ?h2, disk_file := (disk_file d)\<lparr>file_data := bs\<rparr>\<rparr>"
  have w: "file_writable (disk_file d)" using assms(1,2) by (simp add: disk_ok_def)
  have first: "set_catalog_root pid d = (Err (D_Io ''write database header'' (disk_path d) OtherIo), ?d)"
    using assms w
    by (simp add: set_catalog_root_def act_simps ensure_writable_def ensure_allocated_ok persist_header_def
        on_file_def write_header_to_file_def io_err_def file_seek_def file_write_all_def next_fault_def drop_fault_def bs_def Let_def)
  have again: "set_catalog_root q ?d = (Err (D_CatalogRootAlreadySet pid), ?d)" if "allocated q d" for q
  proof -
    have "ensure_allocated_data_page q ?d = Ok ()"
      using that by (simp add: ensure_allocated_iff allocated_def)
    then show ?thesis
      using assms(2) by (simp add: set_catalog_root_def act_simps ensure_writable_def)
  qed
  have size: "PAGE_SIZE \<le> length (disk_bytes d)"
    using allocated_in_file [OF assms(1,3)] by simp
  have head: "slice 0 PAGE_SIZE (disk_bytes d) = encode_header ?h"
    using assms(1) by (simp add: disk_ok_def)
  have same: "?h\<lparr>header_catalog_root := None\<rparr> = ?h" using assms(4) by simp
  have len: "length bs = length (disk_bytes d)"
    using size by (auto simp: bs_def length_write_at max_def)
  have bs_eq: "bs = take k (encode_header ?h1) @ drop (min k PAGE_SIZE) (disk_bytes d)"
  proof -
    have "write_at 0 part xs = part @ drop (length part) xs" if "length part \<le> length xs" for part xs
      using that by (simp add: write_at_def splice_fit)
    then have "bs = ?part @ drop (length ?part) (disk_bytes d)"
      using size nonempty_page [OF length_encode_header, of ?h1] by (auto simp: bs_def)
    then show ?thesis by (simp add: min.commute)
  qed
  have "slice 0 PAGE_SIZE bs = take k (encode_header ?h1) @ drop k (slice 0 PAGE_SIZE (disk_bytes d))"
    unfolding bs_eq using size by (auto simp: slice_def min_def drop_take)
  then have "slice 0 PAGE_SIZE bs = encode_header ?h2"
    using torn_header [where k = k and h = ?h and new = "Some pid" and old = None] unfolding same by (simp add: head)
  moreover have "header_wf ?h2"
    using assms(1) by (auto simp: disk_ok_def header_wf_def torn_root_def Let_def split: if_splits)
  ultimately have "disk_ok ?t"
    using assms(1) len by (simp add: disk_ok_def)
  moreover have "page_on_disk q ?t = page_on_disk q d" if "allocated q d" for q
    using allocated_in_file [OF assms(1) that] allocated_pos [OF that]
    by (auto simp: page_on_disk_def bs_def slice_write_at_other)
  then have "disk_pages ?t = disk_pages d"
    by (simp add: disk_pages_def allocated_def fun_eq_iff)
  ultimately show ?thesis
    using first again reopen_disk [of ?t path False] by (intro exI [of _ ?d]) (auto simp: disk_open_def)
qed

theorem failed_catalog_root_not_retryable_witness:
  "\<exists>d'. set_catalog_root 1 (failing_disk\<lparr>disk_file := (disk_file failing_disk)\<lparr>file_faults := [None, Some 21]\<rparr>\<rparr>)
      = (Err (D_Io ''write database header'' ''db'' OtherIo), d')
    \<and> set_catalog_root 1 d' = (Err (D_CatalogRootAlreadySet 1), d')
    \<and> (\<exists>d''. disk_open ''db'' (Some (file_data (disk_file d'))) [] = Ok d''
          \<and> header_catalog_root (disk_header d'') = Some 0xFFFFFF01)"
proof -
  let ?d = "failing_disk\<lparr>disk_file := (disk_file failing_disk)\<lparr>file_faults := [None, Some 21]\<rparr>\<rparr>"
  have "disk_ok ?d" "allocated 1 ?d" "\<not> disk_read_only ?d" "header_catalog_root (disk_header ?d) = None"
    "file_faults (disk_file ?d) = None # Some 21 # []" "disk_path ?d = ''db''"
    by (simp_all add: failing_disk_def disk_ok_def header_wf_def fresh_header_def fresh_disk_def allocated_def
        slice_append_left)
  moreover have "torn_root 21 (Some 1) None = Some 0xFFFFFF01"
    by (simp add: torn_root_def root_field_def to_le_4)
  ultimately show ?thesis
    using failed_catalog_root_not_retryable [of ?d 1 21 "[]" "''db''"] by metis
qed

end
