(* ===== verification/Buffer_Facts.thy ===== *)
theory Buffer_Facts
  imports Buffer_Pool Disk_Props
begin

text \<open>
  The invariant of the buffer pool and what every operation keeps of it, under any failures
  of the disk: the frames stay distinct and within the capacity, and a pinned frame stays
  cached with its page and its borrow state.
\<close>

section \<open>Frames\<close>

lemma length_AList_update:
  "length (AList.update k v al) = (if k \<in> fst ` set al then length al else Suc (length al))"
  by (induction al) (auto split: if_splits)

lemma length_AList_delete:
  "distinct (map fst al) \<Longrightarrow> k \<in> fst ` set al \<Longrightarrow> Suc (length (AList.delete k al)) = length al"
  by (induction al) (auto simp: delete_idem)

lemma find_frame_in: "find_frame pid p = Some fr \<Longrightarrow> pid \<in> fst ` set (pool_frames p)"
  by (metis find_frame_def map_of_eq_None_iff option.distinct(1))

lemma find_frame_put [simp]:
  "find_frame q (put_frame pid fr p) = (if q = pid then Some fr else find_frame q p)"
  by (auto simp: find_frame_def put_frame_def update_conv')

lemma find_frame_remove [simp]:
  "find_frame q (remove_frame pid p) = (if q = pid then None else find_frame q p)"
  by (auto simp: find_frame_def remove_frame_def delete_conv')

lemma find_frame_disk [simp]: "find_frame q (p\<lparr>pool_disk := d\<rparr>) = find_frame q p"
  by (simp add: find_frame_def)

lemma put_frame_fields [simp]:
  "pool_disk (put_frame pid fr p) = pool_disk p" "pool_capacity (put_frame pid fr p) = pool_capacity p"
  "pool_borrowed (put_frame pid fr p) = pool_borrowed p" "pool_disk (remove_frame pid p) = pool_disk p"
  "pool_capacity (remove_frame pid p) = pool_capacity p" "pool_borrowed (remove_frame pid p) = pool_borrowed p"
  by (simp_all add: put_frame_def remove_frame_def)

text \<open>The counters are seen by nothing else.\<close>

lemma count_fields [simp]:
  "find_frame q (count_hit p) = find_frame q p" "find_frame q (count_miss p) = find_frame q p"
  "find_frame q (count_eviction p) = find_frame q p" "find_frame q (count_disk_write p) = find_frame q p"
  "pool_frames (count_hit p) = pool_frames p" "pool_frames (count_miss p) = pool_frames p"
  "pool_frames (count_eviction p) = pool_frames p" "pool_frames (count_disk_write p) = pool_frames p"
  "pool_disk (count_hit p) = pool_disk p" "pool_disk (count_miss p) = pool_disk p"
  "pool_disk (count_eviction p) = pool_disk p" "pool_disk (count_disk_write p) = pool_disk p"
  "pool_capacity (count_hit p) = pool_capacity p" "pool_capacity (count_miss p) = pool_capacity p"
  "pool_capacity (count_eviction p) = pool_capacity p" "pool_capacity (count_disk_write p) = pool_capacity p"
  "pool_borrowed (count_hit p) = pool_borrowed p" "pool_borrowed (count_miss p) = pool_borrowed p"
  "pool_borrowed (count_eviction p) = pool_borrowed p" "pool_borrowed (count_disk_write p) = pool_borrowed p"
  by (simp_all add: find_frame_def count_hit_def count_miss_def count_eviction_def count_disk_write_def)

section \<open>The invariant\<close>

definition frame_ok :: "page_id \<Rightarrow> frame \<Rightarrow> bool" where
  "frame_ok pid fr \<longleftrightarrow> frame_page_id fr = pid \<and> page_ident (frame_page fr) = pid \<and> page_sized (frame_page fr)
     \<and> (frame_borrow fr \<noteq> Unborrowed \<longrightarrow> frame_pin_count fr \<noteq> 0)"

definition pool_inv :: "buffer_pool \<Rightarrow> bool" where
  "pool_inv p \<longleftrightarrow> distinct (map fst (pool_frames p)) \<and> 0 < pool_capacity p
     \<and> length (pool_frames p) \<le> pool_capacity p \<and> \<not> pool_borrowed p \<and> next_id (pool_disk p) \<noteq> 0
     \<and> (\<forall>pid fr. find_frame pid p = Some fr \<longrightarrow> frame_ok pid fr \<and> allocated pid (pool_disk p))"

text \<open>What an operation may do to a frame that is pinned: the page contents and the borrow state
  stay, and pins are only added.\<close>

fun kept :: "frame option \<Rightarrow> frame option \<Rightarrow> bool" where
  "kept None y \<longleftrightarrow> True"
| "kept (Some fr) None \<longleftrightarrow> frame_pin_count fr = 0"
| "kept (Some fr) (Some fr') \<longleftrightarrow> frame_pin_count fr = 0
     \<or> (page_bytes (frame_page fr') = page_bytes (frame_page fr) \<and> frame_borrow fr' = frame_borrow fr
        \<and> frame_pin_count fr \<le> frame_pin_count fr')"

definition evolves :: "buffer_pool \<Rightarrow> buffer_pool \<Rightarrow> bool" where
  "evolves p p' \<longleftrightarrow> pool_inv p' \<and> pool_capacity p' = pool_capacity p
     \<and> (\<forall>pid. kept (find_frame pid p) (find_frame pid p'))"

lemma kept_refl [simp]: "kept x x"
  by (cases x) auto

lemma kept_trans: "kept x y \<Longrightarrow> kept y z \<Longrightarrow> kept x z"
  by (cases x; cases y; cases z) (auto simp: word_le_0_iff)

lemma evolves_refl: "pool_inv p \<Longrightarrow> evolves p p"
  by (auto simp: evolves_def)

lemma evolves_trans: "evolves p p' \<Longrightarrow> evolves p' p'' \<Longrightarrow> evolves p p''"
  unfolding evolves_def using kept_trans by metis

lemma evolves_inv: "evolves p p' \<Longrightarrow> pool_inv p'"
  by (simp add: evolves_def)

text \<open>Changing one frame, or adding one where there is room.\<close>

lemma evolves_put:
  assumes inv: "pool_inv p" and ok: "frame_ok pid fr'" "allocated pid (pool_disk p)"
    and room: "find_frame pid p \<noteq> None \<or> length (pool_frames p) < pool_capacity p"
    and keep: "kept (find_frame pid p) (Some fr')"
  shows "evolves p (put_frame pid fr' p)"
proof -
  have "length (pool_frames (put_frame pid fr' p)) \<le> pool_capacity p"
    using inv room find_frame_in [of pid p] by (auto simp: put_frame_def length_AList_update pool_inv_def)
  moreover have "distinct (map fst (pool_frames (put_frame pid fr' p)))"
    using inv by (simp add: put_frame_def pool_inv_def distinct_update)
  ultimately have "pool_inv (put_frame pid fr' p)"
    using inv ok by (simp add: pool_inv_def)
  then show ?thesis
    using keep by (simp add: evolves_def)
qed

lemma evolves_remove:
  assumes "pool_inv p" and "find_frame pid p = Some fr" and "frame_pin_count fr = 0"
  shows "evolves p (remove_frame pid p)" and "length (pool_frames (remove_frame pid p)) < pool_capacity p"
proof -
  have len: "Suc (length (pool_frames (remove_frame pid p))) = length (pool_frames p)"
    using assms(1,2) find_frame_in [of pid p] by (auto simp: remove_frame_def pool_inv_def intro: length_AList_delete)
  then show "length (pool_frames (remove_frame pid p)) < pool_capacity p"
    using assms(1) by (auto simp: pool_inv_def)
  have "distinct (map fst (pool_frames (remove_frame pid p)))"
    using assms(1) by (simp add: remove_frame_def pool_inv_def distinct_delete)
  then have "pool_inv (remove_frame pid p)"
    using assms(1) len by (simp add: pool_inv_def)
  then show "evolves p (remove_frame pid p)"
    using assms(2,3) by (simp add: evolves_def)
qed

text \<open>A change of the disk, the clock or the counters.\<close>

lemma evolves_other:
  assumes "pool_inv p" and "pool_frames p' = pool_frames p" and "pool_capacity p' = pool_capacity p"
    and "pool_borrowed p' = pool_borrowed p" and "next_id (pool_disk p) \<le> next_id (pool_disk p')"
  shows "evolves p p'"
proof -
  have f: "find_frame q p' = find_frame q p" for q
    using assms(2) by (simp add: find_frame_def)
  have "allocated q (pool_disk p')" if "allocated q (pool_disk p)" for q
    using that assms(5) by (auto simp: allocated_def)
  moreover have "next_id (pool_disk p') \<noteq> 0"
    using assms(1,5) by (auto simp: pool_inv_def word_le_0_iff)
  ultimately have "pool_inv p'"
    using assms(1-4) by (simp add: pool_inv_def f)
  then show ?thesis
    using assms(3) by (simp add: evolves_def f)
qed

lemma map_of_map_snd: "map_of (map (\<lambda>(k, v). (k, f v)) al) q = map_option f (map_of al q)"
  by (induction al) auto

lemma map_fst_map_snd: "map fst (map (\<lambda>(k, v). (k, f v)) al) = map fst al"
  by (induction al) auto

lemma next_tick_run:
  obtains t p' where "next_tick p = (Ok t, p')" and "pool_disk p' = pool_disk p"
    and "pool_capacity p' = pool_capacity p" and "pool_borrowed p' = pool_borrowed p"
    and "map fst (pool_frames p') = map fst (pool_frames p)"
    and "\<And>q. find_frame q p' = find_frame q p
       \<or> find_frame q p' = map_option (\<lambda>fr. fr\<lparr>frame_last_used := 0\<rparr>) (find_frame q p)"
proof (cases "pool_clock p + 1 = 0")
  case True
  let ?p = "p\<lparr>pool_frames := map (\<lambda>(pid, fr). (pid, fr\<lparr>frame_last_used := 0\<rparr>)) (pool_frames p), pool_clock := 1\<rparr>"
  have "find_frame q ?p = map_option (\<lambda>fr. fr\<lparr>frame_last_used := 0\<rparr>) (find_frame q p)" for q
    using map_of_map_snd [of "\<lambda>fr. fr\<lparr>frame_last_used := 0\<rparr>" "pool_frames p"] by (simp add: find_frame_def)
  moreover have "map fst (pool_frames ?p) = map fst (pool_frames p)"
    using map_fst_map_snd [of "\<lambda>fr. fr\<lparr>frame_last_used := 0\<rparr>" "pool_frames p"] by simp
  ultimately show ?thesis
    by (intro that [of 1 ?p]) (simp_all add: next_tick_def True)
next
  case False
  show ?thesis
    by (rule that [of "pool_clock p + 1" "p\<lparr>pool_clock := pool_clock p + 1\<rparr>"])
      (simp_all add: next_tick_def False find_frame_def Let_def)
qed

lemma frame_ok_last_used [simp]: "frame_ok q (fr\<lparr>frame_last_used := t\<rparr>) = frame_ok q fr"
  by (simp add: frame_ok_def)

lemma next_tick_evolves:
  assumes "pool_inv p" and "next_tick p = (r, p')"
  shows "evolves p p' \<and> length (pool_frames p') = length (pool_frames p)"
proof (rule next_tick_run [of p])
  fix t p1
  assume t: "next_tick p = (Ok t, p1)" "pool_capacity p1 = pool_capacity p" and d: "pool_disk p1 = pool_disk p"
    and t': "pool_borrowed p1 = pool_borrowed p" "map fst (pool_frames p1) = map fst (pool_frames p)"
    and f: "\<And>q. find_frame q p1 = find_frame q p
       \<or> find_frame q p1 = map_option (\<lambda>fr. fr\<lparr>frame_last_used := 0\<rparr>) (find_frame q p)"
  have len: "length (pool_frames p1) = length (pool_frames p)"
    using arg_cong [OF t'(2), of length] by simp
  have "kept (find_frame q p) (find_frame q p1)" for q
    using f [of q] by (cases "find_frame q p") auto
  moreover have "frame_ok q fr \<and> allocated q (pool_disk p)" if "find_frame q p1 = Some fr" for q fr
    using f [of q] that assms(1) by (cases "find_frame q p") (auto simp: pool_inv_def)
  ultimately have "evolves p p1"
    using assms(1) t t' d len by (simp add: evolves_def pool_inv_def)
  then show ?thesis
    using t(1) assms(2) len by simp
qed

text \<open>The disk never takes an allocated page back.\<close>

lemma persist_header_next: "next_id (snd (persist_header d)) = next_id d"
  using persist_header_any [of d "fst (persist_header d)" "snd (persist_header d)"] by simp

lemma write_page_bytes_next: "next_id (snd (write_page_bytes pid bs d)) = next_id d"
  by (auto simp: write_page_bytes_def seek_to_page_def on_file_def act_simps split: prod.splits result.splits)

lemma next_le_plus_one: "n \<noteq> - 1 \<Longrightarrow> n \<le> n + (1 :: u32)"
  using unat_u32_less [of n] unat_u32_max [of n] by (simp add: word_le_nat_alt unat_plus_one)

lemma disk_allocate_next: "disk_allocate_page d = (r, d') \<Longrightarrow> next_id d \<le> next_id d'"
proof (cases "disk_read_only d \<or> next_id d = - 1")
  case True
  then show "disk_allocate_page d = (r, d') \<Longrightarrow> ?thesis"
    by (cases "disk_read_only d") (auto simp: disk_allocate_page_def act_simps ensure_writable_def)
next
  case False
  assume run: "disk_allocate_page d = (r, d')"
  obtain w d1 where w: "write_page_bytes (next_id d) (page_bytes (zeroed (next_id d))) d = (w, d1)"
    by (metis prod.exhaust)
  let ?d2 = "d1\<lparr>disk_header := (disk_header d1)\<lparr>header_next_page_id := next_id d1 + 1\<rparr>\<rparr>"
  have d1: "next_id d1 = next_id d"
    using write_page_bytes_next [of "next_id d" _ d] w by (metis snd_conv)
  have "d' = d1 \<or> d' = snd (persist_header ?d2)"
    using run False w
    by (auto simp: disk_allocate_page_def act_simps ensure_writable_def Let_def split: result.splits prod.splits)
  then show ?thesis
    using d1 persist_header_next [of ?d2] next_le_plus_one [of "next_id d"] False by auto
qed

lemma disk_allocate_result: "disk_allocate_page d = (Ok pg, d') \<Longrightarrow>
    pg = zeroed (next_id d) \<and> next_id d' = next_id d + 1 \<and> next_id d \<noteq> - 1"
proof -
  assume run: "disk_allocate_page d = (Ok pg, d')"
  then have ro: "\<not> disk_read_only d" "next_id d \<noteq> - 1"
    by (auto simp: disk_allocate_page_def act_simps ensure_writable_def split: if_splits)
  obtain w d1 where w: "write_page_bytes (next_id d) (page_bytes (zeroed (next_id d))) d = (w, d1)"
    by (metis prod.exhaust)
  let ?d2 = "d1\<lparr>disk_header := (disk_header d1)\<lparr>header_next_page_id := next_id d1 + 1\<rparr>\<rparr>"
  have "next_id d1 = next_id d"
    using write_page_bytes_next [of "next_id d" _ d] w by (metis snd_conv)
  moreover have "pg = zeroed (next_id d) \<and> d' = snd (persist_header ?d2)"
    using run ro w
    by (auto simp: disk_allocate_page_def act_simps ensure_writable_def Let_def split: result.splits prod.splits)
  ultimately show ?thesis
    using persist_header_next [of ?d2] ro(2) by auto
qed

lemma disk_read_result: "disk_read_page pid d = (Ok pg, d') \<Longrightarrow>
    page_ident pg = pid \<and> page_sized pg \<and> \<not> page_dirty pg \<and> allocated pid d"
  by (auto simp: disk_read_page_def act_simps seek_to_page_def on_file_def io_err_def file_read_exact_def from_bytes_def
      page_sized_def length_slice ensure_allocated_iff split: prod.splits result.splits option.splits if_splits)

lemma on_disk_evolves:
  assumes "pool_inv p" and "on_disk m p = (r, p')" and "\<And>r d'. m (pool_disk p) = (r, d') \<Longrightarrow> next_id (pool_disk p) \<le> next_id d'"
  shows "evolves p p' \<and> pool_frames p' = pool_frames p"
proof -
  obtain w d' where m: "m (pool_disk p) = (w, d')" by (metis prod.exhaust)
  then have "p' = p\<lparr>pool_disk := d'\<rparr>"
    using assms(2) by (simp add: on_disk_def)
  then show ?thesis
    using evolves_other [OF assms(1), of p'] assms(3) [OF m] by simp
qed

section \<open>Flushing and eviction\<close>

lemma write_page_clean: "disk_write_page pg d = (Ok pg', d') \<Longrightarrow> pg' = mark_clean pg"
  by (auto simp: disk_write_page_def act_simps split: prod.splits result.splits)

lemma flush_frame_evolves:
  assumes inv: "pool_inv p" and run: "flush_frame pid p = (r, p')" and fr: "find_frame pid p = Some fr"
  shows "evolves p p' \<and> length (pool_frames p') = length (pool_frames p) \<and> map fst (pool_frames p') = map fst (pool_frames p)
    \<and> (\<exists>fr'. find_frame pid p' = Some fr' \<and> frame_pin_count fr' = frame_pin_count fr)"
proof (cases "frame_borrow fr = Unborrowed \<and> page_dirty (frame_page fr)")
  case False
  then have "p' = p"
    using run fr by (auto simp: flush_frame_def get_frame_def act_simps split: if_splits)
  then show ?thesis using inv fr by (simp add: evolves_refl)
next
  case True
  obtain w p1 where w: "on_disk (disk_write_page (frame_page fr)) p = (w, p1)"
    by (metis prod.exhaust)
  have "page_sized (frame_page fr)"
    using inv fr by (auto simp: pool_inv_def frame_ok_def)
  then have D: "evolves p p1 \<and> pool_frames p1 = pool_frames p"
    using disk_write_any by (intro on_disk_evolves [OF inv w]) (metis order_refl)
  have keys: "fst ` set (pool_frames p1) = fst ` set (pool_frames p)" "find_frame pid p1 = Some fr"
    using D fr by (simp_all add: find_frame_def)
  show ?thesis
  proof (cases w)
    case (Ok pg)
    then have pg: "pg = mark_clean (frame_page fr)"
      using w write_page_clean by (auto simp: on_disk_def split: prod.splits)
    let ?fr = "fr\<lparr>frame_page := pg\<rparr>"
    have p': "p' = count_disk_write (put_frame pid ?fr p1)"
      using run fr True w Ok by (auto simp: flush_frame_def get_frame_def act_simps)
    have "frame_ok pid ?fr"
      using inv fr by (auto simp: pool_inv_def frame_ok_def pg mark_clean_def page_sized_def)
    then have "evolves p1 (put_frame pid ?fr p1)"
      using D keys(2) by (intro evolves_put) (auto simp: evolves_def pool_inv_def pg mark_clean_def)
    then have "evolves p p'"
      using D evolves_trans evolves_other [of "put_frame pid ?fr p1" p'] evolves_inv p' by auto
    moreover have "map fst (pool_frames p') = map fst (pool_frames p)"
      using D find_frame_in [OF fr] by (simp add: p' put_frame_def update_keys)
    ultimately show ?thesis
      using p' keys D find_frame_in [OF fr] by (auto simp: put_frame_def length_AList_update find_frame_def update_conv')
  next
    case (Err e)
    then have "p' = p1"
      using run fr True w by (auto simp: flush_frame_def get_frame_def act_simps)
    then show ?thesis using D keys by auto
  next
    case Panic
    then have "p' = p1"
      using run fr True w by (auto simp: flush_frame_def get_frame_def act_simps)
    then show ?thesis using D keys by auto
  qed
qed

lemma min_by_key_Some:
  "min_by_key f xs = Some x \<Longrightarrow> x \<in> set xs \<and> (\<forall>y\<in>set xs. f x \<le> f y)"
proof (induction xs arbitrary: x)
  case (Cons a xs)
  show ?case
  proof (cases "min_by_key f xs")
    case None
    then have "xs = []" by (cases xs) (auto split: option.splits if_splits)
    then show ?thesis using Cons.prems by simp
  next
    case (Some y)
    then show ?thesis
      using Cons.prems Cons.IH [OF Some] by (auto split: if_splits)
  qed
qed simp

lemma min_by_key_None [simp]: "min_by_key f xs = None \<longleftrightarrow> xs = []"
  by (cases xs) (auto split: option.splits if_splits)

text \<open>The frame \<open>ensure_space\<close> evicts: unpinned, and used least recently among those.\<close>

definition is_victim :: "page_id \<Rightarrow> buffer_pool \<Rightarrow> bool" where
  "is_victim pid p \<longleftrightarrow> (\<exists>fr. find_frame pid p = Some fr \<and> frame_pin_count fr = 0
     \<and> (\<forall>q fr'. find_frame q p = Some fr' \<and> frame_pin_count fr' = 0 \<longrightarrow> frame_last_used fr \<le> frame_last_used fr'))"

lemma ensure_space_full:
  assumes inv: "pool_inv p" and full: "\<not> length (pool_frames p) < pool_capacity p"
  shows "if \<exists>pid fr. find_frame pid p = Some fr \<and> frame_pin_count fr = 0
    then \<exists>victim. is_victim victim p
      \<and> ensure_space p = seq_act (flush_frame victim) (seq_act (update (remove_frame victim)) (update count_eviction)) p
    else ensure_space p = (Err BP_AllFramesPinned, p)"
proof -
  let ?un = "filter (\<lambda>(_, fr). frame_pin_count fr = 0) (pool_frames p)"
  have mem: "find_frame q p = Some fr \<longleftrightarrow> (q, fr) \<in> set (pool_frames p)" for q fr
    using inv by (simp add: pool_inv_def find_frame_def)
  show ?thesis
  proof (cases "min_by_key (\<lambda>(_, fr). frame_last_used fr) ?un")
    case None
    then have "\<not> (\<exists>pid fr. find_frame pid p = Some fr \<and> frame_pin_count fr = 0)"
      by (auto simp: mem filter_empty_conv)
    moreover have "ensure_space p = (Err BP_AllFramesPinned, p)"
      using None full by (simp add: ensure_space_def act_simps)
    ultimately show ?thesis by meson
  next
    case (Some x)
    obtain victim fr where x: "x = (victim, fr)" by (cases x)
    note M = min_by_key_Some [OF Some]
    have "is_victim victim p"
      using M by (fastforce simp: is_victim_def mem x)
    moreover from this have "\<exists>pid fr. find_frame pid p = Some fr \<and> frame_pin_count fr = 0"
      by (auto simp: is_victim_def)
    moreover have "ensure_space p =
        seq_act (flush_frame victim) (seq_act (update (remove_frame victim)) (update count_eviction)) p"
      using Some full x by (simp add: ensure_space_def act_simps)
    ultimately show ?thesis by auto
  qed
qed

lemma ensure_space_evolves:
  assumes inv: "pool_inv p" and run: "ensure_space p = (r, p')"
  shows "evolves p p' \<and> (r = Ok () \<longrightarrow> length (pool_frames p') < pool_capacity p)
    \<and> (\<forall>q. find_frame q p = None \<longrightarrow> find_frame q p' = None)"
proof (cases "length (pool_frames p) < pool_capacity p")
  case True
  then show ?thesis
    using run inv by (auto simp: ensure_space_def act_simps evolves_refl)
next
  case full: False
  show ?thesis
  proof (cases "\<exists>pid fr. find_frame pid p = Some fr \<and> frame_pin_count fr = 0")
    case False
    then have "p' = p" "r = Err BP_AllFramesPinned"
      using ensure_space_full [OF inv full] run by auto
    then show ?thesis
      using inv by (simp add: evolves_refl)
  next
    case True
    then obtain victim where v: "is_victim victim p"
        "ensure_space p = seq_act (flush_frame victim) (seq_act (update (remove_frame victim)) (update count_eviction)) p"
      using ensure_space_full [OF inv full] by auto
    then obtain fr where fr: "find_frame victim p = Some fr" "frame_pin_count fr = 0"
      by (auto simp: is_victim_def)
    obtain w p1 where w: "flush_frame victim p = (w, p1)"
      by (metis prod.exhaust)
    note F = flush_frame_evolves [OF inv w fr(1)]
    obtain fr1 where fr1: "find_frame victim p1 = Some fr1" "frame_pin_count fr1 = 0"
      using F fr(2) by auto
    note R = evolves_remove [OF evolves_inv fr1]
    have gone: "find_frame q p1 = None" if "find_frame q p = None" for q
      using that F by (simp add: find_frame_def map_of_eq_None_iff) (metis list.set_map)
    show ?thesis
    proof (cases "w = Ok ()")
      case True
      then have p': "r = Ok ()" "p' = count_eviction (remove_frame victim p1)"
        using run v(2) w by (auto simp: act_simps)
      have "evolves p1 (remove_frame victim p1)"
        using R(1) F by blast
      moreover from this have "evolves (remove_frame victim p1) p'"
        by (intro evolves_other) (auto simp: p'(2) intro: evolves_inv)
      ultimately have "evolves p p'"
        using F evolves_trans by blast
      moreover have "length (pool_frames p') < pool_capacity p"
        using R(2) F p'(2) by (auto simp: evolves_def)
      ultimately show ?thesis using gone p' by auto
    next
      case False
      then have "p' = p1" "r \<noteq> Ok ()"
        using run v(2) w by (auto simp: act_simps split: result.splits)
      then show ?thesis using F gone by auto
    qed
  qed
qed

section \<open>Pinning and allocation\<close>

lemma put_new_evolves:
  assumes "pool_inv p" and "length (pool_frames p) < pool_capacity p" and "find_frame pid p = None"
    and "frame_ok pid fr" and "allocated pid (pool_disk p)"
  shows "evolves p (put_frame pid fr p)"
  using assms by (intro evolves_put) auto

lemma load_frame_evolves:
  assumes inv: "pool_inv p" and run: "load_frame pid tick p = (r, p')"
  shows "evolves p p' \<and> (\<forall>fr. r = Ok fr \<longrightarrow> find_frame pid p' = Some fr)"
proof (cases "find_frame pid p")
  case (Some fr)
  then have "r = Ok fr" "p' = count_hit p"
    using run by (auto simp: load_frame_def act_simps)
  then show ?thesis
    using evolves_other [OF inv, of "count_hit p"] Some by simp
next
  case None
  let ?p = "count_miss p"
  have miss: "evolves p ?p"
    using inv by (intro evolves_other) simp_all
  obtain e p1 where e: "ensure_space ?p = (e, p1)" by (metis prod.exhaust)
  note E = ensure_space_evolves [OF evolves_inv [OF miss] e]
  have p1: "evolves p p1" using miss E evolves_trans by blast
  show ?thesis
  proof (cases "e = Ok ()")
    case False
    then have "p' = p1 \<and> (\<forall>fr. r \<noteq> Ok fr)"
      using run None e by (auto simp: load_frame_def act_simps split: result.splits)
    then show ?thesis using p1 by simp
  next
    case True
    obtain w p2 where w: "on_disk (disk_read_page pid) p1 = (w, p2)" by (metis prod.exhaust)
    have D: "evolves p1 p2 \<and> pool_frames p2 = pool_frames p1"
      using disk_read_any by (intro on_disk_evolves [OF evolves_inv [OF p1] w]) (metis order_refl)
    then have p2: "evolves p p2" using p1 evolves_trans by blast
    show ?thesis
    proof (cases "\<exists>pg. w = Ok pg")
      case False
      then have "p' = p2 \<and> (\<forall>fr. r \<noteq> Ok fr)"
        using run None e True w by (auto simp: load_frame_def act_simps split: result.splits)
      then show ?thesis using p2 by simp
    next
      case True
      then obtain pg where pg: "w = Ok pg" by blast
      let ?fr = "\<lparr>frame_page_id = pid, frame_page = pg, frame_borrow = Unborrowed, frame_pin_count = 0,
          frame_last_used = tick, frame_writable = \<not> disk_read_only (pool_disk p2)\<rparr>"
      have p': "p' = put_frame pid ?fr p2" "r = Ok ?fr"
        using run None e \<open>e = Ok ()\<close> w pg by (auto simp: load_frame_def act_simps Let_def)
      obtain d' where d': "disk_read_page pid (pool_disk p1) = (Ok pg, d')" "p2 = p1\<lparr>pool_disk := d'\<rparr>"
        using w pg by (auto simp: on_disk_def split: prod.splits)
      have "frame_ok pid ?fr" "allocated pid (pool_disk p2)"
        using disk_read_result [OF d'(1)] disk_read_any [OF d'(1)] d'(2) by (auto simp: frame_ok_def allocated_def)
      moreover have "find_frame pid p2 = None"
        using E None D by (simp add: find_frame_def)
      moreover have "length (pool_frames p2) < pool_capacity p2"
        using E \<open>e = Ok ()\<close> D p1 by (simp add: evolves_def)
      ultimately have "evolves p2 p'"
        using p' p2 by (auto intro: put_new_evolves evolves_inv)
      then show ?thesis using p2 p' evolves_trans by auto
    qed
  qed
qed

lemma checked_inc: "checked_add_word a 1 = Some b \<Longrightarrow> a \<le> b \<and> b \<noteq> 0 \<and> unat b = unat a + 1"
  using checked_add_word_Some [of a 1 b] by (auto simp: word_le_nat_alt)

lemma pin_run:
  assumes inv: "pool_inv p" and t: "next_tick p = (Ok t, p1)" and l: "load_frame pid t p1 = (l, p2)"
  shows "pin pid p = (case l of Ok fr \<Rightarrow>
      (case checked_add_word (frame_pin_count fr) 1 of
         Some c \<Rightarrow> (Ok pid, put_frame pid (fr\<lparr>frame_pin_count := c, frame_last_used := t\<rparr>) p2)
       | None \<Rightarrow> (Err (BP_PinCountExhausted pid), p2))
    | Err e \<Rightarrow> (Err e, p2) | Panic \<Rightarrow> (Panic, p2))"
  using inv t l by (auto simp: pin_def borrow_inner_mut_def pool_inv_def act_simps split: result.split option.split)

lemma pin_evolves:
  assumes inv: "pool_inv p" and run: "pin pid p = (r, p')"
  shows "evolves p p' \<and> (\<forall>g. r = Ok g \<longrightarrow> g = pid \<and> (\<exists>fr. find_frame pid p' = Some fr \<and> frame_pin_count fr \<noteq> 0))"
proof -
  obtain t p1 where t: "next_tick p = (Ok t, p1)"
    using next_tick_run [of p] by metis
  note T = next_tick_evolves [OF inv t]
  obtain l p2 where l: "load_frame pid t p1 = (l, p2)" by (metis prod.exhaust)
  note L = load_frame_evolves [OF evolves_inv [OF conjunct1 [OF T]] l]
  have p2: "evolves p p2" using T L evolves_trans by blast
  note rest = pin_run [OF inv t l]
  show ?thesis
  proof (cases "\<exists>fr c. l = Ok fr \<and> checked_add_word (frame_pin_count fr) 1 = Some c")
    case False
    then have "p' = p2 \<and> (\<forall>g. r \<noteq> Ok g)"
      using run rest by (cases l) (auto split: option.splits)
    then show ?thesis using p2 by simp
  next
    case True
    then obtain fr c where c: "l = Ok fr" "checked_add_word (frame_pin_count fr) 1 = Some c" by blast
    let ?fr = "fr\<lparr>frame_pin_count := c, frame_last_used := t\<rparr>"
    have p': "r = Ok pid" "p' = put_frame pid ?fr p2"
      using run rest c by auto
    have fr: "find_frame pid p2 = Some fr" using L c by auto
    have inv2: "pool_inv p2" using evolves_inv [OF p2] .
    then have ok: "frame_ok pid ?fr" "allocated pid (pool_disk p2)"
      using fr checked_inc [OF c(2)] by (auto simp: pool_inv_def frame_ok_def)
    have "evolves p2 p'"
      unfolding p'(2) using fr checked_inc [OF c(2)] by (intro evolves_put inv2 ok) auto
    then show ?thesis
      using p2 evolves_trans p' checked_inc [OF c(2)] by auto
  qed
qed

lemma allocate_evolves:
  assumes inv: "pool_inv p" and run: "pool_allocate_page p = (r, p')"
  shows "evolves p p' \<and> (\<forall>g. r = Ok g \<longrightarrow> (\<exists>fr. find_frame g p' = Some fr \<and> frame_pin_count fr \<noteq> 0))"
proof (cases "disk_read_only (pool_disk p)")
  case True
  then have "p' = p \<and> r = Err BP_ReadOnly"
    using run inv by (auto simp: pool_allocate_page_def borrow_inner_mut_def act_simps pool_inv_def)
  then show ?thesis using inv by (simp add: evolves_refl)
next
  case rw: False
  have nb: "\<not> pool_borrowed p" using inv by (simp add: pool_inv_def)
  obtain e p1 where e: "ensure_space p = (e, p1)" by (metis prod.exhaust)
  note E = ensure_space_evolves [OF inv e]
  obtain w p2 where w: "on_disk disk_allocate_page p1 = (w, p2)" by (metis prod.exhaust)
  have D: "evolves p1 p2 \<and> pool_frames p2 = pool_frames p1"
    using disk_allocate_next E by (intro on_disk_evolves [OF _ w]) (auto intro: evolves_inv)
  have p2: "evolves p p2" using E D evolves_trans by blast
  show ?thesis
  proof (cases "e = Ok () \<and> (\<exists>pg. w = Ok pg)")
    case False
    then have "(p' = p1 \<or> p' = p2) \<and> (\<forall>g. r \<noteq> Ok g)"
      using run rw nb e w by (cases e; cases w) (auto simp: pool_allocate_page_def borrow_inner_mut_def act_simps)
    then show ?thesis using p2 E by auto
  next
    case True
    then obtain pg where pg: "e = Ok ()" "w = Ok pg" by blast
    then obtain d' where d': "disk_allocate_page (pool_disk p1) = (Ok pg, d')" "p2 = p1\<lparr>pool_disk := d'\<rparr>"
      using w by (auto simp: on_disk_def split: prod.splits)
    let ?pid = "page_ident pg"
    have A: "pg = zeroed ?pid" "?pid = next_id (pool_disk p1)" "next_id d' = ?pid + 1" "?pid \<noteq> - 1"
      using disk_allocate_result [OF d'(1)] by (auto simp: zeroed_def)
    obtain t p3 where t: "next_tick p2 = (Ok t, p3)" and t': "pool_disk p3 = pool_disk p2"
        "\<And>q. find_frame q p3 = find_frame q p2
       \<or> find_frame q p3 = map_option (\<lambda>fr. fr\<lparr>frame_last_used := 0\<rparr>) (find_frame q p2)"
      using next_tick_run [of p2] by metis
    note T = next_tick_evolves [OF evolves_inv [OF p2] t]
    let ?fr = "\<lparr>frame_page_id = ?pid, frame_page = pg, frame_borrow = Unborrowed, frame_pin_count = 1,
        frame_last_used = t, frame_writable = True\<rparr>"
    have p': "r = Ok ?pid" "p' = put_frame ?pid ?fr p3"
      using run rw nb e w t pg by (auto simp: pool_allocate_page_def borrow_inner_mut_def act_simps Let_def)
    have "\<not> allocated ?pid (pool_disk p1)"
      using A by (simp add: allocated_def)
    then have "find_frame ?pid p1 = None"
      using evolves_inv [OF conjunct1 [OF E]] by (cases "find_frame ?pid p1") (auto simp: pool_inv_def)
    then have "find_frame ?pid p3 = None"
      using t'(2) [of ?pid] D by (auto simp: find_frame_def)
    moreover have "frame_ok ?pid ?fr"
      using A page_sized_zeroed [of ?pid] by (auto simp: frame_ok_def)
    moreover have "length (pool_frames p3) < pool_capacity p3"
      using T D E pg by (simp add: evolves_def)
    moreover have "?pid \<noteq> 0"
      using evolves_inv [OF conjunct1 [OF E]] A(2) by (simp add: pool_inv_def)
    moreover have "?pid < ?pid + 1"
      using next_le_plus_one [OF A(4)] by (simp add: less_le)
    ultimately have "evolves p3 p'"
      using p' T d' t' A by (auto simp: allocated_def intro: put_new_evolves evolves_inv)
    then have "evolves p p'"
      using p2 T evolves_trans by meson
    then show ?thesis
      using p' by auto
  qed
qed

section \<open>The other operations\<close>

lemma flush_frames_evolves:
  "pool_inv p \<Longrightarrow> set pids \<subseteq> fst ` set (pool_frames p) \<Longrightarrow> flush_frames pids p = (r, p') \<Longrightarrow> evolves p p'"
proof (induction pids arbitrary: p)
  case Nil
  then show ?case by (simp add: act_simps evolves_refl)
next
  case (Cons pid pids)
  obtain fr where fr: "find_frame pid p = Some fr"
    using Cons.prems(2) by (metis find_frame_def insert_subset list.simps(15) map_of_eq_None_iff not_Some_eq list.set_map)
  obtain w p1 where w: "flush_frame pid p = (w, p1)" by (metis prod.exhaust)
  note F = flush_frame_evolves [OF Cons.prems(1) w fr]
  have keys: "fst ` set (pool_frames p1) = fst ` set (pool_frames p)"
    using F by (metis list.set_map)
  show ?case
  proof (cases "w = Ok ()")
    case True
    then have "flush_frames pids p1 = (r, p')"
      using Cons.prems(3) w by (simp add: act_simps)
    then have "evolves p1 p'"
      using Cons.IH [of p1] Cons.prems(2) keys F by (auto intro: evolves_inv)
    then show ?thesis using F evolves_trans by blast
  next
    case False
    then have "p' = p1"
      using Cons.prems(3) w by (cases w) (auto simp: act_simps)
    then show ?thesis using F by simp
  qed
qed

lemma flush_all_frames_evolves: "pool_inv p \<Longrightarrow> flush_all_frames p = (r, p') \<Longrightarrow> evolves p p'"
  using flush_frames_evolves [of p "map fst (pool_frames p)"] by (simp add: flush_all_frames_def act_simps)

lemma borrow_inner_run: "pool_inv p \<Longrightarrow> borrow_inner_mut p = (Ok (), p)"
  by (simp add: borrow_inner_mut_def pool_inv_def)

lemma borrow_inner_ok: "pool_inv p \<Longrightarrow> seq_act borrow_inner_mut m p = m p"
  by (simp add: act_simps borrow_inner_run)

lemma flush_page_evolves: "pool_inv p \<Longrightarrow> flush_page pid p = (r, p') \<Longrightarrow> evolves p p'"
  using flush_frame_evolves [of p pid r p']
  by (auto simp: flush_page_def borrow_inner_run act_simps evolves_refl split: option.splits)

lemma flush_all_evolves: "pool_inv p \<Longrightarrow> flush_all p = (r, p') \<Longrightarrow> evolves p p'"
  using flush_all_frames_evolves by (simp add: flush_all_def borrow_inner_ok)

lemma pool_sync_evolves:
  assumes inv: "pool_inv p" and run: "pool_sync p = (r, p')"
  shows "evolves p p'"
proof -
  obtain w p1 where w: "flush_all_frames p = (w, p1)" by (metis prod.exhaust)
  note F = flush_all_frames_evolves [OF inv w]
  show ?thesis
  proof (cases "w = Ok ()")
    case True
    then have "on_disk disk_sync p1 = (r, p')"
      using run w inv by (simp add: pool_sync_def borrow_inner_run act_simps)
    then have "evolves p1 p'"
      using disk_sync_any by (metis on_disk_evolves [OF evolves_inv [OF F]] order_refl)
    then show ?thesis using F evolves_trans by blast
  next
    case False
    then have "p' = p1"
      using run w inv by (cases w) (auto simp: pool_sync_def borrow_inner_run act_simps)
    then show ?thesis using F by simp
  qed
qed

lemma set_root_evolves:
  assumes "pool_inv p" and "pool_set_catalog_root pid p = (r, p')"
  shows "evolves p p'"
  using on_disk_evolves [of p "set_catalog_root pid" r p'] assms set_catalog_root_any
  by (auto simp: pool_set_catalog_root_def borrow_inner_ok)

end
