(* ===== verification/Buffer_View.thy ===== *)
theory Buffer_View
  imports Buffer_Facts
begin

text \<open>
  What the clients of the buffer pool see: the contents of each page, cached or on disk, and
  for each page its pins and its borrow state. On a sound pool over a disk that does not
  fail, every operation is described by its effect on these, and flushing and eviction have
  none.
\<close>

section \<open>The abstract pool\<close>

definition cached :: "buffer_pool \<Rightarrow> page_id \<Rightarrow> bytes option" where
  "cached p pid = map_option (\<lambda>fr. page_bytes (frame_page fr)) (find_frame pid p)"

definition pool_view :: "buffer_pool \<Rightarrow> page_id \<Rightarrow> bytes option" where
  "pool_view p = disk_pages (pool_disk p) ++ cached p"

definition pins :: "buffer_pool \<Rightarrow> page_id \<Rightarrow> u32" where
  "pins p pid = (case find_frame pid p of Some fr \<Rightarrow> frame_pin_count fr | None \<Rightarrow> 0)"

definition borrows :: "buffer_pool \<Rightarrow> page_id \<Rightarrow> borrow" where
  "borrows p pid = (case find_frame pid p of Some fr \<Rightarrow> frame_borrow fr | None \<Rightarrow> Unborrowed)"

text \<open>A cached page that is not dirty agrees with the disk, and nothing is dirty, or may be
  written, on a read-only disk.\<close>

definition frame_sound :: "disk_manager \<Rightarrow> page_id \<Rightarrow> frame \<Rightarrow> bool" where
  "frame_sound d pid fr \<longleftrightarrow> frame_writable fr = (\<not> disk_read_only d)
     \<and> (if page_dirty (frame_page fr) then \<not> disk_read_only d
        else disk_pages d pid = Some (page_bytes (frame_page fr)))"

definition pool_sound :: "buffer_pool \<Rightarrow> bool" where
  "pool_sound p \<longleftrightarrow> pool_inv p \<and> disk_ok (pool_disk p) \<and> healthy (pool_disk p)
     \<and> (\<forall>pid fr. find_frame pid p = Some fr \<longrightarrow> frame_sound (pool_disk p) pid fr)"

text \<open>A frame is free, or one can be evicted.\<close>

definition has_room :: "buffer_pool \<Rightarrow> bool" where
  "has_room p \<longleftrightarrow> length (pool_frames p) < pool_capacity p
     \<or> (\<exists>pid fr. find_frame pid p = Some fr \<and> frame_pin_count fr = 0)"

text \<open>What no operation but the named one changes.\<close>

definition same_client_state :: "buffer_pool \<Rightarrow> buffer_pool \<Rightarrow> bool" where
  "same_client_state p p' \<longleftrightarrow> pool_view p' = pool_view p \<and> pins p' = pins p \<and> borrows p' = borrows p
     \<and> pool_capacity p' = pool_capacity p \<and> disk_meta (pool_disk p') = disk_meta (pool_disk p)"

lemma same_client_state_refl [simp]: "same_client_state p p"
  by (simp add: same_client_state_def)

lemma same_client_state_trans:
  "same_client_state p q \<Longrightarrow> same_client_state q r \<Longrightarrow> same_client_state p r"
  by (simp add: same_client_state_def)

lemma pool_sound_inv: "pool_sound p \<Longrightarrow> pool_inv p"
  by (simp add: pool_sound_def)

lemma soundD:
  assumes "pool_sound p" and "find_frame pid p = Some fr"
  shows "frame_sound (pool_disk p) pid fr" "frame_ok pid fr" "allocated pid (pool_disk p)"
    "pool_view p pid = Some (page_bytes (frame_page fr))" "disk_pages (pool_disk p) pid \<noteq> None"
  using assms by (auto simp: pool_sound_def pool_inv_def pool_view_def cached_def disk_pages_def)

lemma pool_view_allocated: "pool_sound p \<Longrightarrow> pool_view p pid \<noteq> None \<longleftrightarrow> allocated pid (pool_disk p)"
  by (auto simp: pool_view_def cached_def disk_pages_def map_add_def pool_sound_def pool_inv_def split: option.splits)

text \<open>A change of one frame, the disk staying.\<close>

lemma cached_put [simp]: "cached (put_frame pid fr p) = (cached p)(pid \<mapsto> page_bytes (frame_page fr))"
  by (auto simp: cached_def fun_eq_iff)

lemma cached_remove [simp]: "cached (remove_frame pid p) = (cached p)(pid := None)"
  by (auto simp: cached_def fun_eq_iff)

lemma cached_count [simp]:
  "cached (count_eviction p) = cached p" "cached (count_miss p) = cached p" "cached (count_hit p) = cached p"
  "cached (count_disk_write p) = cached p" "cached (p\<lparr>pool_disk := d\<rparr>) = cached p"
  by (simp_all add: cached_def fun_eq_iff)

lemma pins_put [simp]: "pins (put_frame pid fr p) = (pins p)(pid := frame_pin_count fr)"
  by (auto simp: pins_def fun_eq_iff)

lemma borrows_put [simp]: "borrows (put_frame pid fr p) = (borrows p)(pid := frame_borrow fr)"
  by (auto simp: borrows_def fun_eq_iff)

lemma pins_remove: "pins p pid = 0 \<Longrightarrow> pins (remove_frame pid p) = pins p"
  by (auto simp: pins_def fun_eq_iff)

lemma borrows_remove: "borrows p pid = Unborrowed \<Longrightarrow> borrows (remove_frame pid p) = borrows p"
  by (auto simp: borrows_def fun_eq_iff)

lemma unpinned_unborrowed: "pool_inv p \<Longrightarrow> pins p pid = 0 \<Longrightarrow> borrows p pid = Unborrowed"
  by (auto simp: pool_inv_def pins_def borrows_def frame_ok_def split: option.splits)

lemma put_sound:
  assumes "pool_sound p" and "pool_inv (put_frame pid fr p)" and "frame_sound (pool_disk p) pid fr"
  shows "pool_sound (put_frame pid fr p)"
  using assms by (simp add: pool_sound_def)

section \<open>Flushing and eviction\<close>

lemma flush_frame_sound:
  assumes sound: "pool_sound p" and fr: "find_frame pid p = Some fr" and free: "frame_borrow fr = Unborrowed"
  shows "\<exists>p'. flush_frame pid p = (Ok (), p') \<and> pool_sound p' \<and> same_client_state p p'
    \<and> (\<forall>q. find_frame q p' = (if q = pid then Some (fr\<lparr>frame_page := mark_clean (frame_page fr)\<rparr>) else find_frame q p))
    \<and> map fst (pool_frames p') = map fst (pool_frames p)
    \<and> disk_pages (pool_disk p') pid = Some (page_bytes (frame_page fr))
    \<and> (\<forall>q. q \<noteq> pid \<longrightarrow> disk_pages (pool_disk p') q = disk_pages (pool_disk p) q)"
proof (cases "page_dirty (frame_page fr)")
  case False
  then have "mark_clean (frame_page fr) = frame_page fr"
    by (simp add: mark_clean_def)
  then show ?thesis
    using assms False soundD(1) [OF sound fr]
    by (auto simp: flush_frame_def get_frame_def act_simps frame_sound_def)
next
  case True
  let ?d = "pool_disk p" and ?pg = "frame_page fr"
  have ok: "disk_ok ?d \<and> healthy ?d" "page_sized ?pg" "page_ident ?pg = pid" "\<not> disk_read_only ?d" "disk_pages ?d pid \<noteq> None"
    using sound soundD [OF sound fr] True by (auto simp: pool_sound_def frame_ok_def frame_sound_def)
  then obtain pg d where w: "disk_write_page ?pg ?d = (Ok pg, d)" "disk_ok d" "healthy d"
      "disk_pages d ++ cached p = pool_view p" "disk_pages d pid = Some (page_bytes ?pg)"
      "\<forall>q. q \<noteq> pid \<longrightarrow> disk_pages d q = disk_pages ?d q" "disk_meta d = disk_meta ?d"
    using disk.write_back [of ?d ?pg "cached p"] fr by (auto simp: cached_def pool_view_def)
  then have pg: "pg = mark_clean ?pg" using write_page_clean by blast
  let ?fr = "fr\<lparr>frame_page := pg\<rparr>"
  let ?p = "count_disk_write (put_frame pid ?fr (p\<lparr>pool_disk := d\<rparr>))"
  have run: "flush_frame pid p = (Ok (), ?p)"
    using fr free True w(1) by (simp add: flush_frame_def get_frame_def on_disk_def act_simps)
  note F = flush_frame_evolves [OF _ run fr]
  have find: "find_frame q ?p = (if q = pid then Some ?fr else find_frame q p)" for q
    by (simp add: find_frame_def put_frame_def update_conv' count_disk_write_def)
  have "frame_sound d q fr'" if "find_frame q p = Some fr'" "q \<noteq> pid" for q fr'
    using soundD(1) [OF sound that(1)] w(6,7) that(2) by (simp add: frame_sound_def)
  moreover have "frame_sound d pid ?fr"
    using soundD(1) [OF sound fr] w(5,7) by (simp add: frame_sound_def pg mark_clean_def)
  ultimately have "pool_sound ?p"
    using F sound w(2,3) by (simp add: pool_sound_def evolves_def find split: if_splits)
  moreover have "cached ?p = cached p" "pins ?p = pins p" "borrows ?p = borrows p"
    using fr by (auto simp: cached_def pins_def borrows_def find pg mark_clean_def fun_eq_iff)
  then have "same_client_state p ?p"
    using w(4,7) by (simp add: same_client_state_def pool_view_def)
  ultimately show ?thesis
    using run find F sound w(5,6) by (auto simp: pg pool_sound_def)
qed

lemma has_room_full:
  "has_room p \<Longrightarrow> \<not> length (pool_frames p) < pool_capacity p \<Longrightarrow> \<exists>pid fr. find_frame pid p = Some fr \<and> frame_pin_count fr = 0"
  by (simp add: has_room_def)

lemma ensure_space_sound:
  assumes sound: "pool_sound p" and room: "has_room p"
  shows "\<exists>p'. ensure_space p = (Ok (), p') \<and> pool_sound p' \<and> same_client_state p p'
    \<and> length (pool_frames p') < pool_capacity p'
    \<and> (\<forall>q. find_frame q p = None \<longrightarrow> find_frame q p' = None)"
proof (cases "length (pool_frames p) < pool_capacity p")
  case True
  then show ?thesis using sound by (auto simp: ensure_space_def act_simps)
next
  case full: False
  have inv: "pool_inv p" using sound by (simp add: pool_sound_def)
  obtain victim where v: "is_victim victim p"
      "ensure_space p = seq_act (flush_frame victim) (seq_act (update (remove_frame victim)) (update count_eviction)) p"
    using ensure_space_full [OF inv full] has_room_full [OF room full] by meson
  then obtain fr where fr: "find_frame victim p = Some fr" "frame_pin_count fr = 0"
    by (auto simp: is_victim_def)
  have "frame_borrow fr = Unborrowed"
    using soundD(2) [OF sound fr(1)] fr(2) by (auto simp: frame_ok_def)
  from flush_frame_sound [OF sound fr(1) this] obtain p1 where p1:
      "flush_frame victim p = (Ok (), p1)" "pool_sound p1" "same_client_state p p1"
      "\<And>q. find_frame q p1 = (if q = victim then Some (fr\<lparr>frame_page := mark_clean (frame_page fr)\<rparr>) else find_frame q p)"
      "disk_pages (pool_disk p1) victim = Some (page_bytes (frame_page fr))"
    by blast
  let ?p = "count_eviction (remove_frame victim p1)"
  have run: "ensure_space p = (Ok (), ?p)"
    using v(2) p1(1) by (simp add: act_simps)
  note E = ensure_space_evolves [OF inv run]
  have "cached p1 victim = disk_pages (pool_disk p1) victim"
    using p1(4) [of victim] p1(5) by (simp add: cached_def mark_clean_def)
  then have "pool_view ?p = pool_view p1"
    using disk.evict [of "pool_disk p1" victim "cached p1"] by (simp add: pool_view_def)
  moreover have "pins p1 victim = 0"
    using p1(4) [of victim] fr(2) by (simp add: pins_def)
  then have "pins ?p = pins p1" "borrows ?p = borrows p1"
    using pins_remove [of p1 victim] borrows_remove [of p1 victim] unpinned_unborrowed [of p1 victim] p1(2)
    by (simp_all add: pins_def borrows_def pool_sound_def fun_eq_iff)
  ultimately have "same_client_state p1 ?p"
    by (simp add: same_client_state_def)
  moreover have "pool_sound ?p"
    using E p1(2) by (simp add: pool_sound_def evolves_def)
  ultimately show ?thesis
    using run E p1(3) same_client_state_trans by (auto simp: evolves_def)
qed

section \<open>Pinning and allocation\<close>

lemma frame_sound_last_used [simp]: "frame_sound d q (fr\<lparr>frame_last_used := t\<rparr>) = frame_sound d q fr"
  by (simp add: frame_sound_def)

lemma next_tick_sound:
  assumes sound: "pool_sound p"
  shows "\<exists>t p'. next_tick p = (Ok t, p') \<and> pool_sound p' \<and> same_client_state p p' \<and> (has_room p \<longrightarrow> has_room p')
    \<and> length (pool_frames p') = length (pool_frames p) \<and> pool_disk p' = pool_disk p
    \<and> (\<forall>q. find_frame q p = None \<longrightarrow> find_frame q p' = None)"
proof -
  obtain t p' where t: "next_tick p = (Ok t, p')" and d: "pool_disk p' = pool_disk p" "pool_capacity p' = pool_capacity p"
    and f: "\<And>q. find_frame q p' = find_frame q p
       \<or> find_frame q p' = map_option (\<lambda>fr. fr\<lparr>frame_last_used := 0\<rparr>) (find_frame q p)"
    using next_tick_run [of p] by metis
  note T = next_tick_evolves [OF _ t]
  have "cached p' q = cached p q \<and> pins p' q = pins p q \<and> borrows p' q = borrows p q" for q
    using f [of q] by (cases "find_frame q p") (auto simp: cached_def pins_def borrows_def)
  then have "same_client_state p p'"
    using d by (simp add: same_client_state_def pool_view_def fun_eq_iff) (simp add: map_add_def)
  moreover have "frame_sound (pool_disk p) q fr" if "find_frame q p' = Some fr" for q fr
    using f [of q] that sound by (cases "find_frame q p") (auto simp: pool_sound_def)
  then have "pool_sound p'"
    using sound T d by (simp add: pool_sound_def evolves_def)
  moreover have "\<exists>fr. find_frame q p' = Some fr \<and> frame_pin_count fr = 0"
    if "find_frame q p = Some fr" "frame_pin_count fr = 0" for q fr
    using f [of q] that by auto
  then have "has_room p \<longrightarrow> has_room p'"
    using T sound d unfolding has_room_def pool_sound_def by metis
  moreover have "find_frame q p = None \<longrightarrow> find_frame q p' = None" for q
    using f [of q] by auto
  ultimately show ?thesis
    using t T sound d by (auto simp: pool_sound_def)
qed

lemma load_frame_sound:
  assumes sound: "pool_sound p" and page: "pool_view p pid = Some bs"
    and room: "find_frame pid p \<noteq> None \<or> has_room p"
  shows "\<exists>fr p'. load_frame pid tick p = (Ok fr, p') \<and> pool_sound p' \<and> same_client_state p p'
    \<and> find_frame pid p' = Some fr"
proof (cases "find_frame pid p")
  case (Some fr)
  have "load_frame pid tick p = (Ok fr, count_hit p)"
    using Some by (simp add: load_frame_def act_simps)
  moreover have "pool_sound (count_hit p)" "same_client_state p (count_hit p)"
    using sound by (auto simp: pool_sound_def pool_inv_def same_client_state_def pool_view_def pins_def borrows_def fun_eq_iff)
  ultimately show ?thesis using Some by auto
next
  case None
  let ?p = "count_miss p"
  have miss: "pool_sound ?p" "same_client_state p ?p" "has_room ?p"
    using sound room None
    by (auto simp: pool_sound_def pool_inv_def same_client_state_def pool_view_def pins_def borrows_def fun_eq_iff has_room_def)
  obtain p1 where p1: "ensure_space ?p = (Ok (), p1)" "pool_sound p1" "same_client_state ?p p1"
      "length (pool_frames p1) < pool_capacity p1" "find_frame pid p1 = None"
    using ensure_space_sound [OF miss(1,3)] None by (metis count_fields(2))
  have "cached p1 pid = None"
    using p1(5) by (simp add: cached_def)
  moreover have "(disk_pages (pool_disk p1) ++ cached p1) pid = Some bs"
    using page miss(2) p1(3) by (simp add: same_client_state_def pool_view_def)
  ultimately obtain pg d where r: "disk_read_page pid (pool_disk p1) = (Ok pg, d)" "page_ident pg = pid" "page_bytes pg = bs"
      "page_sized pg" "disk_ok d" "healthy d" "disk_pages d ++ (cached p1)(pid \<mapsto> bs) = pool_view p1"
      "disk_pages d = disk_pages (pool_disk p1)" "disk_meta d = disk_meta (pool_disk p1)"
    using disk.fetch [of "pool_disk p1" "cached p1" pid bs] p1(2) by (auto simp: pool_sound_def pool_view_def)
  let ?fr = "\<lparr>frame_page_id = pid, frame_page = pg, frame_borrow = Unborrowed, frame_pin_count = 0,
      frame_last_used = tick, frame_writable = \<not> disk_read_only d\<rparr>"
  let ?p2 = "put_frame pid ?fr (p1\<lparr>pool_disk := d\<rparr>)"
  have run: "load_frame pid tick p = (Ok ?fr, ?p2)"
    using None p1(1) r(1) by (simp add: load_frame_def act_simps on_disk_def Let_def)
  have inv: "pool_inv ?p2"
    using load_frame_evolves [OF _ run] sound by (auto simp: pool_sound_def intro: evolves_inv)
  have "\<not> page_dirty pg" "disk_pages d pid = Some bs"
    using disk_read_result [OF r(1)] r(8) \<open>cached p1 pid = None\<close> \<open>(_ ++ _) pid = Some bs\<close> by (auto simp: map_add_def)
  then have "frame_sound d pid ?fr" using r(3) by (simp add: frame_sound_def)
  moreover have "frame_sound d q fr" if "find_frame q p1 = Some fr" for q fr
    using soundD(1) [OF p1(2) that] r(8,9) by (simp add: frame_sound_def)
  ultimately have "pool_sound ?p2"
    using inv r(5,6) by (simp add: pool_sound_def)
  moreover have "pins p1 pid = 0" "borrows p1 pid = Unborrowed"
    using p1(5) by (simp_all add: pins_def borrows_def)
  then have "pins ?p2 = pins p1" "borrows ?p2 = borrows p1"
    by (auto simp: pins_def borrows_def fun_eq_iff)
  then have "same_client_state p1 ?p2"
    using r(3,7,9) by (simp add: same_client_state_def pool_view_def)
  then have "same_client_state p ?p2"
    using miss(2) p1(3) same_client_state_trans by blast
  ultimately show ?thesis using run by auto
qed

lemma pin_sound:
  assumes sound: "pool_sound p" and page: "pool_view p pid = Some bs"
    and room: "find_frame pid p \<noteq> None \<or> has_room p" and count: "pins p pid \<noteq> - 1"
  shows "\<exists>p'. pin pid p = (Ok pid, p') \<and> pool_sound p' \<and> pool_view p' = pool_view p
    \<and> pins p' = (pins p)(pid := pins p pid + 1) \<and> borrows p' = borrows p
    \<and> pool_capacity p' = pool_capacity p \<and> disk_meta (pool_disk p') = disk_meta (pool_disk p)
    \<and> find_frame pid p' \<noteq> None"
proof -
  obtain t p1 where t: "next_tick p = (Ok t, p1)" "pool_sound p1" "same_client_state p p1" "has_room p \<longrightarrow> has_room p1"
      "\<forall>q. find_frame q p = None \<longrightarrow> find_frame q p1 = None"
    using next_tick_sound [OF sound] by blast
  have "find_frame pid p1 \<noteq> None \<or> has_room p1"
    using room t(1,4) next_tick_run [of p] by (metis Pair_inject map_option_is_None)
  then obtain fr p2 where l: "load_frame pid t p1 = (Ok fr, p2)" "pool_sound p2" "same_client_state p1 p2"
      "find_frame pid p2 = Some fr"
    using load_frame_sound [OF t(2), of pid bs t] page t(3) by (auto simp: same_client_state_def)
  have S: "same_client_state p p2" using t(3) l(3) same_client_state_trans by blast
  have pin: "frame_pin_count fr = pins p pid"
  proof -
    have "pins p2 pid = frame_pin_count fr" using l(4) by (simp add: pins_def)
    then show ?thesis using S by (simp add: same_client_state_def)
  qed
  let ?c = "frame_pin_count fr + 1"
  have c: "checked_add_word (frame_pin_count fr) 1 = Some ?c"
    using count unat_u32_less [of "pins p pid"] unat_u32_max [of "pins p pid"] by (simp add: checked_add_word_def pin)
  let ?fr = "fr\<lparr>frame_pin_count := ?c, frame_last_used := t\<rparr>"
  let ?p = "put_frame pid ?fr p2"
  have nb: "\<not> pool_borrowed p" using sound by (simp add: pool_sound_def pool_inv_def)
  have run: "pin pid p = (Ok pid, ?p)"
    using t(1) l(1) c nb by (simp add: pin_def act_simps borrow_inner_mut_def)
  have "pool_sound ?p"
  proof (rule put_sound [OF l(2)])
    show "pool_inv ?p"
      using pin_evolves [OF pool_sound_inv [OF sound] run] evolves_inv by blast
    show "frame_sound (pool_disk p2) pid ?fr"
      using soundD(1) [OF l(2,4)] by (simp add: frame_sound_def)
  qed
  moreover have "pool_view ?p = pool_view p2"
    using l(4) by (simp add: pool_view_def) (auto simp: cached_def map_add_def fun_eq_iff)
  moreover have "borrows ?p = borrows p2"
    using l(4) by (auto simp: borrows_def fun_eq_iff)
  ultimately show ?thesis
    using run S pin by (auto simp: same_client_state_def)
qed

text \<open>A page that is not allocated is refused, possibly after an eviction.\<close>

lemma pin_missing:
  assumes sound: "pool_sound p" and page: "pool_view p pid = None" and room: "has_room p \<or> find_frame pid p \<noteq> None"
  shows "\<exists>p'. pin pid p =
      (Err (BP_Disk (if pid = 0 then D_HeaderPageIsReserved else D_PageNotAllocated pid)), p')
    \<and> pool_sound p' \<and> same_client_state p p'"
proof -
  have none: "find_frame pid p = None"
    using soundD(4) [OF sound] page by (cases "find_frame pid p") auto
  obtain t p1 where t: "next_tick p = (Ok t, p1)" "pool_sound p1" "same_client_state p p1" "has_room p1"
      "find_frame pid p1 = None"
    using next_tick_sound [OF sound] room none by blast
  let ?p = "count_miss p1"
  have miss: "pool_sound ?p" "same_client_state p1 ?p" "has_room ?p"
    using t(2,4)
    by (auto simp: pool_sound_def pool_inv_def same_client_state_def pool_view_def pins_def borrows_def fun_eq_iff has_room_def)
  obtain p2 where p2: "ensure_space ?p = (Ok (), p2)" "pool_sound p2" "same_client_state ?p p2"
    using ensure_space_sound [OF miss(1,3)] by blast
  have S: "same_client_state p p2"
    using t(3) miss(2) p2(3) same_client_state_trans by blast
  have "\<not> allocated pid (pool_disk p2)"
    using S page pool_view_allocated [OF p2(2), of pid] by (simp add: same_client_state_def)
  then have "disk_read_page pid (pool_disk p2) =
      (Err (if pid = 0 then D_HeaderPageIsReserved else D_PageNotAllocated pid), pool_disk p2)"
    by (auto simp: disk_read_page_def act_simps ensure_allocated_data_page_def allocated_def)
  then have "load_frame pid t p1 = (Err (BP_Disk (if pid = 0 then D_HeaderPageIsReserved else D_PageNotAllocated pid)), p2)"
    using t(5) p2(1) by (simp add: load_frame_def act_simps on_disk_def)
  then have "pin pid p = (Err (BP_Disk (if pid = 0 then D_HeaderPageIsReserved else D_PageNotAllocated pid)), p2)"
    using t(1) borrow_inner_run [OF pool_sound_inv [OF sound]] by (simp add: pin_def act_simps)
  then show ?thesis using p2(2) S by blast
qed

lemma allocate_sound:
  assumes sound: "pool_sound p" and room: "has_room p" and rw: "\<not> disk_read_only (pool_disk p)"
    and ids: "next_id (pool_disk p) \<noteq> - 1"
  shows "\<exists>p'. let pid = next_id (pool_disk p) in
    pool_allocate_page p = (Ok pid, p') \<and> pool_sound p' \<and> pool_view p pid = None
    \<and> pool_view p' = (pool_view p)(pid \<mapsto> replicate PAGE_SIZE 0)
    \<and> pins p' = (pins p)(pid := 1) \<and> borrows p' = borrows p \<and> find_frame pid p' \<noteq> None
    \<and> disk_header (pool_disk p') = (disk_header (pool_disk p))\<lparr>header_next_page_id := pid + 1\<rparr>
    \<and> \<not> disk_read_only (pool_disk p') \<and> pool_capacity p' = pool_capacity p"
proof -
  let ?pid = "next_id (pool_disk p)" and ?z = "replicate PAGE_SIZE (0 :: u8)"
  obtain p1 where p1: "ensure_space p = (Ok (), p1)" "pool_sound p1" "same_client_state p p1"
      "length (pool_frames p1) < pool_capacity p1"
    using ensure_space_sound [OF sound room] by blast
  have m1: "next_id (pool_disk p1) = ?pid" "\<not> disk_read_only (pool_disk p1)" "disk_header (pool_disk p1) = disk_header (pool_disk p)"
    using p1(3) rw by (simp_all add: same_client_state_def)
  obtain d where d: "disk_allocate_page (pool_disk p1) = (Ok (zeroed ?pid), d)"
      "disk_header d = (disk_header (pool_disk p1))\<lparr>header_next_page_id := ?pid + 1\<rparr>" "\<not> disk_read_only d" "disk_ok d" "healthy d"
      "disk_pages d = (disk_pages (pool_disk p1))(?pid \<mapsto> ?z)"
    using disk_allocate_page_healthy [of "pool_disk p1"] p1(2) m1 ids by (auto simp: pool_sound_def)
  let ?p2 = "p1\<lparr>pool_disk := d\<rparr>"
  have none1: "find_frame ?pid p1 = None"
    using soundD(3) [OF p1(2)] m1(1) by (cases "find_frame ?pid p1") (auto simp: allocated_def)
  have inv2: "pool_inv ?p2"
    using on_disk_evolves [of p1 disk_allocate_page "Ok (zeroed ?pid)" ?p2] p1(2) d(1) disk_allocate_next
    by (auto simp: pool_sound_def on_disk_def intro: evolves_inv)
  have "frame_sound d q fr" if "find_frame q p1 = Some fr" for q fr
    using soundD(1) [OF p1(2) that] d(3,6) m1(2) that none1 by (auto simp: frame_sound_def)
  then have sound2: "pool_sound ?p2"
    using inv2 d(4,5) by (simp add: pool_sound_def)
  obtain t p3 where t: "next_tick ?p2 = (Ok t, p3)" "pool_sound p3" "same_client_state ?p2 p3" "pool_disk p3 = d"
      "find_frame ?pid p3 = None"
  proof -
    obtain t p3 where "next_tick ?p2 = (Ok t, p3)" "pool_sound p3" "same_client_state ?p2 p3" "pool_disk p3 = pool_disk ?p2"
        "\<forall>q. find_frame q ?p2 = None \<longrightarrow> find_frame q p3 = None"
      using next_tick_sound [OF sound2] by blast
    moreover from this(5) have "find_frame ?pid p3 = None" using none1 by simp
    ultimately show thesis by (intro that) simp_all
  qed
  let ?fr = "\<lparr>frame_page_id = ?pid, frame_page = zeroed ?pid, frame_borrow = Unborrowed, frame_pin_count = 1,
      frame_last_used = t, frame_writable = True\<rparr>"
  let ?p = "put_frame ?pid ?fr p3"
  have nb: "\<not> pool_borrowed p" using sound by (simp add: pool_sound_def pool_inv_def)
  have ident: "page_ident (zeroed ?pid) = ?pid" "page_bytes (zeroed ?pid) = ?z" "\<not> page_dirty (zeroed ?pid)"
    by (simp_all add: zeroed_def)
  have run: "pool_allocate_page p = (Ok ?pid, ?p)"
    using nb rw p1(1) d(1) t(1) by (simp add: pool_allocate_page_def act_simps borrow_inner_mut_def on_disk_def Let_def ident)
  have "pool_sound ?p"
  proof (rule put_sound [OF t(2)])
    show "pool_inv ?p"
      using allocate_evolves [OF pool_sound_inv [OF sound] run] evolves_inv by blast
    show "frame_sound (pool_disk p3) ?pid ?fr"
      using d(3,6) ident t(4) by (simp add: frame_sound_def)
  qed
  moreover have "pool_view p3 = (pool_view p1)(?pid \<mapsto> ?z)"
  proof -
    have "?pid \<notin> dom (cached p1)" using none1 by (simp add: cached_def domIff)
    then show ?thesis
      using t(3) d(6) by (simp add: same_client_state_def pool_view_def map_add_upd_left)
  qed
  then have "pool_view ?p = (pool_view p)(?pid \<mapsto> ?z)"
    using p1(3) by (simp add: pool_view_def ident same_client_state_def)
  moreover have "pool_view p ?pid = None"
    using pool_view_allocated [OF sound, of ?pid] by (auto simp: allocated_def)
  moreover have "pins p3 = pins p" "borrows p3 = borrows p" "pool_capacity p3 = pool_capacity p"
    using t(3) p1(3) by (simp_all add: same_client_state_def pins_def borrows_def fun_eq_iff)
  moreover have "borrows p3 ?pid = Unborrowed"
    using t(5) by (simp add: borrows_def)
  ultimately show ?thesis
    using run t(4) d(2,3) m1(3) by (auto simp: Let_def)
qed

section \<open>Guards\<close>

lemma put_client:
  assumes sound: "pool_sound p" and fr: "find_frame g p = Some fr"
    and ok: "frame_ok g fr'" "frame_sound (pool_disk p) g fr'"
  shows "pool_sound (put_frame g fr' p)"
    and "pool_view (put_frame g fr' p) = (pool_view p)(g \<mapsto> page_bytes (frame_page fr'))"
proof -
  have inv: "pool_inv p" using sound by (rule pool_sound_inv)
  have "length (pool_frames (put_frame g fr' p)) = length (pool_frames p)"
    using find_frame_in [OF fr] by (auto simp: put_frame_def length_AList_update)
  moreover have "distinct (map fst (pool_frames (put_frame g fr' p)))"
    using inv by (simp add: put_frame_def pool_inv_def distinct_update)
  ultimately have "pool_inv (put_frame g fr' p)"
    using inv ok(1) soundD(3) [OF sound fr] by (simp add: pool_inv_def)
  then show "pool_sound (put_frame g fr' p)"
    using put_sound [OF sound _ ok(2)] by blast
  show "pool_view (put_frame g fr' p) = (pool_view p)(g \<mapsto> page_bytes (frame_page fr'))"
    by (simp add: pool_view_def)
qed

lemma view_same: "pool_view p g = Some b \<Longrightarrow> (pool_view p)(g \<mapsto> b) = pool_view p"
  by auto

lemma pinned_frame: "pins p g \<noteq> 0 \<Longrightarrow> \<exists>fr. find_frame g p = Some fr \<and> frame_pin_count fr = pins p g \<and> frame_borrow fr = borrows p g"
  by (auto simp: pins_def borrows_def split: option.splits)

text \<open>A frame after a change of its borrow state or its pins.\<close>

lemma put_borrow:
  assumes sound: "pool_sound p" and fr: "find_frame g p = Some fr"
    and pin: "b \<noteq> Unborrowed \<longrightarrow> c \<noteq> 0"
  shows "pool_sound (put_frame g (fr\<lparr>frame_borrow := b, frame_pin_count := c\<rparr>) p)"
    and "pool_view (put_frame g (fr\<lparr>frame_borrow := b, frame_pin_count := c\<rparr>) p) = pool_view p"
proof -
  let ?fr = "fr\<lparr>frame_borrow := b, frame_pin_count := c\<rparr>"
  have ok: "frame_ok g ?fr" "frame_sound (pool_disk p) g ?fr"
    using soundD(1,2) [OF sound fr] pin by (auto simp: frame_ok_def frame_sound_def)
  from put_client [OF sound fr this] soundD(4) [OF sound fr]
  show "pool_sound (put_frame g ?fr p)" "pool_view (put_frame g ?fr p) = pool_view p"
    by (simp_all add: view_same)
qed

lemma drop_assert_pinned: "pins p g \<noteq> 0 \<Longrightarrow> drop_assert g p r = r"
  by (auto simp: drop_assert_def pins_def split: option.splits)

lemma drop_guard_sound:
  assumes sound: "pool_sound p" and pin: "pins p g \<noteq> 0" and free: "borrows p g = Unborrowed"
  shows "pool_sound (drop_guard g p)" "pool_view (drop_guard g p) = pool_view p"
    "pins (drop_guard g p) = (pins p)(g := pins p g - 1)" "borrows (drop_guard g p) = borrows p"
    "pool_disk (drop_guard g p) = pool_disk p" "pool_capacity (drop_guard g p) = pool_capacity p"
proof -
  obtain fr where fr: "find_frame g p = Some fr" "frame_pin_count fr = pins p g" "frame_borrow fr = Unborrowed"
    using pinned_frame [OF pin] free by auto
  have same: "fr\<lparr>frame_borrow := Unborrowed, frame_pin_count := c\<rparr> = fr\<lparr>frame_pin_count := c\<rparr>" for c
    using fr(3) by (cases fr) simp
  then have eq: "drop_guard g p = put_frame g (fr\<lparr>frame_borrow := Unborrowed, frame_pin_count := pins p g - 1\<rparr>) p"
    using pin fr by (simp add: drop_guard_def same)
  show "pool_sound (drop_guard g p)" "pool_view (drop_guard g p) = pool_view p"
    unfolding eq by (rule put_borrow [OF sound fr(1)], simp)+
  show "pins (drop_guard g p) = (pins p)(g := pins p g - 1)" "borrows (drop_guard g p) = borrows p"
    "pool_disk (drop_guard g p) = pool_disk p" "pool_capacity (drop_guard g p) = pool_capacity p"
    unfolding eq by (simp_all add: fun_upd_idem free)
qed

lemma reading_sound:
  assumes sound: "pool_sound p" and pin: "pins p g \<noteq> 0" and free: "borrows p g = Unborrowed"
    and view: "pool_view p g = Some bs"
  shows "\<exists>pg p'. reading err g f p = (f pg, p') \<and> page_ident pg = g \<and> page_bytes pg = bs \<and> page_sized pg
    \<and> pool_sound p' \<and> pool_view p' = pool_view p \<and> pins p' = pins p \<and> borrows p' = borrows p
    \<and> pool_disk p' = pool_disk p \<and> pool_capacity p' = pool_capacity p"
proof -
  obtain fr where fr: "find_frame g p = Some fr" "frame_pin_count fr = pins p g" "frame_borrow fr = Unborrowed"
    using pinned_frame [OF pin] free by auto
  let ?fr1 = "fr\<lparr>frame_borrow := Reading 1, frame_pin_count := frame_pin_count fr\<rparr>"
  let ?p1 = "put_frame g ?fr1 p"
  let ?p2 = "put_frame g (?fr1\<lparr>frame_borrow := Unborrowed, frame_pin_count := frame_pin_count ?fr1\<rparr>) ?p1"
  have run: "reading err g f p = (f (frame_page fr), ?p2)"
    using fr(1,3) by (simp add: reading_def guard_read_def set_borrow_def get_frame_def end_read_def act_simps)
  have p1: "pool_sound ?p1" "pool_view ?p1 = pool_view p"
    by (rule put_borrow [OF sound fr(1)], use pin fr(2) in simp)+
  have "pool_sound ?p2" "pool_view ?p2 = pool_view ?p1"
    by (rule put_borrow [OF p1(1)]; simp)+
  then show ?thesis
    using run p1 fr soundD [OF sound fr(1)] view free by (auto simp: frame_ok_def fun_eq_iff)
qed

lemma writing_sound:
  assumes sound: "pool_sound p" and pin: "pins p g \<noteq> 0" and free: "borrows p g = Unborrowed"
    and view: "pool_view p g = Some bs" and rw: "\<not> disk_read_only (pool_disk p)"
    and f: "\<And>pg. page_ident pg = g \<Longrightarrow> page_bytes pg = bs \<Longrightarrow> page_sized pg \<Longrightarrow>
      \<exists>r pg'. f pg = (r, pg') \<and> page_ident pg' = g \<and> page_sized pg' \<and> (page_dirty pg' \<or> pg' = pg)"
  shows "\<exists>pg r pg' p'. writing err g f p = (r, p') \<and> f pg = (r, pg')
    \<and> page_ident pg = g \<and> page_bytes pg = bs \<and> page_sized pg
    \<and> pool_sound p' \<and> pool_view p' = (pool_view p)(g \<mapsto> page_bytes pg') \<and> pins p' = pins p \<and> borrows p' = borrows p
    \<and> pool_disk p' = pool_disk p \<and> pool_capacity p' = pool_capacity p"
proof -
  obtain fr where fr: "find_frame g p = Some fr" "frame_pin_count fr = pins p g" "frame_borrow fr = Unborrowed"
    using pinned_frame [OF pin] free by auto
  note S = soundD [OF sound fr(1)]
  have pg: "page_ident (frame_page fr) = g" "page_bytes (frame_page fr) = bs" "page_sized (frame_page fr)"
    using S view by (auto simp: frame_ok_def)
  obtain r pg' where r: "f (frame_page fr) = (r, pg')" "page_ident pg' = g" "page_sized pg'"
      "page_dirty pg' \<or> pg' = frame_page fr"
    using f [OF pg] by blast
  let ?fr1 = "fr\<lparr>frame_borrow := Writing, frame_pin_count := frame_pin_count fr\<rparr>"
  let ?p1 = "put_frame g ?fr1 p"
  let ?fr2 = "?fr1\<lparr>frame_page := pg'\<rparr>"
  let ?p2 = "put_frame g ?fr2 ?p1"
  let ?p3 = "put_frame g (?fr2\<lparr>frame_borrow := Unborrowed, frame_pin_count := frame_pin_count ?fr2\<rparr>) ?p2"
  have run: "writing err g f p = (r, ?p3)"
    using fr(1,3) r(1) S(1) rw
    by (simp add: writing_def guard_write_def set_borrow_def get_frame_def end_write_def on_page_def act_simps frame_sound_def)
  have p1: "pool_sound ?p1" "pool_view ?p1 = pool_view p"
    by (rule put_borrow [OF sound fr(1)], use pin fr(2) in simp)+
  have ok: "frame_ok g ?fr2" "frame_sound (pool_disk ?p1) g ?fr2"
    using S(1,2) r(2-4) rw pin fr(2) by (auto simp: frame_ok_def frame_sound_def)
  have p2: "pool_sound ?p2" "pool_view ?p2 = (pool_view ?p1)(g \<mapsto> page_bytes pg')"
    using put_client [OF p1(1) _ ok] by auto
  have "pool_sound ?p3" "pool_view ?p3 = pool_view ?p2"
    by (rule put_borrow [OF p2(1)]; simp)+
  then show ?thesis
    using run p1 p2 pg r(1) fr free by (intro exI [of _ "frame_page fr"] exI [of _ r] exI [of _ pg'] exI [of _ ?p3]) (auto simp: fun_eq_iff)
qed

section \<open>Flushing everything\<close>

lemma flush_frames_sound:
  assumes "pool_sound p" and "\<And>pid. borrows p pid = Unborrowed"
    and "set pids \<subseteq> fst ` set (pool_frames p)" and "distinct pids"
  shows "\<exists>p'. flush_frames pids p = (Ok (), p') \<and> pool_sound p' \<and> same_client_state p p'
    \<and> (\<forall>pid\<in>set pids. disk_pages (pool_disk p') pid = pool_view p pid)
    \<and> (\<forall>pid. pid \<notin> set pids \<longrightarrow> disk_pages (pool_disk p') pid = disk_pages (pool_disk p) pid)
    \<and> map fst (pool_frames p') = map fst (pool_frames p)"
  using assms
proof (induction pids arbitrary: p)
  case Nil
  then show ?case by (auto simp: act_simps)
next
  case (Cons pid pids)
  obtain fr where fr: "find_frame pid p = Some fr"
    using Cons.prems(3) by (metis find_frame_def insert_subset list.simps(15) map_of_eq_None_iff not_Some_eq list.set_map)
  have "frame_borrow fr = Unborrowed"
    using Cons.prems(2) [of pid] fr by (simp add: borrows_def)
  from flush_frame_sound [OF Cons.prems(1) fr this] obtain p1 where p1:
      "flush_frame pid p = (Ok (), p1)" "pool_sound p1" "same_client_state p p1"
      "map fst (pool_frames p1) = map fst (pool_frames p)"
      "disk_pages (pool_disk p1) pid = Some (page_bytes (frame_page fr))"
      "\<forall>q. q \<noteq> pid \<longrightarrow> disk_pages (pool_disk p1) q = disk_pages (pool_disk p) q"
    by blast
  have keys: "fst ` set (pool_frames p1) = fst ` set (pool_frames p)"
    using p1(4) by (metis list.set_map)
  obtain p2 where p2: "flush_frames pids p1 = (Ok (), p2)" "pool_sound p2" "same_client_state p1 p2"
      "\<forall>q\<in>set pids. disk_pages (pool_disk p2) q = pool_view p1 q"
      "\<forall>q. q \<notin> set pids \<longrightarrow> disk_pages (pool_disk p2) q = disk_pages (pool_disk p1) q"
      "map fst (pool_frames p2) = map fst (pool_frames p1)"
    using Cons.IH [OF p1(2)] Cons.prems p1(3) keys by (auto simp: same_client_state_def)
  have "disk_pages (pool_disk p1) pid = pool_view p pid"
    using p1(5) soundD(4) [OF Cons.prems(1) fr] by simp
  then show ?case
    using p1 p2 Cons.prems(4) same_client_state_trans [OF p1(3) p2(3)]
    by (auto simp: act_simps same_client_state_def)
qed

lemma flush_all_sound:
  assumes sound: "pool_sound p" and free: "\<And>pid. borrows p pid = Unborrowed"
  shows "\<exists>p'. flush_all_frames p = (Ok (), p') \<and> pool_sound p' \<and> same_client_state p p'
    \<and> disk_pages (pool_disk p') = pool_view p"
proof -
  have "distinct (map fst (pool_frames p))"
    using sound by (simp add: pool_sound_def pool_inv_def)
  then obtain p' where p': "flush_frames (map fst (pool_frames p)) p = (Ok (), p')" "pool_sound p'" "same_client_state p p'"
      "\<forall>pid\<in>set (map fst (pool_frames p)). disk_pages (pool_disk p') pid = pool_view p pid"
      "\<forall>pid. pid \<notin> set (map fst (pool_frames p)) \<longrightarrow> disk_pages (pool_disk p') pid = disk_pages (pool_disk p) pid"
    using flush_frames_sound [OF sound free, of "map fst (pool_frames p)"] by auto
  have "disk_pages (pool_disk p') pid = pool_view p pid" for pid
  proof (cases "find_frame pid p")
    case None
    then have "pid \<notin> set (map fst (pool_frames p))"
      by (simp add: find_frame_def map_of_eq_None_iff)
    then show ?thesis
      using p'(5) None by (simp add: pool_view_def cached_def map_add_def)
  next
    case (Some fr)
    then show ?thesis using p'(4) find_frame_in [OF Some] by auto
  qed
  then show ?thesis
    using p' by (auto simp: flush_all_frames_def act_simps)
qed

lemma pool_sync_sound:
  assumes sound: "pool_sound p" and free: "\<And>pid. borrows p pid = Unborrowed"
  shows "\<exists>p'. pool_sync p = (Ok (), p') \<and> pool_sound p' \<and> same_client_state p p'
    \<and> disk_pages (pool_disk p') = pool_view p"
proof -
  obtain p1 where p1: "flush_all_frames p = (Ok (), p1)" "pool_sound p1" "same_client_state p p1"
      "disk_pages (pool_disk p1) = pool_view p"
    using flush_all_sound [OF assms] by blast
  then have "pool_sync p = (Ok (), p1)"
    using disk_sync_healthy [of "pool_disk p1"] borrow_inner_run [OF pool_sound_inv [OF sound]]
    by (simp add: pool_sync_def act_simps on_disk_def pool_sound_def)
  then show ?thesis using p1 by blast
qed

lemma pool_close_sound:
  assumes sound: "pool_sound p" and free: "\<And>pid. borrows p pid = Unborrowed"
  shows "\<exists>d. pool_close p = Ok d \<and> disk_ok d \<and> healthy d \<and> disk_pages d = pool_view p
    \<and> disk_meta d = disk_meta (pool_disk p)"
proof -
  obtain p1 where p1: "flush_all_frames p = (Ok (), p1)" "pool_sound p1" "same_client_state p p1"
      "disk_pages (pool_disk p1) = pool_view p"
    using flush_all_sound [OF assms] by blast
  then have "pool_close p = Ok (pool_disk p1)"
    using disk_sync_healthy [of "pool_disk p1"]
    by (simp add: pool_close_def act_simps on_disk_def pool_sound_def)
  then show ?thesis
    using p1 by (simp add: same_client_state_def pool_sound_def)
qed

end
