(* ===== verification/Buffer_Props.thy ===== *)
theory Buffer_Props
  imports Buffer_View
begin

text \<open>
  The properties of the buffer pool: capacity and pinning under any failures, the choice of
  the victim, the transparency of the cache, and durability of \<^verbatim>\<open>sync\<close>. At the end, the
  scopes the heap file runs in, which implement its storage interface.
\<close>

section \<open>A pool to evaluate on\<close>

text \<open>The pool over a new database, and the same with page 1 allocated and pinned.\<close>

definition fresh_pool :: "usize \<Rightarrow> buffer_pool" where
  "fresh_pool n = \<lparr>pool_disk = fresh_disk, pool_capacity = n, pool_frames = [], pool_clock = 0,
     pool_counters = \<lparr>hits = 0, misses = 0, evictions = 0, disk_writes = 0\<rparr>, pool_borrowed = False\<rparr>"

lemma pool_new_eq: "0 < n \<Longrightarrow> n \<le> MAP_CAPACITY_LIMIT \<Longrightarrow> pool_new fresh_disk n = Ok (fresh_pool n)"
  by (simp add: pool_new_def fresh_pool_def)

lemma fresh_pool_fields [simp]:
  "find_frame q (fresh_pool n) = None" "pool_disk (fresh_pool n) = fresh_disk" "pool_capacity (fresh_pool n) = n"
  "pool_view (fresh_pool n) = Map.empty" "pins (fresh_pool n) = (\<lambda>_. 0)" "borrows (fresh_pool n) = (\<lambda>_. Unborrowed)"
  by (auto simp: fresh_pool_def find_frame_def pool_view_def cached_def pins_def borrows_def)

lemma fresh_pool_sound [simp]: "0 < n \<Longrightarrow> pool_sound (fresh_pool n)" "0 < n \<Longrightarrow> has_room (fresh_pool n)"
  by (simp_all add: pool_sound_def pool_inv_def has_room_def) (simp_all add: fresh_pool_def)

lemma allocate_fresh:
  assumes "0 < n"
  obtains p where "pool_allocate_page (fresh_pool n) = (Ok 1, p)" "pool_sound p"
    "pool_view p = [1 \<mapsto> replicate PAGE_SIZE 0]" "pins p = (\<lambda>_. 0)(1 := 1)" "borrows p = (\<lambda>_. Unborrowed)"
    "pool_capacity p = n"
  using allocate_sound [of "fresh_pool n"] assms by (auto simp: Let_def)

section \<open>Runs of operations\<close>

text \<open>
  An operation of the pool or of a guard, with any result and any failures of the disk, that
  neither writes page \<open>q\<close> nor changes the borrows of \<open>q\<close> nor drops a guard of \<open>q\<close>. A guard is
  dropped only when no borrow through it is left, which the borrow checker ensures; a page is
  changed only through a mutable borrow and the \<^verbatim>\<open>Page\<close> interface.
\<close>

inductive pool_step :: "page_id \<Rightarrow> buffer_pool \<Rightarrow> buffer_pool \<Rightarrow> bool" for q where
  ps_pin: "pin pid p = (r, p') \<Longrightarrow> pool_step q p p'"
| ps_allocate: "pool_allocate_page p = (r, p') \<Longrightarrow> pool_step q p p'"
| ps_flush: "flush_page pid p = (u, p') \<Longrightarrow> pool_step q p p'"
| ps_flush_all: "flush_all p = (u, p') \<Longrightarrow> pool_step q p p'"
| ps_sync: "pool_sync p = (u, p') \<Longrightarrow> pool_step q p p'"
| ps_root: "pool_set_catalog_root pid p = (u, p') \<Longrightarrow> pool_step q p p'"
| ps_read: "g \<noteq> q \<Longrightarrow> pins p g \<noteq> 0 \<Longrightarrow> guard_read g p = (s, p') \<Longrightarrow> pool_step q p p'"
| ps_write: "g \<noteq> q \<Longrightarrow> pins p g \<noteq> 0 \<Longrightarrow> guard_write g p = (s, p') \<Longrightarrow> pool_step q p p'"
| ps_end_read: "g \<noteq> q \<Longrightarrow> pool_step q p (end_read g p)"
| ps_end_write: "g \<noteq> q \<Longrightarrow> pool_step q p (end_write g p)"
| ps_change: "g \<noteq> q \<Longrightarrow> find_frame g p = Some fr \<Longrightarrow> page_ident pg = g \<Longrightarrow> page_sized pg \<Longrightarrow>
    pool_step q p (put_frame g (fr\<lparr>frame_page := pg\<rparr>) p)"
| ps_drop: "g \<noteq> q \<Longrightarrow> borrows p g = Unborrowed \<or> 1 < pins p g \<Longrightarrow> pool_step q p (drop_guard g p)"

definition keeps_page :: "page_id \<Rightarrow> buffer_pool \<Rightarrow> buffer_pool \<Rightarrow> bool" where
  "keeps_page q p p' \<longleftrightarrow> pool_inv p' \<and> pool_capacity p' = pool_capacity p
     \<and> kept (find_frame q p) (find_frame q p')"

lemma evolves_keeps: "evolves p p' \<Longrightarrow> keeps_page q p p'"
  by (simp add: evolves_def keeps_page_def)

lemma keeps_put:
  assumes inv: "pool_inv p" and fr: "find_frame g p = Some fr" and ok: "frame_ok g fr'" and g: "g \<noteq> q"
  shows "keeps_page q p (put_frame g fr' p)"
proof -
  have "length (pool_frames (put_frame g fr' p)) = length (pool_frames p)"
    using find_frame_in [OF fr] by (auto simp: put_frame_def length_AList_update)
  moreover have "distinct (map fst (pool_frames (put_frame g fr' p)))"
    using inv by (simp add: put_frame_def pool_inv_def distinct_update)
  moreover have "allocated g (pool_disk p)"
    using inv fr by (auto simp: pool_inv_def)
  ultimately show ?thesis
    using inv ok g by (simp add: keeps_page_def pool_inv_def)
qed

lemma keeps_refl: "pool_inv p \<Longrightarrow> keeps_page q p p"
  by (simp add: keeps_page_def)

lemma frame_of_inv: "pool_inv p \<Longrightarrow> find_frame g p = Some fr \<Longrightarrow> frame_ok g fr"
  by (simp add: pool_inv_def)

lemma keeps_set_borrow:
  "pool_inv p \<Longrightarrow> g \<noteq> q \<Longrightarrow> pins p g \<noteq> 0 \<Longrightarrow> set_borrow g b p = (r, p') \<Longrightarrow> keeps_page q p p'"
  using keeps_put [of p g _ _ q] frame_of_inv [of p g]
  by (auto simp: set_borrow_def get_frame_def act_simps frame_ok_def pins_def split: option.splits)

lemma guard_read_cases:
  "guard_read g p = (r, p') \<Longrightarrow> p' = p \<or> (\<exists>b. set_borrow g b p = (Ok (), p'))"
  by (auto simp: guard_read_def get_frame_def set_borrow_def act_simps split: option.splits borrow.splits)

lemma guard_write_cases:
  "guard_write g p = (r, p') \<Longrightarrow> p' = p \<or> (\<exists>b. set_borrow g b p = (Ok (), p'))"
  by (auto simp: guard_write_def get_frame_def set_borrow_def act_simps split: option.splits if_splits)

lemma keeps_guard:
  assumes inv: "pool_inv p" and g: "g \<noteq> q"
  shows "pins p g \<noteq> 0 \<Longrightarrow> guard_read g p = (r, p') \<Longrightarrow> keeps_page q p p'"
    and "pins p g \<noteq> 0 \<Longrightarrow> guard_write g p = (r, p') \<Longrightarrow> keeps_page q p p'"
    and "keeps_page q p (end_read g p)" and "keeps_page q p (end_write g p)"
    and "borrows p g = Unborrowed \<or> 1 < pins p g \<Longrightarrow> keeps_page q p (drop_guard g p)"
proof -
  show "pins p g \<noteq> 0 \<Longrightarrow> guard_read g p = (r, p') \<Longrightarrow> keeps_page q p p'"
    using guard_read_cases keeps_set_borrow [OF inv g] keeps_refl [OF inv] by blast
  show "pins p g \<noteq> 0 \<Longrightarrow> guard_write g p = (r, p') \<Longrightarrow> keeps_page q p p'"
    using guard_write_cases keeps_set_borrow [OF inv g] keeps_refl [OF inv] by blast
  have put: "keeps_page q p (put_frame g fr' p)" if "find_frame g p = Some fr" "frame_ok g fr'" for fr fr'
    using keeps_put [OF inv that g] .
  show "keeps_page q p (end_read g p)" "keeps_page q p (end_write g p)"
    using frame_of_inv [OF inv, of g] keeps_refl [OF inv]
    by (auto simp: end_read_def end_write_def frame_ok_def split: option.split borrow.split intro!: put)
  show "borrows p g = Unborrowed \<or> 1 < pins p g \<Longrightarrow> keeps_page q p (drop_guard g p)"
    using frame_of_inv [OF inv, of g] keeps_refl [OF inv]
    by (auto simp: drop_guard_def frame_ok_def pins_def borrows_def split: option.split intro!: put)
qed

lemma pool_step_keeps:
  assumes "pool_inv p" and "pool_step q p p'"
  shows "keeps_page q p p'"
  using assms(2)
proof (cases rule: pool_step.cases)
  case (ps_change g fr pg)
  then show ?thesis
    using keeps_put [OF assms(1), of g fr "fr\<lparr>frame_page := pg\<rparr>" q] frame_of_inv [OF assms(1), of g fr]
    by (simp add: frame_ok_def)
qed (use assms(1) pin_evolves allocate_evolves flush_page_evolves flush_all_evolves pool_sync_evolves
  set_root_evolves keeps_guard in \<open>auto intro: evolves_keeps\<close>)

text \<open>C16. Capacity and pinning, whatever fails: along every run of operations the pool stays
  within its capacity, which never changes, each page is cached at most once, and a pinned
  page stays cached with the same contents, the same borrow state and at least as many pins.\<close>

theorem pinned_pages_stay:
  assumes "pool_inv p" and "(pool_step q)\<^sup>*\<^sup>* p p'"
  shows "pool_inv p' \<and> pool_capacity p' = pool_capacity p \<and> cached_page_count p' \<le> pool_capacity p
    \<and> distinct (map fst (pool_frames p'))
    \<and> (\<forall>fr. find_frame q p = Some fr \<and> frame_pin_count fr \<noteq> 0 \<longrightarrow>
        (\<exists>fr'. find_frame q p' = Some fr' \<and> page_bytes (frame_page fr') = page_bytes (frame_page fr)
           \<and> frame_borrow fr' = frame_borrow fr \<and> frame_pin_count fr \<le> frame_pin_count fr'))"
proof -
  have "keeps_page q p p'"
    using assms(2)
  proof (induction rule: rtranclp_induct)
    case base
    then show ?case using assms(1) by (rule keeps_refl)
  next
    case (step y z)
    have "keeps_page q y z"
      using pool_step_keeps [OF _ step.hyps(2)] step.IH by (simp add: keeps_page_def)
    then show ?case using step.IH kept_trans by (auto simp: keeps_page_def)
  qed
  then show ?thesis
    by (auto simp: keeps_page_def pool_inv_def cached_page_count_def elim!: kept.elims)
qed

theorem pinned_pages_stay_witness:
  "\<exists>p p'. pool_allocate_page (fresh_pool 1) = (Ok 1, p) \<and> snd (pin 9 p) = p'
     \<and> (\<exists>fr. find_frame 1 p' = Some fr \<and> page_bytes (frame_page fr) = replicate PAGE_SIZE 0)"
proof -
  obtain p where p: "pool_allocate_page (fresh_pool 1) = (Ok 1, p)" "pool_sound p"
      "pool_view p = [1 \<mapsto> replicate PAGE_SIZE 0]" "pins p = (\<lambda>_. 0)(1 := 1)"
    by (rule allocate_fresh [of 1]) auto
  then obtain fr where fr: "find_frame 1 p = Some fr" "frame_pin_count fr \<noteq> 0"
    by (auto simp: fun_eq_iff pins_def split: option.splits) (metis option.exhaust option.simps(4,5) zero_neq_one)
  then have "page_bytes (frame_page fr) = replicate PAGE_SIZE 0"
    using soundD(4) [OF p(2) fr(1)] p(3) by simp
  moreover have "(pool_step 1)\<^sup>*\<^sup>* p (snd (pin 9 p))"
    using ps_pin [of 9 p _ _ 1] by (metis prod.collapse r_into_rtranclp)
  from pinned_pages_stay [OF pool_sound_inv [OF p(2)] this] fr
  have "\<exists>fr'. find_frame 1 (snd (pin 9 p)) = Some fr' \<and> page_bytes (frame_page fr') = page_bytes (frame_page fr)"
    by blast
  ultimately show ?thesis using p(1) by auto
qed

section \<open>Eviction\<close>

lemma disk_write_not_Panic: "disk_write_page pg d \<noteq> (Panic, d')"
  by (auto simp: disk_write_page_def write_page_bytes_def seek_to_page_def on_file_def io_err_def act_simps
      ensure_writable_def ensure_allocated_data_page_def file_seek_def file_write_all_def Let_def
      split: prod.splits result.splits if_splits option.splits)

text \<open>Evicting an unpinned frame, clean or dirty.\<close>

lemma evict_frame:
  assumes "find_frame victim p = Some fr" and "frame_borrow fr = Unborrowed"
  shows "seq_act (flush_frame victim) (seq_act (update (remove_frame victim)) (update count_eviction)) p =
    (if \<not> page_dirty (frame_page fr) then (Ok (), count_eviction (remove_frame victim p))
     else case disk_write_page (frame_page fr) (pool_disk p) of
       (Ok pg, d) \<Rightarrow> (Ok (), count_eviction (remove_frame victim (count_disk_write (p\<lparr>pool_disk := d\<rparr>))))
     | (Err e, d) \<Rightarrow> (Err (BP_Disk e), p\<lparr>pool_disk := d\<rparr>)
     | (Panic, d) \<Rightarrow> (Panic, p\<lparr>pool_disk := d\<rparr>))"
  using assms
  by (auto simp: flush_frame_def get_frame_def on_disk_def act_simps remove_frame_def put_frame_def count_disk_write_def
      count_eviction_def delete_update_same split: prod.splits result.splits)

text \<open>C28. The replacement policy: with a frame free nothing is evicted; with every frame pinned the
  call is refused and changes nothing; in a full pool the least recently used of the unpinned
  frames goes. A clean one is removed and counted. A dirty one is written first: when the write
  succeeds it is removed and both are counted, when it fails the error is reported and every
  frame stays, the dirty one included, whatever the disk has become.\<close>

theorem eviction_policy:
  assumes "pool_inv p"
  shows "if length (pool_frames p) < pool_capacity p then ensure_space p = (Ok (), p)
    else if \<forall>pid fr. find_frame pid p = Some fr \<longrightarrow> frame_pin_count fr \<noteq> 0
    then ensure_space p = (Err BP_AllFramesPinned, p)
    else \<exists>victim fr. find_frame victim p = Some fr \<and> frame_pin_count fr = 0
      \<and> (\<forall>q fr'. find_frame q p = Some fr' \<and> frame_pin_count fr' = 0 \<longrightarrow> frame_last_used fr \<le> frame_last_used fr')
      \<and> (if \<not> page_dirty (frame_page fr) then ensure_space p = (Ok (), count_eviction (remove_frame victim p))
         else case disk_write_page (frame_page fr) (pool_disk p) of
           (Ok pg, d) \<Rightarrow>
             ensure_space p = (Ok (), count_eviction (remove_frame victim (count_disk_write (p\<lparr>pool_disk := d\<rparr>))))
         | (Err e, d) \<Rightarrow> ensure_space p = (Err (BP_Disk e), p\<lparr>pool_disk := d\<rparr>)
         | (Panic, d) \<Rightarrow> False)"
proof (cases "length (pool_frames p) < pool_capacity p")
  case True
  then show ?thesis by (simp add: ensure_space_def act_simps)
next
  case full: False
  show ?thesis
  proof (cases "\<exists>pid fr. find_frame pid p = Some fr \<and> frame_pin_count fr = 0")
    case False
    then have refused: "ensure_space p = (Err BP_AllFramesPinned, p)"
      using ensure_space_full [OF assms full] by meson
    have all: "\<forall>pid fr. find_frame pid p = Some fr \<longrightarrow> frame_pin_count fr \<noteq> 0"
      using False by blast
    show ?thesis unfolding if_not_P [OF full] if_P [OF all] by (rule refused)
  next
    case True
    then obtain victim where v: "is_victim victim p"
        "ensure_space p = seq_act (flush_frame victim) (seq_act (update (remove_frame victim)) (update count_eviction)) p"
      using ensure_space_full [OF assms full] by auto
    then obtain fr where fr: "find_frame victim p = Some fr" "frame_pin_count fr = 0"
        "\<forall>q fr'. find_frame q p = Some fr' \<and> frame_pin_count fr' = 0 \<longrightarrow> frame_last_used fr \<le> frame_last_used fr'"
      by (auto simp: is_victim_def)
    have free: "frame_borrow fr = Unborrowed"
      using assms fr(1,2) by (auto simp: pool_inv_def frame_ok_def)
    have some: "\<not> (\<forall>pid fr. find_frame pid p = Some fr \<longrightarrow> frame_pin_count fr \<noteq> 0)"
      using True by blast
    show ?thesis
      unfolding if_not_P [OF full] if_not_P [OF some] v(2) evict_frame [OF fr(1) free]
      using fr disk_write_not_Panic by (intro exI [of _ victim] exI [of _ fr]) (auto split: prod.split result.split)
  qed
qed

text \<open>A full pool whose only frame is unpinned and dirty, over a disk with any script of failures.\<close>

definition dirty_pool :: "nat option list \<Rightarrow> buffer_pool" where
  "dirty_pool faults = (fresh_pool 1)\<lparr>pool_disk := failing_disk\<lparr>disk_file := (disk_file failing_disk)\<lparr>file_faults := faults\<rparr>\<rparr>,
     pool_frames := [(1, \<lparr>frame_page_id = 1, frame_page = (zeroed 1)\<lparr>page_dirty := True\<rparr>, frame_borrow = Unborrowed,
       frame_pin_count = 0, frame_last_used = 1, frame_writable = True\<rparr>)]\<rparr>"

theorem eviction_policy_witness:
  "(\<exists>q. ensure_space (dirty_pool []) = (Ok (), q) \<and> find_frame 1 q = None
      \<and> page_on_disk 1 (pool_disk q) = replicate PAGE_SIZE 0)
   \<and> (\<exists>q. ensure_space (dirty_pool [Some 0]) = (Err (BP_Disk (D_Io ''seek database page'' ''db'' OtherIo)), q)
      \<and> find_frame 1 q = find_frame 1 (dirty_pool [Some 0]))"
proof -
  have inv: "pool_inv (dirty_pool fs)" for fs
    by (auto simp: pool_inv_def frame_ok_def find_frame_def dirty_pool_def failing_disk_def fresh_pool_def allocated_def
        page_sized_def zeroed_def split: if_splits)
  have frame: "find_frame q (dirty_pool fs) = Some fr \<longleftrightarrow> q = 1 \<and> fr = snd (hd (pool_frames (dirty_pool fs)))" for q fs fr
    by (auto simp: find_frame_def dirty_pool_def)
  let ?pg = "(zeroed 1)\<lparr>page_dirty := True\<rparr>"
  have fields: "length (pool_frames (dirty_pool fs)) = 1" "pool_capacity (dirty_pool fs) = 1"
    "\<not> (\<forall>q fr. find_frame q (dirty_pool fs) = Some fr \<longrightarrow> frame_pin_count fr \<noteq> 0)"
    "frame_page (snd (hd (pool_frames (dirty_pool fs)))) = ?pg" for fs
    by (simp_all add: dirty_pool_def fresh_pool_def find_frame_def)
  have E: "case disk_write_page ?pg (pool_disk (dirty_pool fs)) of
           (Ok pg, d) \<Rightarrow> ensure_space (dirty_pool fs) =
             (Ok (), count_eviction (remove_frame 1 (count_disk_write ((dirty_pool fs)\<lparr>pool_disk := d\<rparr>))))
         | (Err e, d) \<Rightarrow> ensure_space (dirty_pool fs) = (Err (BP_Disk e), (dirty_pool fs)\<lparr>pool_disk := d\<rparr>)
         | (Panic, d) \<Rightarrow> False" for fs
    using eviction_policy [OF inv, of fs] fields [of fs] by (auto simp: frame)
  have "disk_write_page ?pg (pool_disk (dirty_pool [Some 0])) =
      (Err (D_Io ''seek database page'' ''db'' OtherIo), failing_disk\<lparr>disk_file := (disk_file failing_disk)\<lparr>file_faults := []\<rparr>\<rparr>)"
    by (simp add: dirty_pool_def failing_disk_def fresh_disk_def disk_write_page_def write_page_bytes_def seek_to_page_def
        on_file_def io_err_def act_simps ensure_writable_def ensure_allocated_data_page_def file_seek_def next_fault_def
        drop_fault_def zeroed_def word_le_nat_alt)
  then have "\<exists>q. ensure_space (dirty_pool [Some 0]) = (Err (BP_Disk (D_Io ''seek database page'' ''db'' OtherIo)), q)
      \<and> find_frame 1 q = find_frame 1 (dirty_pool [Some 0])"
    using E [of "[Some 0]"] by (simp add: find_frame_def)
  moreover have d: "healthy (pool_disk (dirty_pool []))" "disk_ok (pool_disk (dirty_pool []))"
    "\<not> disk_read_only (pool_disk (dirty_pool []))" "allocated (page_ident ?pg) (pool_disk (dirty_pool []))" "page_sized ?pg"
    by (simp_all add: dirty_pool_def healthy_def failing_disk_def disk_ok_def header_wf_def fresh_header_def fresh_disk_def
        allocated_def slice_append_left zeroed_def page_sized_def)
  obtain pg d where "disk_write_page ?pg (pool_disk (dirty_pool [])) = (Ok pg, d)" "page_on_disk 1 d = replicate PAGE_SIZE 0"
    using disk_write_page_healthy [OF d] by (auto simp: disk_pages_def zeroed_def fun_eq_iff split: if_splits)
  then have "\<exists>q. ensure_space (dirty_pool []) = (Ok (), q) \<and> find_frame 1 q = None
      \<and> page_on_disk 1 (pool_disk q) = replicate PAGE_SIZE 0"
    using E [of "[]"] by (simp add: find_frame_def remove_frame_def count_eviction_def count_disk_write_def delete_conv')
  ultimately show ?thesis by blast
qed

section \<open>The cache is transparent\<close>

text \<open>C27. Caching is invisible: pinning a page of the database, cached or not, and whatever it
  evicts, succeeds when there is a frame for it, and changes neither the contents of any page
  as clients see them nor any pin but the new one; a page that is not allocated is refused
  with the disk's error.\<close>

theorem pin_transparent:
  assumes "pool_sound p" and "find_frame pid p \<noteq> None \<or> has_room p" and "pins p pid \<noteq> - 1"
  shows "case pool_view p pid of
      Some bs \<Rightarrow> \<exists>p'. pin pid p = (Ok pid, p') \<and> pool_sound p' \<and> pool_view p' = pool_view p
        \<and> pins p' = (pins p)(pid := pins p pid + 1) \<and> borrows p' = borrows p
        \<and> (\<exists>fr. find_frame pid p' = Some fr \<and> page_bytes (frame_page fr) = bs)
    | None \<Rightarrow> \<exists>p'. pin pid p =
          (Err (BP_Disk (if pid = 0 then D_HeaderPageIsReserved else D_PageNotAllocated pid)), p')
        \<and> pool_sound p' \<and> pool_view p' = pool_view p \<and> pins p' = pins p"
proof (cases "pool_view p pid")
  case (Some bs)
  obtain p' where "pin pid p = (Ok pid, p')" "pool_sound p'" "pool_view p' = pool_view p"
      "pins p' = (pins p)(pid := pins p pid + 1)" "borrows p' = borrows p" "find_frame pid p' \<noteq> None"
    using pin_sound [OF assms(1) Some assms(2,3)] by blast
  then show ?thesis
    using Some soundD(4) [of p' pid] by auto
next
  case None
  then show ?thesis
    using pin_missing [OF assms(1) None] assms(2) by (auto simp: same_client_state_def)
qed

theorem pin_transparent_witness:
  "\<exists>p p'. pool_allocate_page (fresh_pool 1) = (Ok 1, p) \<and> pin 1 p = (Ok 1, p')
     \<and> pool_view p' = [1 \<mapsto> replicate PAGE_SIZE 0] \<and> pins p' 1 = 2"
proof -
  obtain p where p: "pool_allocate_page (fresh_pool 1) = (Ok 1, p)" "pool_sound p"
      "pool_view p = [1 \<mapsto> replicate PAGE_SIZE 0]" "pins p = (\<lambda>_. 0)(1 := 1)"
    by (rule allocate_fresh [of 1]) auto
  have "find_frame 1 p \<noteq> None"
    using p(4) by (auto simp: fun_eq_iff pins_def split: option.splits)
  then show ?thesis
    using pin_transparent [OF p(2), of 1] p by auto
qed

text \<open>Allocation through the pool: the new page has an identifier that was not in use, is
  zeroed, pinned once and cached, and no other page changes.\<close>

theorem pool_allocation_fresh:
  assumes "pool_sound p" and "has_room p" and "\<not> disk_read_only (pool_disk p)"
    and "header_next_page_id (pool_header p) \<noteq> - 1"
  shows "\<exists>pid p'. pool_allocate_page p = (Ok pid, p') \<and> pool_view p pid = None \<and> pool_sound p'
    \<and> pool_view p' = (pool_view p)(pid \<mapsto> replicate PAGE_SIZE 0) \<and> pins p' = (pins p)(pid := 1)
    \<and> contains_page pid p'"
  using allocate_sound [OF assms(1-3)] assms(4) by (auto simp: Let_def pool_header_def contains_page_def)

theorem pool_allocation_fresh_witness:
  "\<exists>pid p'. pool_allocate_page (fresh_pool 3) = (Ok pid, p') \<and> pool_view p' = [pid \<mapsto> replicate PAGE_SIZE 0]"
  using pool_allocation_fresh [of "fresh_pool 3"] by (auto simp: pool_header_def)

section \<open>Durability\<close>

text \<open>C13. After a successful sync the file holds what the clients see: opening its bytes again
  gives a database with the same header and, page by page, the contents the pool had, dirty
  pages included. With no page borrowed, sync on a healthy disk does succeed.\<close>

theorem sync_makes_durable:
  assumes "pool_sound p" and "\<And>pid. borrows p pid = Unborrowed"
  shows "\<exists>p' d. pool_sync p = (Ok (), p') \<and> pool_sound p' \<and> pool_view p' = pool_view p \<and> pins p' = pins p
    \<and> open_with_mode path ro (Some (file_data (disk_file (pool_disk p')))) [] = Ok d
    \<and> disk_header d = pool_header p \<and> disk_pages d = pool_view p"
proof -
  obtain p' where p': "pool_sync p = (Ok (), p')" "pool_sound p'" "same_client_state p p'"
      "disk_pages (pool_disk p') = pool_view p"
    using pool_sync_sound [OF assms] by blast
  obtain d where "open_with_mode path ro (Some (file_data (disk_file (pool_disk p')))) [] = Ok d"
      "disk_header d = disk_header (pool_disk p')" "disk_pages d = disk_pages (pool_disk p')"
    using reopen_disk [of "pool_disk p'" path ro] p'(2) by (auto simp: pool_sound_def)
  then show ?thesis
    using p' by (auto simp: same_client_state_def pool_header_def)
qed

theorem sync_makes_durable_witness:
  "\<exists>p p' d. pool_allocate_page (fresh_pool 1) = (Ok 1, p) \<and> pool_sync p = (Ok (), p')
     \<and> open_with_mode ''db'' True (Some (file_data (disk_file (pool_disk p')))) [] = Ok d
     \<and> disk_pages d = [1 \<mapsto> replicate PAGE_SIZE 0]"
proof -
  obtain p where p: "pool_allocate_page (fresh_pool 1) = (Ok 1, p)" "pool_sound p"
      "pool_view p = [1 \<mapsto> replicate PAGE_SIZE 0]" "borrows p = (\<lambda>_. Unborrowed)"
    by (rule allocate_fresh [of 1]) auto
  then show ?thesis
    using sync_makes_durable [OF p(2), of "''db''" True] by auto
qed

section \<open>Quiet pools\<close>

text \<open>No guard is alive. The heap file starts every access from such a state and returns to it.\<close>

definition quiet :: "buffer_pool \<Rightarrow> bool" where
  "quiet p \<longleftrightarrow> pool_sound p \<and> pins p = (\<lambda>_. 0)"

definition pool_writes :: "buffer_pool \<Rightarrow> bool" where
  "pool_writes p \<longleftrightarrow> \<not> disk_read_only (pool_disk p)"

definition pool_next :: "buffer_pool \<Rightarrow> page_id option" where
  "pool_next p = (let n = next_id (pool_disk p) in if n = - 1 then None else Some n)"

definition id_after :: "page_id \<Rightarrow> page_id option" where
  "id_after n = (if n + 1 = - 1 then None else Some (n + 1))"

definition is_page :: "page_id \<Rightarrow> bytes \<Rightarrow> page \<Rightarrow> bool" where
  "is_page pid bs pg \<longleftrightarrow> page_ident pg = pid \<and> page_bytes pg = bs \<and> page_sized pg"

text \<open>What a caller may leave behind a mutable borrow: the \<^verbatim>\<open>Page\<close> interface sets the dirty flag
  with every write.\<close>

definition legal_change :: "page \<Rightarrow> page \<Rightarrow> bool" where
  "legal_change pg pg' \<longleftrightarrow> page_ident pg' = page_ident pg \<and> page_sized pg' \<and> (page_dirty pg' \<or> pg' = pg)"

lemma quietD:
  assumes "quiet p"
  shows "pool_sound p" "pins p pid = 0" "borrows p pid = Unborrowed" "has_room p"
proof -
  show sound: "pool_sound p" and pins: "pins p pid = 0" for pid
    using assms by (simp_all add: quiet_def)
  show "borrows p pid = Unborrowed"
    using unpinned_unborrowed [OF pool_sound_inv [OF sound] pins] .
  show "has_room p"
  proof (cases "pool_frames p")
    case Nil
    then show ?thesis using pool_sound_inv [OF sound] by (simp add: has_room_def pool_inv_def)
  next
    case (Cons x xs)
    then have "find_frame (fst x) p = Some (snd x)"
      by (cases x) (simp add: find_frame_def)
    moreover from this have "frame_pin_count (snd x) = 0"
      using pins [of "fst x"] by (simp add: pins_def)
    ultimately show ?thesis unfolding has_room_def by blast
  qed
qed

lemma quiet_after_drop:
  assumes "pool_sound p" and "pins p = (\<lambda>_. 0)(g := 1)" and "borrows p = (\<lambda>_. Unborrowed)"
  shows "quiet (drop_guard g p)" "pool_view (drop_guard g p) = pool_view p"
    "pool_disk (drop_guard g p) = pool_disk p" "drop_assert g p r = r"
  using drop_guard_sound [OF assms(1), of g] drop_assert_pinned [of p g] assms(2,3) by (auto simp: quiet_def)

lemma quiet_pin:
  assumes quiet: "quiet p" and page: "pool_view p pid = Some bs"
  obtains p' where "pin pid p = (Ok pid, p')" "pool_sound p'" "pool_view p' = pool_view p"
    "pins p' = (\<lambda>_. 0)(pid := 1)" "borrows p' = (\<lambda>_. Unborrowed)" "disk_meta (pool_disk p') = disk_meta (pool_disk p)"
  using pin_sound [OF quietD(1) [OF quiet] page] quietD [OF quiet] that by (auto simp: quiet_def fun_eq_iff)

lemma quiet_read:
  assumes quiet: "quiet p" and page: "pool_view p pid = Some bs"
  shows "\<exists>pg p'. read_page err pid f p = (f pg, p') \<and> is_page pid bs pg \<and> quiet p' \<and> pool_view p' = pool_view p
    \<and> pool_writes p' = pool_writes p \<and> pool_next p' = pool_next p"
proof -
  obtain p1 where p1: "pin pid p = (Ok pid, p1)" "pool_sound p1" "pool_view p1 = pool_view p"
      "pins p1 = (\<lambda>_. 0)(pid := 1)" "borrows p1 = (\<lambda>_. Unborrowed)" "disk_meta (pool_disk p1) = disk_meta (pool_disk p)"
    by (rule quiet_pin [OF quiet page])
  obtain pg p2 where p2: "reading err pid f p1 = (f pg, p2)" "is_page pid bs pg" "pool_sound p2" "pool_view p2 = pool_view p1"
      "pins p2 = pins p1" "borrows p2 = borrows p1" "pool_disk p2 = pool_disk p1"
    using reading_sound [where err = err and f = f and g = pid and bs = bs, OF p1(2)] p1 page by (auto simp: is_page_def)
  have dropped: "quiet (drop_guard pid p2)" "pool_view (drop_guard pid p2) = pool_view p2"
      "pool_disk (drop_guard pid p2) = pool_disk p2" "drop_assert pid p2 x = x" for x :: "('a, 'b) result"
    using quiet_after_drop [OF p2(3), of pid] p2(5,6) p1(4,5) by simp_all
  moreover have "read_page err pid f p = (f pg, drop_guard pid p2)"
    using p1(1) p2(1) dropped(4) by (simp add: read_page_def pinning_def act_simps)
  ultimately show ?thesis
    using p1 p2 by (auto simp: pool_writes_def pool_next_def)
qed

lemma quiet_change:
  assumes quiet: "quiet p" and rw: "pool_writes p" and page: "pool_view p pid = Some bs"
    and legal: "\<And>pg. is_page pid bs pg \<Longrightarrow> legal_change pg (snd (f pg))"
  shows "\<exists>pg p'. update_page err pid f p = (fst (f pg), p') \<and> is_page pid bs pg \<and> quiet p'
    \<and> pool_view p' = (pool_view p)(pid \<mapsto> page_bytes (snd (f pg))) \<and> pool_writes p' \<and> pool_next p' = pool_next p"
proof -
  obtain p1 where p1: "pin pid p = (Ok pid, p1)" "pool_sound p1" "pool_view p1 = pool_view p"
      "pins p1 = (\<lambda>_. 0)(pid := 1)" "borrows p1 = (\<lambda>_. Unborrowed)" "disk_meta (pool_disk p1) = disk_meta (pool_disk p)"
    by (rule quiet_pin [OF quiet page])
  have f: "\<exists>r pg'. f pg = (r, pg') \<and> page_ident pg' = pid \<and> page_sized pg' \<and> (page_dirty pg' \<or> pg' = pg)"
    if "page_ident pg = pid" "page_bytes pg = bs" "page_sized pg" for pg
    using legal [of pg] that by (cases "f pg") (auto simp: is_page_def legal_change_def)
  obtain pg r pg' p2 where p2: "writing err pid f p1 = (r, p2)" "f pg = (r, pg')" "is_page pid bs pg" "pool_sound p2"
      "pool_view p2 = (pool_view p1)(pid \<mapsto> page_bytes pg')" "pins p2 = pins p1" "borrows p2 = borrows p1"
      "pool_disk p2 = pool_disk p1"
    using writing_sound [where err = err, OF p1(2) _ _ _ _ f] p1 page rw by (auto simp: is_page_def pool_writes_def)
  have dropped: "quiet (drop_guard pid p2)" "pool_view (drop_guard pid p2) = pool_view p2"
      "pool_disk (drop_guard pid p2) = pool_disk p2" "drop_assert pid p2 r = r"
    using quiet_after_drop [OF p2(4), of pid] p2(6,7) p1(4,5) by simp_all
  moreover have "update_page err pid f p = (r, drop_guard pid p2)"
    using p1(1) p2(1) dropped(4) by (simp add: update_page_def pinning_def act_simps)
  ultimately show ?thesis
    using p1 p2 rw by (intro exI [of _ pg]) (auto simp: pool_writes_def pool_next_def)
qed

lemma quiet_fresh:
  assumes quiet: "quiet p" and rw: "pool_writes p" and next_page: "pool_next p = Some pid"
    and legal: "\<And>pg. is_page pid (replicate PAGE_SIZE 0) pg \<Longrightarrow> legal_change pg (snd (f pg))"
  shows "\<exists>pg p'. new_page err f p = (and_then (fst (f pg)) (\<lambda>x. Ok (pid, x)), p') \<and> is_page pid (replicate PAGE_SIZE 0) pg
    \<and> quiet p' \<and> pool_view p pid = None
    \<and> pool_view p' = (pool_view p)(pid \<mapsto> page_bytes (snd (f pg))) \<and> pool_writes p' \<and> pool_next p' = id_after pid"
proof -
  let ?z = "replicate PAGE_SIZE (0 :: u8)"
  have pid: "pid = next_id (pool_disk p)" "next_id (pool_disk p) \<noteq> - 1"
    using next_page by (auto simp: pool_next_def Let_def split: if_splits)
  obtain p1 where p1: "pool_allocate_page p = (Ok pid, p1)" "pool_sound p1" "pool_view p pid = None"
      "pool_view p1 = (pool_view p)(pid \<mapsto> ?z)" "pins p1 = (\<lambda>_. 0)(pid := 1)" "borrows p1 = (\<lambda>_. Unborrowed)"
      "\<not> disk_read_only (pool_disk p1)" "next_id (pool_disk p1) = pid + 1"
    using allocate_sound [OF quietD(1,4) [OF quiet]] rw pid quietD [OF quiet]
    by (auto simp: Let_def pool_writes_def quiet_def fun_eq_iff)
  have f: "\<exists>r pg'. f pg = (r, pg') \<and> page_ident pg' = pid \<and> page_sized pg' \<and> (page_dirty pg' \<or> pg' = pg)"
    if "page_ident pg = pid" "page_bytes pg = ?z" "page_sized pg" for pg
    using legal [of pg] that by (cases "f pg") (auto simp: is_page_def legal_change_def)
  obtain pg r pg' p2 where p2: "writing err pid f p1 = (r, p2)" "f pg = (r, pg')" "is_page pid ?z pg" "pool_sound p2"
      "pool_view p2 = (pool_view p1)(pid \<mapsto> page_bytes pg')" "pins p2 = pins p1" "borrows p2 = borrows p1"
      "pool_disk p2 = pool_disk p1"
    using writing_sound [where err = err, OF p1(2) _ _ _ _ f] p1 by (auto simp: is_page_def)
  have dropped: "quiet (drop_guard pid p2)" "pool_view (drop_guard pid p2) = pool_view p2"
      "pool_disk (drop_guard pid p2) = pool_disk p2" and ok: "drop_assert pid p2 x = x" for x :: "(page_id \<times> 'a, 'b) result"
    using quiet_after_drop [OF p2(4), of pid] p2(6,7) p1(5,6) by simp_all
  moreover have "new_page err f p = (and_then r (\<lambda>x. Ok (pid, x)), drop_guard pid p2)"
    using p1(1) p2(1) ok by (cases r) (simp_all add: new_page_def allocating_def act_simps)
  ultimately show ?thesis
    using p1 p2 by (intro exI [of _ pg]) (auto simp: pool_writes_def pool_next_def id_after_def Let_def)
qed

interpretation pool: page_store quiet pool_view pool_writes pool_next id_after "read_page err" "update_page err" "new_page err"
  is_page page_bytes legal_change "replicate PAGE_SIZE 0" for err
  by unfold_locales (rule quiet_read quiet_change quiet_fresh; assumption?; simp)+

end
