(* ===== verification/Heap_Facts.thy ===== *)
theory Heap_Facts
  imports Heap_File Slotted_Props Buffer_Props
begin

text \<open>
  Heap files over an abstract pool: what each operation does to the contents of the pages, as
  the buffer pool shows them. The invariant \<open>heap_inv\<close> says that the pages are distinct,
  well formed and linked in order; \<open>heap_lookup\<close> is the abstract heap, a map from RIDs to
  records.
\<close>

section \<open>Slotted operations as changes of a page\<close>

text \<open>The slotted page operations only use the \<^verbatim>\<open>Page\<close> interface, so that they are legal behind
  a mutable borrow.\<close>

definition legal_act :: "(slotted_page, 'a, 'e) act \<Rightarrow> bool" where
  "legal_act m \<longleftrightarrow> (\<forall>sp. page_sized (page_ref sp) \<longrightarrow> legal_change (page_ref sp) (page_ref (snd (m sp))))"

named_theorems legal_intros

lemma legal_change_refl: "page_sized pg \<Longrightarrow> legal_change pg pg"
  by (simp add: legal_change_def)

lemma legal_change_trans: "legal_change a b \<Longrightarrow> legal_change b c \<Longrightarrow> legal_change a c"
  by (auto simp: legal_change_def)

lemma legal_basic [legal_intros]: "legal_act (ret x)" "legal_act (fail e)" "legal_act (query f)"
  by (auto simp: legal_act_def act_simps legal_change_refl)

lemma legal_put: "writable sp \<Longrightarrow> page_sized (page_ref sp) \<Longrightarrow> legal_change (page_ref sp) (page_ref (put off src sp))"
  by (auto simp: legal_change_def put_def page_ref_def page_sized_def writable_def Let_def split: page_backing.splits)

lemma legal_write [legal_intros]:
  "legal_act (page_mut (page_write off src))" "legal_act (page_mut (write_u16 off v))" "legal_act (page_mut (write_u32 off w))"
  by (auto simp: legal_act_def page_mut_write page_mut_write_u16 page_mut_write_u32 legal_change_refl intro: legal_put)

lemma legal_bind [legal_intros]:
  assumes "legal_act m" and "\<And>x. legal_act (f x)"
  shows "legal_act (bind_act m f)"
  unfolding legal_act_def
proof (intro allI impI)
  fix sp :: slotted_page
  assume sized: "page_sized (page_ref sp)"
  obtain r sp' where m: "m sp = (r, sp')" by (metis prod.exhaust)
  have 1: "legal_change (page_ref sp) (page_ref sp')"
    using assms(1) sized m unfolding legal_act_def by (metis snd_conv)
  have 2: "legal_change (page_ref sp') (page_ref (snd (f x sp')))" for x
    using assms(2) 1 unfolding legal_act_def legal_change_def by blast
  show "legal_change (page_ref sp) (page_ref (snd (bind_act m f sp)))"
    using 1 legal_change_trans [OF 1 2] by (cases r) (auto simp: act_simps m)
qed

lemma legal_seq [legal_intros]: "legal_act m \<Longrightarrow> legal_act k \<Longrightarrow> legal_act (seq_act m k)"
  unfolding seq_act_def by (rule legal_bind)

lemma legal_map_err [legal_intros]: "legal_act m \<Longrightarrow> legal_act (map_err_act g m)"
  by (auto simp: legal_act_def act_simps split: prod.split)

lemma legal_offsets [legal_intros]: "legal_act (write_offsets xs)"
  by (induction xs) (auto simp: write_slot_u16_def intro!: legal_intros)

lemma legal_compact [legal_intros]: "legal_act compact"
  by (auto simp: compact_def write_header_u16_def intro!: legal_intros split: prod.split if_split)

lemma legal_make_room [legal_intros]: "legal_act (insert_make_room rec growth required)"
  by (auto simp: insert_make_room_def intro!: legal_intros split: if_split)

lemma legal_insert_write [legal_intros]: "legal_act (insert_write rec n slot)"
  by (auto simp: insert_write_def write_header_u16_def write_slot_u16_def intro!: legal_intros split: option.split)

lemma legal_ops [legal_intros]:
  "legal_act (sp_insert rec)" "legal_act (sp_delete r)" "legal_act (set_next_page_id n)"
  by (auto simp: sp_insert_def sp_delete_def set_next_page_id_def Let_def write_header_u16_def write_slot_u16_def
      intro!: legal_intros split: prod.split)

section \<open>Slotted pages in the pool\<close>

text \<open>The link of a page.\<close>

definition link_of :: "bytes \<Rightarrow> page_id option" where
  "link_of bs = (if link_raw bs \<noteq> INVALID_PAGE_ID then Some (link_raw bs) else None)"

lemma next_page_id_link: "next_page_id sp = Ok (link_of (sp_bytes sp))"
  by (simp add: next_page_id_eq link_of_def)

lemma is_page_slotted:
  assumes "is_page pid bs pg"
  shows "sp_bytes \<lparr>backing = Borrowed pg\<rparr> = bs" "sp_page_id \<lparr>backing = Borrowed pg\<rparr> = pid"
    "sp_bytes \<lparr>backing = Shared pg\<rparr> = bs" "sp_page_id \<lparr>backing = Shared pg\<rparr> = pid"
    "writable \<lparr>backing = Borrowed pg\<rparr>" "page_sized pg"
    "wf_layout bs \<Longrightarrow> wf_page \<lparr>backing = Borrowed pg\<rparr>" "wf_layout bs \<Longrightarrow> wf_page \<lparr>backing = Shared pg\<rparr>"
  using assms by (auto simp: is_page_def sp_bytes_def page_ref_def sp_page_id_def writable_def wf_page_def)

lemma open_slotted:
  assumes "is_page pid bs pg" and "wf_layout bs"
  shows "from_page_mut pg = Ok \<lparr>backing = Borrowed pg\<rparr>" "from_page_ref pg = Ok \<lparr>backing = Shared pg\<rparr>"
proof -
  have len: "length bs = PAGE_SIZE" and valid: "valid_layout bs"
    using assms(2) layoutD(1) by (auto simp: wf_layout_def)
  show "from_page_mut pg = Ok \<lparr>backing = Borrowed pg\<rparr>"
    using validate_cases [of "\<lparr>backing = Borrowed pg\<rparr>"] is_page_slotted [OF assms(1)] len valid
    by (simp add: from_page_mut_def from_backing_def)
  show "from_page_ref pg = Ok \<lparr>backing = Shared pg\<rparr>"
    using validate_cases [of "\<lparr>backing = Shared pg\<rparr>"] is_page_slotted [OF assms(1)] len valid
    by (simp add: from_page_ref_def from_backing_def)
qed

lemma with_slotted_mut_eq:
  assumes "is_page pid bs pg" and "wf_layout bs"
  shows "with_slotted_mut m pg = (case m \<lparr>backing = Borrowed pg\<rparr> of (r, sp') \<Rightarrow> (r, page_ref sp'))"
  using open_slotted(1) [OF assms] by (simp add: with_slotted_mut_def)

lemma with_slotted_mut_legal:
  assumes "legal_act m" and "is_page pid bs pg" and "wf_layout bs"
  shows "legal_change pg (snd (with_slotted_mut m pg))"
proof -
  have "page_ref \<lparr>backing = Borrowed pg\<rparr> = pg" by (simp add: page_ref_def)
  then have "legal_change pg (page_ref (snd (m \<lparr>backing = Borrowed pg\<rparr>)))"
    using assms(1) is_page_slotted(6) [OF assms(2)] unfolding legal_act_def by metis
  then show ?thesis
    by (simp add: with_slotted_mut_eq [OF assms(2,3)] case_prod_unfold)
qed

lemma with_slotted_new_eq:
  assumes "page_sized pg"
  shows "with_slotted_new m pg =
    (case m \<lparr>backing = Borrowed (pg\<lparr>page_bytes := empty_layout, page_dirty := True\<rparr>)\<rparr> of (r, sp') \<Rightarrow> (r, page_ref sp'))"
  by (simp add: with_slotted_new_def slotted_initialize_eq [OF assms])

lemma with_slotted_new_legal:
  assumes "legal_act m" and "page_sized pg"
  shows "legal_change pg (snd (with_slotted_new m pg))"
proof -
  let ?pg = "pg\<lparr>page_bytes := empty_layout, page_dirty := True\<rparr>"
  have 1: "legal_change pg ?pg"
    by (simp add: legal_change_def page_sized_def empty_layout_fields(1))
  have "page_ref \<lparr>backing = Borrowed ?pg\<rparr> = ?pg" by (simp add: page_ref_def)
  then have "legal_change ?pg (page_ref (snd (m \<lparr>backing = Borrowed ?pg\<rparr>)))"
    using assms(1) 1 unfolding legal_act_def legal_change_def by metis
  with 1 have "legal_change pg (page_ref (snd (m \<lparr>backing = Borrowed ?pg\<rparr>)))"
    by (rule legal_change_trans)
  then show ?thesis
    by (simp add: with_slotted_new_eq [OF assms(2)] case_prod_unfold)
qed

section \<open>The invariant and the abstract heap\<close>

type_synonym page_view = "page_id \<Rightarrow> bytes option"

definition wf_at :: "page_view \<Rightarrow> page_id \<Rightarrow> bool" where
  "wf_at V pid \<longleftrightarrow> (\<exists>bs. V pid = Some bs \<and> wf_layout bs)"

definition slots_at :: "page_view \<Rightarrow> page_id \<Rightarrow> slot_view list" where
  "slots_at V pid = slots_of (the (V pid))"

definition link_at :: "page_view \<Rightarrow> page_id \<Rightarrow> page_id option" where
  "link_at V pid = link_of (the (V pid))"

text \<open>\<open>pids\<close> is a chain: each page links to the next one, the last to none.\<close>

fun linked :: "page_view \<Rightarrow> page_id list \<Rightarrow> bool" where
  "linked V [] \<longleftrightarrow> False"
| "linked V [pid] \<longleftrightarrow> link_at V pid = None"
| "linked V (pid # q # pids) \<longleftrightarrow> link_at V pid = Some q \<and> linked V (q # pids)"

definition heap_inv :: "page_view \<Rightarrow> heap_file \<Rightarrow> bool" where
  "heap_inv V h \<longleftrightarrow> distinct (heap_pages h) \<and> (\<forall>pid\<in>set (heap_pages h). wf_at V pid) \<and> linked V (heap_pages h)"

definition heap_lookup :: "page_view \<Rightarrow> heap_file \<Rightarrow> rid \<Rightarrow> bytes option" where
  "heap_lookup V h r =
     (if rid_page r \<in> set (heap_pages h)
      then spec_get (unat (rid_slot r)) (rid_generation r) (slots_at V (rid_page r)) else None)"

lemma wf_atD: "wf_at V pid \<Longrightarrow> V pid = Some (the (V pid)) \<and> wf_layout (the (V pid))"
  by (auto simp: wf_at_def)

lemma linked_cong: "(\<And>pid. pid \<in> set pids \<Longrightarrow> link_at V pid = link_at W pid) \<Longrightarrow> linked V pids = linked W pids"
  by (induction V pids rule: linked.induct) auto

text \<open>A change of one page that keeps it well formed and keeps its link.\<close>

lemma heap_inv_update:
  assumes "heap_inv V h" and "wf_layout bs" and "V pid \<noteq> None \<Longrightarrow> link_of bs = link_at V pid"
    and "pid \<in> set (heap_pages h)"
  shows "heap_inv (V(pid \<mapsto> bs)) h"
proof -
  have "link_of bs = link_at V pid"
    using assms(1,3,4) by (auto simp: heap_inv_def wf_at_def)
  then have "linked (V(pid \<mapsto> bs)) (heap_pages h) = linked V (heap_pages h)"
    by (intro linked_cong) (simp add: link_at_def)
  then show ?thesis
    using assms(1,2) by (auto simp: heap_inv_def wf_at_def)
qed

lemma slots_at_upd [simp]: "slots_at (V(pid \<mapsto> bs)) q = (if q = pid then slots_of bs else slots_at V q)"
  by (simp add: slots_at_def)

lemma link_at_upd [simp]: "link_at (V(pid \<mapsto> bs)) q = (if q = pid then link_of bs else link_at V q)"
  by (simp add: link_at_def)

section \<open>Inserting into one page\<close>

lemma link_of_same_page: "same_page sp sp' \<Longrightarrow> link_of (sp_bytes sp') = link_of (sp_bytes sp)"
  using next_page_id_link [of sp] next_page_id_link [of sp'] by (simp add: same_page_def)

lemma page_bytes_ref: "page_bytes (page_ref sp) = sp_bytes sp"
  by (simp add: sp_bytes_def)

lemma insert_attempt_run:
  assumes quiet: "quiet p" and rw: "pool_writes p" and wf: "wf_at (pool_view p) pid"
  shows "\<exists>p'. quiet p' \<and> pool_writes p' \<and> pool_next p' = pool_next p \<and>
    (case spec_insert_outcome rec (slots_at (pool_view p) pid) of
       Ok (k, g, xs) \<Rightarrow> insert_attempt rec pid p = (Ok (Ok (rid_new pid (of_nat k) g)), p') \<and>
         (\<exists>bs. pool_view p' = (pool_view p)(pid \<mapsto> bs) \<and> wf_layout bs \<and> slots_of bs = xs
            \<and> link_of bs = link_at (pool_view p) pid)
     | Err e \<Rightarrow> insert_attempt rec pid p = (Ok (Err e), p') \<and> pool_view p' = pool_view p
     | Panic \<Rightarrow> False)"
proof -
  let ?bs = "the (pool_view p pid)"
  let ?m = "\<lambda>sp. case sp_insert rec sp of (Panic, sp') \<Rightarrow> (Panic, sp') | (r, sp') \<Rightarrow> (Ok r, sp')"
  have page: "pool_view p pid = Some ?bs" "wf_layout ?bs" using wf_atD [OF wf] by auto
  have "legal_act ?m"
    using legal_ops(1) [of rec] unfolding legal_act_def
    by (auto split: prod.split result.split)
  then obtain pg p' where run: "insert_attempt rec pid p = (fst (with_slotted_mut ?m pg), p')" "is_page pid ?bs pg"
      "quiet p'" "pool_view p' = (pool_view p)(pid \<mapsto> page_bytes (snd (with_slotted_mut ?m pg)))"
      "pool_writes p'" "pool_next p' = pool_next p"
    using pool.change [OF quiet rw page(1), of "with_slotted_mut ?m" H_Buffer] with_slotted_mut_legal [OF _ _ page(2), of ?m pid]
    unfolding insert_attempt_def by blast
  let ?sp = "\<lparr>backing = Borrowed pg\<rparr>"
  note S = is_page_slotted [OF run(2)]
  have slots: "page_slots ?sp = slots_at (pool_view p) pid"
    using S(1) by (simp add: page_slots_def slots_at_def)
  show ?thesis
  proof (cases "spec_insert_outcome rec (slots_at (pool_view p) pid)")
    case (Ok x)
    obtain k g xs where x: "x = (k, g, xs)" by (cases x)
    obtain sp' where sp': "sp_insert rec ?sp = (Ok (rid_new pid (of_nat k) g), sp')" "page_slots sp' = xs" "same_page ?sp sp'"
      using insert_refines_ok [OF S(7) S(5), of rec k g xs] page(2) Ok x slots S(2) by auto
    then have "with_slotted_mut ?m pg = (Ok (Ok (rid_new pid (of_nat k) g)), page_ref sp')"
      by (simp add: with_slotted_mut_eq [OF run(2) page(2)])
    moreover have "wf_layout (sp_bytes sp')" "link_of (sp_bytes sp') = link_at (pool_view p) pid"
      using sp'(3) link_of_same_page [OF sp'(3)] S(1) by (auto simp: same_page_def wf_page_def link_at_def)
    ultimately show ?thesis
      using run Ok x sp'(2) by (intro exI [of _ p']) (auto simp: page_bytes_ref page_slots_def)
  next
    case (Err e)
    have "sp_insert rec ?sp = (Err e, ?sp)"
      using insert_refines_err [OF S(7), of rec e] page(2) Err slots by simp
    then have "with_slotted_mut ?m pg = (Ok (Err e), pg)"
      by (simp add: with_slotted_mut_eq [OF run(2) page(2)] page_ref_def)
    then show ?thesis
      using run Err page(1) by (intro exI [of _ p']) (auto simp: is_page_def)
  next
    case Panic
    then show ?thesis using spec_insert_outcome_not_Panic by simp
  qed
qed

section \<open>The insertion loop\<close>

text \<open>The page the loop stops at: the first that answers with anything but no space.\<close>

fun choose_page :: "bytes \<Rightarrow> page_view \<Rightarrow> page_id list \<Rightarrow> page_id option" where
  "choose_page rec V [] = None"
| "choose_page rec V (pid # pids) =
     (case spec_insert_outcome rec (slots_at V pid) of
        Err (SP_NoSpace required available) \<Rightarrow> choose_page rec V pids
      | _ \<Rightarrow> Some pid)"

lemma choose_page_in: "choose_page rec V pids = Some pid \<Longrightarrow> pid \<in> set pids"
  by (induction pids) (auto split: result.splits slotted_page_error.splits)

lemma insert_into_run:
  assumes "quiet p" and "pool_writes p" and "\<And>pid. pid \<in> set pids \<Longrightarrow> wf_at (pool_view p) pid"
  shows "\<exists>p'. quiet p' \<and> pool_writes p' \<and> pool_next p' = pool_next p \<and>
    (case choose_page rec (pool_view p) pids of
       None \<Rightarrow> insert_into rec pids p = (Ok None, p') \<and> pool_view p' = pool_view p
     | Some pid \<Rightarrow>
         (case spec_insert_outcome rec (slots_at (pool_view p) pid) of
            Ok (k, g, xs) \<Rightarrow> insert_into rec pids p = (Ok (Some (rid_new pid (of_nat k) g)), p') \<and>
              (\<exists>bs. pool_view p' = (pool_view p)(pid \<mapsto> bs) \<and> wf_layout bs \<and> slots_of bs = xs
                 \<and> link_of bs = link_at (pool_view p) pid)
          | Err e \<Rightarrow> insert_into rec pids p = (Err (H_Page e), p') \<and> pool_view p' = pool_view p
          | Panic \<Rightarrow> False))"
  using assms
proof (induction pids arbitrary: p)
  case Nil
  then show ?case by (intro exI [of _ p]) (simp add: act_simps)
next
  case (Cons pid pids)
  obtain p1 where p1: "quiet p1" "pool_writes p1" "pool_next p1 = pool_next p"
    and run: "case spec_insert_outcome rec (slots_at (pool_view p) pid) of
       Ok (k, g, xs) \<Rightarrow> insert_attempt rec pid p = (Ok (Ok (rid_new pid (of_nat k) g)), p1) \<and>
         (\<exists>bs. pool_view p1 = (pool_view p)(pid \<mapsto> bs) \<and> wf_layout bs \<and> slots_of bs = xs
            \<and> link_of bs = link_at (pool_view p) pid)
     | Err e \<Rightarrow> insert_attempt rec pid p = (Ok (Err e), p1) \<and> pool_view p1 = pool_view p
     | Panic \<Rightarrow> False"
    using insert_attempt_run [OF Cons.prems(1,2), of pid rec] Cons.prems(3) by auto
  show ?case
  proof (cases "spec_insert_outcome rec (slots_at (pool_view p) pid)")
    case (Ok x)
    then show ?thesis
      using p1 run by (intro exI [of _ p1]) (cases x, auto simp: act_simps)
  next
    case (Err e)
    show ?thesis
    proof (cases "\<exists>a b. e = SP_NoSpace a b")
      case True
      then obtain a b where e: "e = SP_NoSpace a b" by blast
      have v: "pool_view p1 = pool_view p" and step: "insert_into rec (pid # pids) p = insert_into rec pids p1"
        using run Err e by (simp_all add: act_simps)
      have "\<And>pid. pid \<in> set pids \<Longrightarrow> wf_at (pool_view p1) pid"
        using Cons.prems(3) v by simp
      note IH = Cons.IH [OF p1(1,2) this]
      have c: "choose_page rec (pool_view p) (pid # pids) = choose_page rec (pool_view p) pids"
        using Err e by simp
      show ?thesis
        using IH unfolding v c step p1(3) .
    next
      case False
      then have "choose_page rec (pool_view p) (pid # pids) = Some pid"
        using Err by (cases e) auto
      moreover have "insert_into rec (pid # pids) p = (Err (H_Page e), p1)" "pool_view p1 = pool_view p"
        using run Err False by (cases e; simp add: act_simps)+
      ultimately show ?thesis
        using p1 Err by (intro exI [of _ p1]) simp
    qed
  next
    case Panic
    then show ?thesis using spec_insert_outcome_not_Panic by simp
  qed
qed

section \<open>Appending a page\<close>

lemma link_empty: "link_of empty_layout = None"
  by (simp add: link_of_def link_raw_def empty_layout_fields)

text \<open>A record of legal size fits a new page.\<close>

lemma fresh_page_insert:
  assumes "length rec \<le> MAX_RECORD_SIZE" and "page_sized pg" and "page_ident pg = pid"
  shows "\<exists>pg'. with_slotted_new (map_err_act H_Page (sp_insert rec)) pg = (Ok (rid_new pid 0 1), pg')
    \<and> wf_layout (page_bytes pg') \<and> slots_of (page_bytes pg') = [Live 1 rec] \<and> link_of (page_bytes pg') = None"
proof -
  let ?sp = "\<lparr>backing = Borrowed (pg\<lparr>page_bytes := empty_layout, page_dirty := True\<rparr>)\<rparr>"
  have f: "sp_bytes ?sp = empty_layout" "writable ?sp" "sp_page_id ?sp = pid" "wf_page ?sp" "page_slots ?sp = []"
    using assms(3) by (simp_all add: sp_bytes_def page_ref_def writable_def sp_page_id_def wf_page_def wf_empty_layout
        page_slots_def empty_layout_slots)
  obtain sp' where sp': "sp_insert rec ?sp = (Ok (rid_new pid 0 1), sp')" "page_slots sp' = [Live 1 rec]" "same_page ?sp sp'"
    using insert_refines_ok [OF f(4,2), of rec 0 1 "[Live 1 rec]"] assms(1) f
    by (auto simp: spec_insert_outcome_def spec_insert_def)
  then show ?thesis
    using link_of_same_page [OF sp'(3)] f(1) link_empty
    by (auto simp: with_slotted_new_eq [OF assms(2)] act_simps page_bytes_ref page_slots_def same_page_def wf_page_def)
qed

lemma set_link_run:
  assumes quiet: "quiet p" and rw: "pool_writes p" and wf: "wf_at (pool_view p) pid" and n: "n \<noteq> INVALID_PAGE_ID"
  shows "\<exists>p' bs. update_page H_Buffer pid (with_slotted_mut (map_err_act H_Page (set_next_page_id (Some n)))) p = (Ok (), p')
    \<and> quiet p' \<and> pool_writes p' \<and> pool_view p' = (pool_view p)(pid \<mapsto> bs) \<and> wf_layout bs
    \<and> slots_of bs = slots_at (pool_view p) pid \<and> link_of bs = Some n \<and> pool_next p' = pool_next p"
proof -
  let ?bs = "the (pool_view p pid)" and ?m = "map_err_act H_Page (set_next_page_id (Some n))"
  have page: "pool_view p pid = Some ?bs" "wf_layout ?bs" using wf_atD [OF wf] by auto
  have "legal_act ?m" by (intro legal_intros)
  then obtain pg p' where run: "update_page H_Buffer pid (with_slotted_mut ?m) p = (fst (with_slotted_mut ?m pg), p')"
      "is_page pid ?bs pg" "quiet p'" "pool_view p' = (pool_view p)(pid \<mapsto> page_bytes (snd (with_slotted_mut ?m pg)))" "pool_writes p'"
      "pool_next p' = pool_next p"
    using pool.change [OF quiet rw page(1), of "with_slotted_mut ?m" H_Buffer] with_slotted_mut_legal [OF _ _ page(2), of ?m pid]
    by blast
  let ?sp = "\<lparr>backing = Borrowed pg\<rparr>"
  note S = is_page_slotted [OF run(2)]
  obtain sp' where sp': "set_next_page_id (Some n) ?sp = (Ok (), sp')" "page_slots sp' = page_slots ?sp" "wf_page sp'"
      "next_page_id sp' = Ok (Some n)"
    using set_next_refines_ok [OF S(7) S(5), of "Some n"] page(2) n by auto
  then have "with_slotted_mut ?m pg = (Ok (), page_ref sp')"
    by (simp add: with_slotted_mut_eq [OF run(2) page(2)] act_simps)
  then show ?thesis
    using run sp' S(1) next_page_id_link [of sp']
    by (auto simp: page_bytes_ref page_slots_def slots_at_def wf_page_def)
qed

text \<open>Allocation refused: every identifier is used.\<close>

lemma new_page_exhausted:
  assumes quiet: "quiet p" and rw: "pool_writes p" and none: "pool_next p = None"
  shows "\<exists>p'. new_page H_Buffer f p = (Err (H_Buffer (BP_Disk D_PageIdExhausted)), p') \<and> quiet p' \<and> pool_view p' = pool_view p \<and> pool_writes p'"
proof -
  obtain p1 where p1: "ensure_space p = (Ok (), p1)" "pool_sound p1" "same_client_state p p1"
    using ensure_space_sound [OF quietD(1,4) [OF quiet]] by blast
  have "disk_allocate_page (pool_disk p1) = (Err D_PageIdExhausted, pool_disk p1)"
    using p1(3) rw none
    by (auto simp: same_client_state_def pool_writes_def pool_next_def Let_def disk_allocate_page_def act_simps
        ensure_writable_def split: if_splits)
  then have "new_page H_Buffer f p = (Err (H_Buffer (BP_Disk D_PageIdExhausted)), p1)"
    using p1(1) rw borrow_inner_run [OF pool_sound_inv [OF quietD(1) [OF quiet]]]
    by (simp add: new_page_def allocating_def pool_allocate_page_def act_simps on_disk_def pool_writes_def)
  then show ?thesis
    using p1 quiet rw by (auto simp: quiet_def same_client_state_def pool_writes_def)
qed

text \<open>Following the links from the first of \<open>pids\<close> visits \<open>pids\<close>, and the last of them links to
  \<open>end\<close>.\<close>

fun chain :: "page_view \<Rightarrow> page_id list \<Rightarrow> page_id option \<Rightarrow> bool" where
  "chain V [] e \<longleftrightarrow> False"
| "chain V [pid] e \<longleftrightarrow> link_at V pid = e"
| "chain V (pid # q # pids) e \<longleftrightarrow> link_at V pid = Some q \<and> chain V (q # pids) e"

lemma linked_chain: "linked V pids \<longleftrightarrow> chain V pids None"
  by (induction V pids rule: linked.induct) auto

lemma linked_append:
  "chain V pids e \<Longrightarrow> distinct pids \<Longrightarrow> link_at W (last pids) = Some n \<Longrightarrow> link_at W n = None \<Longrightarrow>
   (\<And>pid. pid \<in> set pids \<Longrightarrow> pid \<noteq> last pids \<Longrightarrow> link_at W pid = link_at V pid) \<Longrightarrow> linked W (pids @ [n])"
proof (induction V pids e rule: chain.induct)
  case (3 V pid q pids e)
  then have "pid \<noteq> last (q # pids)"
    by (metis distinct.simps(2) last_in_set list.distinct(1))
  then show ?case using 3 by auto
qed auto

lemma linked_prefix: "linked V (pids @ [n]) \<Longrightarrow> pids \<noteq> [] \<Longrightarrow> chain V pids (Some n)"
  by (induction pids rule: induct_list012) auto

text \<open>What appending needs of the pages of a handle: the last of them may link anywhere.\<close>

definition pages_chain :: "page_view \<Rightarrow> heap_file \<Rightarrow> page_id option \<Rightarrow> bool" where
  "pages_chain V h e \<longleftrightarrow> heap_pages h \<noteq> [] \<and> distinct (heap_pages h) \<and> chain V (heap_pages h) e
     \<and> (\<forall>pid\<in>set (heap_pages h). wf_at V pid)"

lemma heap_inv_chain: "heap_inv V h \<longleftrightarrow> pages_chain V h None"
  by (auto simp: heap_inv_def pages_chain_def linked_chain)

end
