(* ===== verification/Heap_Runs.thy ===== *)
theory Heap_Runs
  imports Heap_Facts
begin

text \<open>
  What each operation of a heap file does to the pages as clients of the pool see them: its
  result, the map from RIDs to records after it, and that no page outside the heap changes.
\<close>

section \<open>What the operations do\<close>

lemma rid_new_eq_iff: "k < 65536 \<Longrightarrow>
  r = rid_new pid (of_nat k) g \<longleftrightarrow> rid_page r = pid \<and> unat (rid_slot r) = k \<and> rid_generation r = g"
  by (cases r) (auto simp: rid_new_def)

lemma slots_small: "wf_layout bs \<Longrightarrow> length (slots_of bs) < 65536"
  using layoutD(2) [of bs] by (simp add: wf_layout_def)

lemma lookup_insert:
  assumes spec: "spec_insert rec (slots_at V pid) = (k, g, slots_of bs)" and wf: "wf_layout bs"
    and pid: "pid \<in> set (heap_pages h)"
  shows "heap_lookup (V(pid \<mapsto> bs)) h = (heap_lookup V h)(rid_new pid (of_nat k) g \<mapsto> rec)"
    and "heap_lookup V h (rid_new pid (of_nat k) g) = None"
proof -
  have k: "k < 65536"
    using spec_insert_lookup(3) [OF spec] slots_small [OF wf] by simp
  show "heap_lookup (V(pid \<mapsto> bs)) h = (heap_lookup V h)(rid_new pid (of_nat k) g \<mapsto> rec)"
    using pid by (auto simp: heap_lookup_def fun_eq_iff rid_new_eq_iff [OF k] spec_insert_lookup(1) [OF spec])
  show "heap_lookup V h (rid_new pid (of_nat k) g) = None"
    using k spec_insert_lookup(2) [OF spec] by (simp add: heap_lookup_def rid_new_def)
qed

text \<open>The slots of a page after an insertion somewhere in the heap.\<close>

definition insert_or_same :: "bytes \<Rightarrow> slot_view list \<Rightarrow> slot_view list \<Rightarrow> bool" where
  "insert_or_same rec xs ys \<longleftrightarrow> ys = xs \<or> (\<exists>k g. spec_insert rec xs = (k, g, ys))"

text \<open>Why an insertion is refused.\<close>

definition insert_refusal :: "bytes \<Rightarrow> heap_file \<Rightarrow> buffer_pool \<Rightarrow> heap_error \<Rightarrow> bool" where
  "insert_refusal rec h p e \<longleftrightarrow>
     (MAX_RECORD_SIZE < length rec \<and> e = H_RecordTooLarge (length rec) MAX_RECORD_SIZE)
     \<or> (pool_next p = None \<and> e = H_Buffer (BP_Disk D_PageIdExhausted))
     \<or> (\<exists>pid\<in>set (heap_pages h). spec_first_reusable (slots_at (pool_view p) pid) = None
          \<and> spec_free (slots_at (pool_view p) pid) < SLOT_ENTRY_SIZE
          \<and> e = H_Page (SP_Corrupt ''page metadata and live records exceed page size''))"

lemma not_invalid: "n \<noteq> - 1 \<Longrightarrow> n \<noteq> (INVALID_PAGE_ID :: u32)"
  using unat_u32_max [of n] by auto

text \<open>What an operation leaves alone: pages outside the heap; and the pages it adds were unused.\<close>

definition heap_frame :: "page_view \<Rightarrow> heap_file \<Rightarrow> page_view \<Rightarrow> heap_file \<Rightarrow> bool" where
  "heap_frame V h V' h' \<longleftrightarrow> (\<forall>pid. pid \<notin> set (heap_pages h') \<longrightarrow> V' pid = V pid)
     \<and> set (heap_pages h) \<subseteq> set (heap_pages h') \<and> hd (heap_pages h') = hd (heap_pages h)
     \<and> (\<forall>pid\<in>set (heap_pages h') - set (heap_pages h). V pid = None)"

lemma heap_frame_refl [simp]: "heap_frame V h V h"
  by (simp add: heap_frame_def)

lemma heap_frame_page: "pid \<in> set (heap_pages h) \<Longrightarrow> heap_frame V h (V(pid \<mapsto> bs)) h"
  by (auto simp: heap_frame_def)

text \<open>The heap with one more page, which holds the record.\<close>

lemma lookup_append:
  assumes new: "n \<notin> set (heap_pages h)" and slot: "slots_at V' n = [Live 1 rec]"
    and old: "\<And>pid. pid \<in> set (heap_pages h) \<Longrightarrow> slots_at V' pid = slots_at V pid"
  shows "heap_lookup V' (h\<lparr>heap_pages := heap_pages h @ [n]\<rparr>) = (heap_lookup V h)(rid_new n 0 1 \<mapsto> rec)"
    and "heap_lookup V h (rid_new n 0 1) = None"
proof
  fix r
  show "heap_lookup V' (h\<lparr>heap_pages := heap_pages h @ [n]\<rparr>) r = ((heap_lookup V h)(rid_new n 0 1 \<mapsto> rec)) r"
  proof (cases "rid_page r = n")
    case True
    then show ?thesis
      using slot new rid_new_eq_iff [of 0 r n 1] by (auto simp: heap_lookup_def spec_get_def)
  next
    case False
    then show ?thesis
      using old by (auto simp: heap_lookup_def rid_new_def)
  qed
next
  show "heap_lookup V h (rid_new n 0 1) = None"
    using new by (simp add: heap_lookup_def rid_new_def)
qed

lemma append_run:
  assumes quiet: "quiet p" and inv: "pages_chain (pool_view p) h e" and rw: "pool_writes p"
    and len: "length rec \<le> MAX_RECORD_SIZE" and next_page: "pool_next p = Some n"
  shows "\<exists>p' h'. append_page_with_record rec (h, p) = (Ok (rid_new n 0 1), (h', p')) \<and> quiet p'
    \<and> pool_writes p' \<and> heap_inv (pool_view p') h' \<and> heap_pages h' = heap_pages h @ [n]
    \<and> heap_lookup (pool_view p) h (rid_new n 0 1) = None
    \<and> heap_lookup (pool_view p') h' = (heap_lookup (pool_view p) h)(rid_new n 0 1 \<mapsto> rec)
    \<and> (\<forall>pid\<in>set (heap_pages h). slots_at (pool_view p') pid = slots_at (pool_view p) pid)
    \<and> heap_frame (pool_view p) h (pool_view p') h' \<and> pool_next p' = id_after n
    \<and> slots_at (pool_view p') n = [Live 1 rec]"
proof -
  let ?V = "pool_view p" and ?m = "map_err_act H_Page (sp_insert rec)" and ?z = "replicate PAGE_SIZE (0 :: u8)"
  have n: "n \<noteq> INVALID_PAGE_ID"
    using next_page by (auto simp: pool_next_def Let_def intro: not_invalid split: if_splits)
  have legal: "legal_change pg (snd (with_slotted_new ?m pg))" if "is_page n ?z pg" for pg
    using that by (intro with_slotted_new_legal legal_intros) (simp add: is_page_def)
  obtain pg p1 where run: "new_page H_Buffer (with_slotted_new ?m) p =
        (and_then (fst (with_slotted_new ?m pg)) (\<lambda>x. Ok (n, x)), p1)" "is_page n ?z pg" "quiet p1" "?V n = None"
      "pool_view p1 = ?V(n \<mapsto> page_bytes (snd (with_slotted_new ?m pg)))" "pool_writes p1"
      "pool_next p1 = id_after n"
    using pool.fresh [OF quiet rw next_page legal, of H_Buffer] by blast
  obtain pg' where pg': "with_slotted_new ?m pg = (Ok (rid_new n 0 1), pg')" "wf_layout (page_bytes pg')"
      "slots_of (page_bytes pg') = [Live 1 rec]" "link_of (page_bytes pg') = None"
    using fresh_page_insert [OF len, of pg n] run(2) by (auto simp: is_page_def)
  let ?V1 = "?V(n \<mapsto> page_bytes pg')" and ?l = "last (heap_pages h)"
  have V1: "pool_view p1 = ?V1" using run(5) pg'(1) by simp
  have ps: "heap_pages h \<noteq> []" "distinct (heap_pages h)" "chain ?V (heap_pages h) e"
      "\<And>pid. pid \<in> set (heap_pages h) \<Longrightarrow> wf_at ?V pid"
    using inv by (auto simp: pages_chain_def)
  have new: "n \<notin> set (heap_pages h)"
    using run(4) ps(4) [of n] by (auto simp: wf_at_def)
  then have l: "?l \<in> set (heap_pages h)" "?l \<noteq> n"
    using ps(1) last_in_set by blast+
  then have wf1: "wf_at (pool_view p1) ?l"
    using ps(4) by (simp add: V1 wf_at_def)
  obtain p2 bs where link: "update_page H_Buffer ?l (with_slotted_mut (map_err_act H_Page (set_next_page_id (Some n)))) p1 = (Ok (), p2)"
      "quiet p2" "pool_writes p2" "pool_view p2 = ?V1(?l \<mapsto> bs)" "wf_layout bs" "slots_of bs = slots_at ?V ?l" "link_of bs = Some n"
      "pool_next p2 = pool_next p1"
    using set_link_run [OF run(3,6) wf1 n] l(2) by (auto simp: V1)
  let ?h = "h\<lparr>heap_pages := heap_pages h @ [n]\<rparr>"
  have final: "append_page_with_record rec (h, p) = (Ok (rid_new n 0 1), (?h, p2))"
    using run(1) pg'(1) link(1) ps(1)
    by (simp add: append_page_with_record_def on_pool_def last_page_id_def act_simps)
  have "linked (pool_view p2) (heap_pages h @ [n])"
  proof (rule linked_append [OF ps(3,2)])
    show "link_at (pool_view p2) pid = link_at ?V pid" if "pid \<in> set (heap_pages h)" "pid \<noteq> ?l" for pid
      using that new link(4) by auto
  qed (use l(2) link(4,7) pg'(4) in simp_all)
  moreover have "\<forall>pid\<in>set (heap_pages ?h). wf_at (pool_view p2) pid"
    using ps(4) link(4,5) pg'(2) by (auto simp: wf_at_def)
  ultimately have "heap_inv (pool_view p2) ?h"
    using ps(2) new by (simp add: heap_inv_def)
  moreover have slots: "slots_at (pool_view p2) pid = slots_at ?V pid" if "pid \<in> set (heap_pages h)" for pid
    using that new link(4,6) by auto
  moreover have slot: "slots_at (pool_view p2) n = [Live 1 rec]"
    using link(4) l(2) pg'(3) by auto
  moreover note lookup_append [OF new slot slots]
  moreover have "heap_frame ?V h (pool_view p2) ?h"
    using ps(1) l(1) run(4) by (auto simp: heap_frame_def link(4))
  ultimately show ?thesis
    using final link(2,3,8) run(7) by auto
qed

lemma outcome_error:
  assumes "spec_insert_outcome rec xs = Err e" and "length rec \<le> MAX_RECORD_SIZE" and "\<nexists>a b. e = SP_NoSpace a b"
  shows "spec_first_reusable xs = None \<and> spec_free xs < SLOT_ENTRY_SIZE
    \<and> e = SP_Corrupt ''page metadata and live records exceed page size''"
  using assms by (auto simp: spec_insert_outcome_def Let_def split: if_splits)

lemma choose_page_outcome:
  "choose_page rec V pids = Some pid \<Longrightarrow> \<nexists>a b. spec_insert_outcome rec (slots_at V pid) = Err (SP_NoSpace a b)"
  by (induction pids) (auto split: result.splits slotted_page_error.splits)

text \<open>What an insertion does: the new record under a new RID, or nothing and the reason.\<close>

abbreviation insert_effect :: "bytes \<Rightarrow> heap_file \<Rightarrow> buffer_pool \<Rightarrow> (rid, heap_error) result \<Rightarrow> heap_file \<Rightarrow> buffer_pool \<Rightarrow> bool" where
  "insert_effect rec h p r h' p' \<equiv> heap_insert rec (h, p) = (r, (h', p')) \<and> quiet p' \<and> pool_writes p' \<and> heap_inv (pool_view p') h'
    \<and> heap_frame (pool_view p) h (pool_view p') h' \<and>
    (case r of
       Ok rid \<Rightarrow> length rec \<le> MAX_RECORD_SIZE \<and> heap_lookup (pool_view p) h rid = None
         \<and> heap_lookup (pool_view p') h' = (heap_lookup (pool_view p) h)(rid \<mapsto> rec)
         \<and> (\<exists>new. heap_pages h' = heap_pages h @ new) \<and> pool_next p' \<in> {pool_next p, Option.bind (pool_next p) id_after}
         \<and> (\<forall>pid\<in>set (heap_pages h). insert_or_same rec (slots_at (pool_view p) pid) (slots_at (pool_view p') pid))
     | Err e \<Rightarrow> h' = h \<and> pool_view p' = pool_view p \<and> insert_refusal rec h p e
     | Panic \<Rightarrow> False)"

text \<open>No page of the heap takes the record: a page is appended, unless the identifiers are used up.\<close>

lemma insert_by_append:
  assumes inv: "heap_inv (pool_view p) h" and len: "length rec \<le> MAX_RECORD_SIZE"
    and none: "insert_into rec (heap_pages h) p = (Ok None, p1)"
    and p1: "quiet p1" "pool_writes p1" "pool_next p1 = pool_next p" "pool_view p1 = pool_view p"
  shows "\<exists>r h' p'. insert_effect rec h p r h' p'"
proof -
  have step: "heap_insert rec (h, p) = append_page_with_record rec (h, p1)"
    using none len by (simp add: heap_insert_def on_pool_def act_simps)
  show ?thesis
  proof (cases "pool_next p1")
    case None
    obtain p2 where "new_page H_Buffer (with_slotted_new (map_err_act H_Page (sp_insert rec))) p1
        = (Err (H_Buffer (BP_Disk D_PageIdExhausted)), p2)" "quiet p2" "pool_view p2 = pool_view p1" "pool_writes p2"
      using new_page_exhausted [OF p1(1,2) None] by blast
    then have "heap_insert rec (h, p) = (Err (H_Buffer (BP_Disk D_PageIdExhausted)), (h, p2))" "quiet p2"
        "pool_view p2 = pool_view p" "pool_writes p2"
      using step p1(4) by (simp_all add: append_page_with_record_def on_pool_def act_simps)
    then show ?thesis
      using inv p1(3) None by (intro exI [of _ "Err (H_Buffer (BP_Disk D_PageIdExhausted))"] exI [of _ h] exI [of _ p2])
        (simp add: insert_refusal_def)
  next
    case (Some n)
    have "pages_chain (pool_view p1) h None" using inv p1(4) by (simp add: heap_inv_chain)
    from append_run [OF p1(1) this p1(2) len Some] obtain h' p2 where
        "heap_insert rec (h, p) = (Ok (rid_new n 0 1), (h', p2))" "quiet p2" "pool_writes p2" "heap_inv (pool_view p2) h'"
        "heap_pages h' = heap_pages h @ [n]" "heap_lookup (pool_view p) h (rid_new n 0 1) = None"
        "heap_lookup (pool_view p2) h' = (heap_lookup (pool_view p) h)(rid_new n 0 1 \<mapsto> rec)"
        "\<forall>pid\<in>set (heap_pages h). slots_at (pool_view p2) pid = slots_at (pool_view p) pid"
        "heap_frame (pool_view p) h (pool_view p2) h'" "pool_next p2 = id_after n"
      using p1(4) step by auto
    then show ?thesis
      using len p1(3) [symmetric] Some
      by (intro exI [of _ "Ok (rid_new n 0 1)"] exI [of _ h'] exI [of _ p2]) (simp add: insert_or_same_def)
  qed
qed

text \<open>A page of the heap takes the record, or refuses it for another reason than space.\<close>

lemma insert_in_page:
  assumes inv: "heap_inv (pool_view p) h" and len: "length rec \<le> MAX_RECORD_SIZE"
    and chosen: "choose_page rec (pool_view p) (heap_pages h) = Some pid"
    and p1: "quiet p1" "pool_writes p1" "pool_next p1 = pool_next p"
    and run: "case spec_insert_outcome rec (slots_at (pool_view p) pid) of
            Ok (k, g, xs) \<Rightarrow> insert_into rec (heap_pages h) p = (Ok (Some (rid_new pid (of_nat k) g)), p1) \<and>
              (\<exists>bs. pool_view p1 = (pool_view p)(pid \<mapsto> bs) \<and> wf_layout bs \<and> slots_of bs = xs \<and> link_of bs = link_at (pool_view p) pid)
          | Err e \<Rightarrow> insert_into rec (heap_pages h) p = (Err (H_Page e), p1) \<and> pool_view p1 = pool_view p
          | Panic \<Rightarrow> False"
  shows "\<exists>r h' p'. insert_effect rec h p r h' p'"
proof -
  have pid: "pid \<in> set (heap_pages h)" using choose_page_in [OF chosen] .
  show ?thesis
  proof (cases "spec_insert_outcome rec (slots_at (pool_view p) pid)")
    case (Ok x)
    obtain k g xs where x: "x = (k, g, xs)" by (cases x)
    obtain bs where bs: "insert_into rec (heap_pages h) p = (Ok (Some (rid_new pid (of_nat k) g)), p1)"
        "pool_view p1 = (pool_view p)(pid \<mapsto> bs)" "wf_layout bs" "slots_of bs = xs" "link_of bs = link_at (pool_view p) pid"
      using run Ok x by auto
    have spec: "spec_insert rec (slots_at (pool_view p) pid) = (k, g, slots_of bs)"
      using Ok x bs(4) by (auto simp: spec_insert_outcome_def Let_def split: if_splits)
    have "heap_insert rec (h, p) = (Ok (rid_new pid (of_nat k) g), (h, p1))"
      using bs(1) len by (simp add: heap_insert_def on_pool_def act_simps)
    then show ?thesis
      using p1 len heap_inv_update [OF inv bs(3,5) pid] lookup_insert [OF spec bs(3) pid] bs(2) spec heap_frame_page [OF pid]
      by (intro exI [of _ "Ok (rid_new pid (of_nat k) g)"] exI [of _ h] exI [of _ p1]) (auto simp: insert_or_same_def)
  next
    case (Err e)
    have "heap_insert rec (h, p) = (Err (H_Page e), (h, p1))" "pool_view p1 = pool_view p"
      using run Err len by (simp_all add: heap_insert_def on_pool_def act_simps)
    moreover have "insert_refusal rec h p (H_Page e)"
      using outcome_error [OF Err] choose_page_outcome [OF chosen] Err len pid by (auto simp: insert_refusal_def)
    ultimately show ?thesis
      using p1 inv by (intro exI [of _ "Err (H_Page e)"] exI [of _ h] exI [of _ p1]) simp
  next
    case Panic
    then show ?thesis using spec_insert_outcome_not_Panic by simp
  qed
qed

lemma heap_insert_run:
  assumes quiet: "quiet p" and inv: "heap_inv (pool_view p) h" and rw: "pool_writes p"
  shows "\<exists>r h' p'. insert_effect rec h p r h' p'"
proof (cases "MAX_RECORD_SIZE < length rec")
  case True
  then have "heap_insert rec (h, p) = (Err (H_RecordTooLarge (length rec) MAX_RECORD_SIZE), (h, p))"
    by (simp add: heap_insert_def act_simps)
  then show ?thesis
    using assms True by (intro exI) (auto simp: insert_refusal_def)
next
  case False
  then have len: "length rec \<le> MAX_RECORD_SIZE" by simp
  have wf: "\<And>pid. pid \<in> set (heap_pages h) \<Longrightarrow> wf_at (pool_view p) pid"
    using inv by (simp add: heap_inv_def)
  obtain p1 where p1: "quiet p1" "pool_writes p1" "pool_next p1 = pool_next p"
    and run: "case choose_page rec (pool_view p) (heap_pages h) of
       None \<Rightarrow> insert_into rec (heap_pages h) p = (Ok None, p1) \<and> pool_view p1 = pool_view p
     | Some pid \<Rightarrow>
         (case spec_insert_outcome rec (slots_at (pool_view p) pid) of
            Ok (k, g, xs) \<Rightarrow> insert_into rec (heap_pages h) p = (Ok (Some (rid_new pid (of_nat k) g)), p1) \<and>
              (\<exists>bs. pool_view p1 = (pool_view p)(pid \<mapsto> bs) \<and> wf_layout bs \<and> slots_of bs = xs \<and> link_of bs = link_at (pool_view p) pid)
          | Err e \<Rightarrow> insert_into rec (heap_pages h) p = (Err (H_Page e), p1) \<and> pool_view p1 = pool_view p
          | Panic \<Rightarrow> False)"
    using insert_into_run [OF quiet rw wf] by blast
  show ?thesis
  proof (cases "choose_page rec (pool_view p) (heap_pages h)")
    case None
    show ?thesis by (rule insert_by_append [OF inv len _ p1]) (use run None in simp_all)
  next
    case (Some pid)
    show ?thesis by (rule insert_in_page [OF inv len Some p1]) (use run Some in simp)
  qed
qed

lemma with_slotted_ref_eq:
  assumes "is_page pid bs pg" and "wf_layout bs"
  shows "with_slotted_ref f pg = f \<lparr>backing = Shared pg\<rparr>"
  using open_slotted(2) [OF assms] by (simp add: with_slotted_ref_def)

lemma heap_inv_page:
  assumes "heap_inv V h" and "pid \<in> set (heap_pages h)"
  obtains bs where "V pid = Some bs" and "wf_layout bs" and "slots_at V pid = slots_of bs" and "link_at V pid = link_of bs"
  using assms that by (auto simp: heap_inv_def wf_at_def slots_at_def link_at_def)

lemma heap_get_run:
  assumes quiet: "quiet p" and inv: "heap_inv (pool_view p) h"
  shows "\<exists>p'. heap_get h r p =
      ((case heap_lookup (pool_view p) h r of
          Some b \<Rightarrow> Ok b
        | None \<Rightarrow> Err (if rid_page r \<in> set (heap_pages h) then H_Page (SP_InvalidRid r) else H_RidOutsideHeap r)), p')
    \<and> quiet p' \<and> pool_view p' = pool_view p \<and> pool_writes p' = pool_writes p \<and> pool_next p' = pool_next p"
proof (cases "rid_page r \<in> set (heap_pages h)")
  case False
  then show ?thesis
    using quiet by (auto simp: heap_get_def ensure_owned_rid_def act_simps heap_lookup_def)
next
  case True
  obtain bs where bs: "pool_view p (rid_page r) = Some bs" "wf_layout bs" "slots_at (pool_view p) (rid_page r) = slots_of bs"
    by (rule heap_inv_page [OF inv True])
  let ?f = "with_slotted_ref (\<lambda>sp. map_err H_Page (sp_get r sp))"
  obtain pg p' where run: "read_page H_Buffer (rid_page r) ?f p = (?f pg, p')" "is_page (rid_page r) bs pg"
      "quiet p'" "pool_view p' = pool_view p" "pool_writes p' = pool_writes p" "pool_next p' = pool_next p"
    using pool.read [OF quiet bs(1), of H_Buffer ?f] by blast
  have valid: "valid_layout (sp_bytes \<lparr>backing = Shared pg\<rparr>)"
    using bs(2) is_page_slotted(3) [OF run(2)] by (simp add: wf_layout_def)
  have "?f pg = (case spec_get (unat (rid_slot r)) (rid_generation r) (slots_of bs) of
      Some b \<Rightarrow> Ok b | None \<Rightarrow> Err (H_Page (SP_InvalidRid r)))"
    using is_page_slotted(3,4) [OF run(2)]
    by (simp add: with_slotted_ref_eq [OF run(2) bs(2)] sp_get_eq [OF valid] page_slots_def split: option.split)
  then show ?thesis
    using run True bs(3) by (auto simp: heap_get_def ensure_owned_rid_def act_simps heap_lookup_def split: option.split)
qed

lemma lookup_delete:
  assumes get: "spec_get (unat (rid_slot r)) (rid_generation r) (slots_at V pid) = Some b"
    and r: "rid_page r = pid" "pid \<in> set (heap_pages h)"
    and slots: "slots_of bs = spec_delete (unat (rid_slot r)) (rid_generation r) (slots_at V pid)"
  shows "heap_lookup (V(pid \<mapsto> bs)) h = (heap_lookup V h)(r := None)"
proof
  fix q
  show "heap_lookup (V(pid \<mapsto> bs)) h q = ((heap_lookup V h)(r := None)) q"
    using r slots spec_delete_lookup [OF get, of "unat (rid_slot q)" "rid_generation q"]
    by (cases q; cases r) (auto simp: heap_lookup_def word_unat_eq_iff [where 'a = 16])
qed

lemma heap_delete_run:
  assumes quiet: "quiet p" and inv: "heap_inv (pool_view p) h" and rw: "pool_writes p"
  shows "\<exists>p'. quiet p' \<and> pool_writes p' \<and> heap_inv (pool_view p') h \<and> heap_frame (pool_view p) h (pool_view p') h \<and>
    pool_next p' = pool_next p \<and>
    (case heap_lookup (pool_view p) h r of
       Some b \<Rightarrow> heap_delete h r p = (Ok (), p') \<and> heap_lookup (pool_view p') h = (heap_lookup (pool_view p) h)(r := None)
         \<and> (\<forall>pid\<in>set (heap_pages h). slots_at (pool_view p') pid = (if pid = rid_page r
              then spec_delete (unat (rid_slot r)) (rid_generation r) (slots_at (pool_view p) pid)
              else slots_at (pool_view p) pid))
     | None \<Rightarrow> heap_delete h r p =
         (Err (if rid_page r \<in> set (heap_pages h) then H_Page (SP_InvalidRid r) else H_RidOutsideHeap r), p')
         \<and> pool_view p' = pool_view p)"
proof (cases "rid_page r \<in> set (heap_pages h)")
  case False
  then show ?thesis
    using assms by (auto simp: heap_delete_def ensure_owned_rid_def act_simps heap_lookup_def)
next
  case True
  let ?V = "pool_view p" and ?m = "map_err_act H_Page (sp_delete r)" and ?pid = "rid_page r"
  obtain bs where bs: "?V ?pid = Some bs" "wf_layout bs" "slots_at ?V ?pid = slots_of bs" "link_at ?V ?pid = link_of bs"
    by (rule heap_inv_page [OF inv True])
  have "legal_act ?m" by (intro legal_intros)
  then obtain pg p' where run: "update_page H_Buffer ?pid (with_slotted_mut ?m) p = (fst (with_slotted_mut ?m pg), p')"
      "is_page ?pid bs pg" "quiet p'" "pool_view p' = ?V(?pid \<mapsto> page_bytes (snd (with_slotted_mut ?m pg)))" "pool_writes p'"
      "pool_next p' = pool_next p"
    using pool.change [OF quiet rw bs(1), of "with_slotted_mut ?m" H_Buffer] with_slotted_mut_legal [OF _ _ bs(2), of ?m ?pid]
    by blast
  let ?sp = "\<lparr>backing = Borrowed pg\<rparr>"
  note S = is_page_slotted [OF run(2)]
  have wf: "wf_page ?sp" "page_slots ?sp = slots_of bs" using S(1,7) bs(2) by (simp_all add: page_slots_def)
  have del: "heap_delete h r p = (fst (with_slotted_mut ?m pg), p')"
    using run(1) True by (simp add: heap_delete_def ensure_owned_rid_def act_simps)
  show ?thesis
  proof (cases "spec_get (unat (rid_slot r)) (rid_generation r) (slots_of bs)")
    case None
    then have "with_slotted_mut ?m pg = (Err (H_Page (SP_InvalidRid r)), pg)"
      using wf S(1,2) by (simp add: with_slotted_mut_eq [OF run(2) bs(2)] act_simps sp_delete_eq [OF wf_page_valid [OF wf(1)]] page_ref_def)
    then show ?thesis
      using del run inv True None bs by (intro exI [of _ p']) (auto simp: heap_lookup_def is_page_def fun_upd_idem)
  next
    case (Some b)
    obtain sp' where sp': "sp_delete r ?sp = (Ok (), sp')"
        "page_slots sp' = spec_delete (unat (rid_slot r)) (rid_generation r) (slots_of bs)" "same_page ?sp sp'"
      using delete_refines_ok [OF wf(1) S(5), of r] S(2) wf(2) Some by auto
    then have w: "with_slotted_mut ?m pg = (Ok (), page_ref sp')"
      by (simp add: with_slotted_mut_eq [OF run(2) bs(2)] act_simps)
    let ?cs = "sp_bytes sp'"
    have cs: "wf_layout ?cs" "link_of ?cs = link_at ?V ?pid" "pool_view p' = ?V(?pid \<mapsto> ?cs)"
      using sp'(3) link_of_same_page [OF sp'(3)] S(1) bs(4) run(4) w by (auto simp: same_page_def wf_page_def page_bytes_ref)
    have "heap_lookup (pool_view p') h = (heap_lookup ?V h)(r := None)"
      unfolding cs(3) using Some bs(3) sp'(2) True by (intro lookup_delete) (simp_all add: page_slots_def)
    moreover have "heap_inv (pool_view p') h"
      unfolding cs(3) using heap_inv_update [OF inv cs(1) _ True] cs(2) by simp
    moreover have "heap_lookup ?V h r = Some b"
      using Some True bs(3) by (simp add: heap_lookup_def)
    ultimately show ?thesis
      using del run w bs(3) cs(3) sp'(2) heap_frame_page [OF True] by (intro exI [of _ p']) (auto simp: page_slots_def page_bytes_ref)
  qed
qed

section \<open>A heap to evaluate on\<close>

lemma pool_next_fresh: "0 < n \<Longrightarrow> pool_next (fresh_pool n) = Some 1"
  by (simp add: pool_next_def)

lemma fresh_pool_quiet: "0 < n \<Longrightarrow> quiet (fresh_pool n)" "pool_writes (fresh_pool n)"
  by (simp_all add: quiet_def pool_writes_def)

lemma heap_create_run:
  assumes quiet: "quiet p" and rw: "pool_writes p" and next_page: "pool_next p = Some n"
  shows "\<exists>p'. heap_create p = (Ok \<lparr>heap_pages = [n]\<rparr>, p') \<and> quiet p' \<and> pool_writes p'
    \<and> heap_inv (pool_view p') \<lparr>heap_pages = [n]\<rparr> \<and> slots_at (pool_view p') n = []
    \<and> pool_view p n = None \<and> (\<forall>pid. pid \<noteq> n \<longrightarrow> pool_view p' pid = pool_view p pid) \<and> pool_next p' = id_after n"
proof -
  let ?z = "replicate PAGE_SIZE (0 :: u8)" and ?m = "ret () :: (slotted_page, unit, heap_error) act"
  have legal: "legal_change pg (snd (with_slotted_new ?m pg))" if "is_page n ?z pg" for pg
    using that by (intro with_slotted_new_legal legal_intros) (simp add: is_page_def)
  obtain pg p' where run: "new_page H_Buffer (with_slotted_new ?m) p =
        (and_then (fst (with_slotted_new ?m pg)) (\<lambda>x. Ok (n, x)), p')" "is_page n ?z pg" "quiet p'" "pool_view p n = None"
      "pool_view p' = (pool_view p)(n \<mapsto> page_bytes (snd (with_slotted_new ?m pg)))" "pool_writes p'"
      "pool_next p' = id_after n"
    using pool.fresh [OF quiet rw next_page legal, of H_Buffer] by blast
  have "page_sized pg" using run(2) by (simp add: is_page_def)
  then have "with_slotted_new ?m pg = (Ok (), pg\<lparr>page_bytes := empty_layout, page_dirty := True\<rparr>)"
    by (simp add: with_slotted_new_eq act_simps page_ref_def)
  then show ?thesis
    using run by (auto simp: heap_create_def act_simps heap_inv_def wf_at_def wf_empty_layout link_empty empty_layout_slots)
qed

lemma fresh_heap:
  assumes "0 < n"
  obtains p where "heap_create (fresh_pool n) = (Ok \<lparr>heap_pages = [1]\<rparr>, p)" "quiet p" "pool_writes p"
    "heap_inv (pool_view p) \<lparr>heap_pages = [1]\<rparr>" "slots_at (pool_view p) 1 = []"
    "heap_lookup (pool_view p) \<lparr>heap_pages = [1]\<rparr> = Map.empty" "pool_next p = Some 2"
  using heap_create_run [OF fresh_pool_quiet(1) [OF assms] fresh_pool_quiet(2) pool_next_fresh [OF assms]]
  by (auto simp: heap_lookup_def spec_get_def fun_eq_iff id_after_def)


lemma insert_refusal_fresh:
  assumes "slots_at (pool_view p) 1 = []" and "pool_next p \<noteq> None" and "length rec \<le> MAX_RECORD_SIZE"
  shows "\<not> insert_refusal rec \<lparr>heap_pages = [1]\<rparr> p e"
  using assms by (auto simp: insert_refusal_def)

section \<open>Scanning\<close>

definition page_records :: "page_id \<Rightarrow> bytes \<Rightarrow> heap_record list" where
  "page_records pid bs =
     map (\<lambda>i. \<lparr>record_rid = rid_new pid (of_nat i) (slot_gen bs i), record_bytes = rec_bytes bs i\<rparr>) (live_slots bs)"

lemma live_slot_get:
  assumes "valid_layout bs" and "i \<in> set (live_slots bs)"
  shows "spec_get i (slot_gen bs i) (slots_of bs) = Some (rec_bytes bs i)" and "i < 65536"
  using assms layoutD(2) [OF assms(1)] by (auto simp: spec_get_slots set_live_slots live_set_def)

lemma records_at_live:
  assumes valid: "valid_layout (sp_bytes sp)" and "set is \<subseteq> set (live_slots (sp_bytes sp))"
  shows "records_at sp (map (\<lambda>i. rid_new (sp_page_id sp) (of_nat i) (slot_gen (sp_bytes sp) i)) is) =
    Ok (map (\<lambda>i. \<lparr>record_rid = rid_new (sp_page_id sp) (of_nat i) (slot_gen (sp_bytes sp) i),
                   record_bytes = rec_bytes (sp_bytes sp) i\<rparr>) is)"
  using assms(2)
proof (induction "is")
  case (Cons i "is")
  then have "sp_get (rid_new (sp_page_id sp) (of_nat i) (slot_gen (sp_bytes sp) i)) sp = Ok (rec_bytes (sp_bytes sp) i)"
    using live_slot_get [OF valid, of i] by (simp add: sp_get_eq [OF valid] rid_new_def page_slots_def)
  then show ?case using Cons by simp
qed simp

lemma scan_page_eq:
  assumes "is_page pid bs pg" and "wf_layout bs"
  shows "scan_page pg = Ok (page_records pid bs)"
proof -
  let ?sp = "\<lparr>backing = Shared pg\<rparr>"
  have valid: "valid_layout (sp_bytes ?sp)"
    using assms(2) is_page_slotted(3) [OF assms(1)] by (simp add: wf_layout_def)
  show ?thesis
    using records_at_live [OF valid, of "live_slots (sp_bytes ?sp)"] live_rids_eq [OF layoutD(2) [OF valid]]
      is_page_slotted(3,4) [OF assms(1)]
    by (simp add: scan_page_def with_slotted_ref_eq [OF assms] page_records_def)
qed

lemma page_records_props:
  assumes "wf_layout bs"
  shows "\<lparr>record_rid = r, record_bytes = b\<rparr> \<in> set (page_records pid bs) \<longleftrightarrow>
      rid_page r = pid \<and> spec_get (unat (rid_slot r)) (rid_generation r) (slots_of bs) = Some b"
    and "distinct (map record_rid (page_records pid bs))" and "\<forall>rec\<in>set (page_records pid bs). rid_page (record_rid rec) = pid"
proof -
  have valid: "valid_layout bs" using assms by (simp add: wf_layout_def)
  have small: "i < 65536" if "i \<in> set (live_slots bs)" for i
    using live_slot_get(2) [OF valid that] .
  show "\<lparr>record_rid = r, record_bytes = b\<rparr> \<in> set (page_records pid bs) \<longleftrightarrow>
      rid_page r = pid \<and> spec_get (unat (rid_slot r)) (rid_generation r) (slots_of bs) = Some b"
  proof
    assume "\<lparr>record_rid = r, record_bytes = b\<rparr> \<in> set (page_records pid bs)"
    then obtain i where "i \<in> set (live_slots bs)" "r = rid_new pid (of_nat i) (slot_gen bs i)" "b = rec_bytes bs i"
      by (auto simp: page_records_def)
    then show "rid_page r = pid \<and> spec_get (unat (rid_slot r)) (rid_generation r) (slots_of bs) = Some b"
      using live_slot_get [OF valid] by (simp add: rid_new_def)
  next
    assume r: "rid_page r = pid \<and> spec_get (unat (rid_slot r)) (rid_generation r) (slots_of bs) = Some b"
    then have "unat (rid_slot r) \<in> set (live_slots bs)" "slot_gen bs (unat (rid_slot r)) = rid_generation r"
        "rec_bytes bs (unat (rid_slot r)) = b"
      by (auto simp: spec_get_slots [OF valid] set_live_slots split: if_splits)
    then show "\<lparr>record_rid = r, record_bytes = b\<rparr> \<in> set (page_records pid bs)"
      using r by (cases r) (force simp: page_records_def rid_new_def image_iff)
  qed
  have "inj_on (\<lambda>i. rid_new pid (of_nat i) (slot_gen bs i)) (set (live_slots bs))"
    using small by (intro inj_onI) (metis rid.ext_inject rid_new_def unat_of_nat_u16)
  then show "distinct (map record_rid (page_records pid bs))"
    by (simp add: page_records_def comp_def distinct_map live_slots_def)
  show "\<forall>rec\<in>set (page_records pid bs). rid_page (record_rid rec) = pid"
    by (auto simp: page_records_def rid_new_def)
qed

lemma heap_scan_eq:
  assumes "quiet p" and "heap_inv (pool_view p) h"
  shows "\<exists>p'. heap_scan h p = (Ok (concat (map (\<lambda>pid. page_records pid (the (pool_view p pid))) (heap_pages h))), p')
    \<and> quiet p' \<and> pool_view p' = pool_view p \<and> pool_writes p' = pool_writes p"
proof -
  let ?V = "pool_view p" and ?out = "\<lambda>pid. page_records pid (the (pool_view p pid))"
  have step: "\<exists>p'. read_page H_Buffer pid scan_page q = (Ok (?out pid), p') \<and> quiet p' \<and> pool_view p' = pool_view q
      \<and> pool_writes p' = pool_writes q \<and> pool_next p' = pool_next q"
    if "pid \<in> set (heap_pages h)" "quiet q" "pool_view q = ?V" for pid q
  proof -
    note pid = that(1)
    obtain bs where bs: "?V pid = Some bs" "wf_layout bs"
      using heap_inv_page [OF assms(2) pid] by blast
    then show ?thesis
      using pool.read [OF that(2), of pid bs H_Buffer scan_page] that(3) scan_page_eq by auto
  qed
  show ?thesis
    using pool.loop [where m = "\<lambda>pid. read_page H_Buffer pid scan_page" and out = ?out, OF assms(1) step]
    unfolding heap_scan_def by blast
qed

lemma heap_scan_run:
  assumes "quiet p" and "heap_inv (pool_view p) h"
  shows "\<exists>recs p'. heap_scan h p = (Ok recs, p') \<and> quiet p' \<and> pool_view p' = pool_view p \<and> pool_writes p' = pool_writes p
    \<and> distinct (map record_rid recs)
    \<and> (\<forall>r b. \<lparr>record_rid = r, record_bytes = b\<rparr> \<in> set recs \<longleftrightarrow> heap_lookup (pool_view p) h r = Some b)"
proof -
  let ?V = "pool_view p" and ?out = "\<lambda>pid. page_records pid (the (pool_view p pid))"
  obtain p' where p': "heap_scan h p = (Ok (concat (map ?out (heap_pages h))), p')" "quiet p'" "pool_view p' = ?V"
      "pool_writes p' = pool_writes p"
    using heap_scan_eq [OF assms] by blast
  have wf: "wf_layout (the (?V pid))" if "pid \<in> set (heap_pages h)" for pid
    using that assms(2) by (auto simp: heap_inv_def wf_at_def)
  have ps: "distinct (heap_pages h)" using assms(2) by (simp add: heap_inv_def)
  have "distinct (map record_rid (concat (map ?out pids)))" if "distinct pids" "set pids \<subseteq> set (heap_pages h)" for pids
    using that
  proof (induction pids)
    case (Cons pid pids)
    have "rid_page (record_rid rec) \<noteq> pid" if "q \<in> set pids" "rec \<in> set (?out q)" for q rec
      using page_records_props(3) [OF wf, of q] that Cons.prems by auto
    moreover have "rid_page (record_rid rec) = pid" if "rec \<in> set (?out pid)" for rec
      using page_records_props(3) [OF wf, of pid] that Cons.prems by auto
    ultimately have "record_rid ` set (?out pid) \<inter> record_rid ` (\<Union>q\<in>set pids. set (?out q)) = {}"
      by fastforce
    then show ?case
      using Cons page_records_props(2) [OF wf, of pid] by (simp add: image_UN)
  qed simp
  moreover have "\<lparr>record_rid = r, record_bytes = b\<rparr> \<in> set (concat (map ?out (heap_pages h))) \<longleftrightarrow> heap_lookup ?V h r = Some b" for r b
    using page_records_props(1) [OF wf] by (auto simp: heap_lookup_def slots_at_def)
  ultimately show ?thesis
    using p' ps by blast
qed

section \<open>Opening\<close>

lemma next_link_run:
  assumes "quiet p" and "wf_at (pool_view p) pid"
  shows "\<exists>p'. read_page H_Buffer pid next_link p = (Ok (link_at (pool_view p) pid), p') \<and> quiet p'
    \<and> pool_view p' = pool_view p \<and> pool_writes p' = pool_writes p"
proof -
  obtain bs where bs: "pool_view p pid = Some bs" "wf_layout bs" using assms(2) by (auto simp: wf_at_def)
  have "next_link pg = Ok (link_of bs)" if "is_page pid bs pg" for pg
    using is_page_slotted(3) [OF that] by (simp add: next_link_def with_slotted_ref_eq [OF that bs(2)] next_page_id_link)
  then show ?thesis
    using pool.read [OF assms(1) bs(1), of H_Buffer next_link] bs(1) by (auto simp: link_at_def)
qed

lemma open_chain_run:
  assumes "quiet p" and "pool_view p = V" and "chain V pids e" and "\<forall>pid\<in>set pids. wf_at V pid"
    and "distinct (pages @ pids)"
  shows "\<exists>p'. quiet p' \<and> pool_view p' = V \<and> pool_writes p' = pool_writes p \<and>
    open_chain pages (set pages) (hd pids) p =
      (case e of None \<Rightarrow> (Ok (pages @ pids), p')
       | Some q \<Rightarrow> open_chain (pages @ pids) (set (pages @ pids)) q p')"
  using assms
proof (induction pids arbitrary: pages p)
  case Nil
  then show ?case by simp
next
  case (Cons pid pids)
  obtain p1 where p1: "read_page H_Buffer pid next_link p = (Ok (link_at V pid), p1)" "quiet p1" "pool_view p1 = V"
      "pool_writes p1 = pool_writes p"
    using next_link_run [OF Cons.prems(1), of pid] Cons.prems(2,4) by auto
  have new: "pid \<notin> set pages" using Cons.prems(5) by simp
  have step: "open_chain pages (set pages) pid p =
      (case link_at V pid of None \<Rightarrow> (Ok (pages @ [pid]), p1)
       | Some q \<Rightarrow> open_chain (pages @ [pid]) (set (pages @ [pid])) q p1)"
    using p1(1) new by (subst open_chain.simps) (simp split: option.split)
  show ?case
  proof (cases pids)
    case Nil
    then show ?thesis
      using step p1 Cons.prems(3) by (intro exI [of _ p1]) (auto split: option.split)
  next
    case (Cons q pids')
    then have c: "link_at V pid = Some q" "chain V pids e"
      using Cons.prems(3) by auto
    obtain p' where "quiet p'" "pool_view p' = V" "pool_writes p' = pool_writes p1"
        "open_chain (pages @ [pid]) (set (pages @ [pid])) (hd pids) p1 =
          (case e of None \<Rightarrow> (Ok ((pages @ [pid]) @ pids), p')
           | Some q \<Rightarrow> open_chain ((pages @ [pid]) @ pids) (set ((pages @ [pid]) @ pids)) q p')"
      using Cons.IH [OF p1(2,3) c(2), of "pages @ [pid]"] Cons.prems(4,5) by (auto simp del: append_assoc)
    then show ?thesis
      using step c(1) \<open>pids = q # pids'\<close> p1(4) by (intro exI [of _ p']) (simp split: option.split)
  qed
qed

text \<open>A well-formed heap is opened as it is.\<close>

lemma heap_open_run:
  assumes "quiet p" and "heap_inv (pool_view p) h"
  shows "\<exists>p'. heap_open (hd (heap_pages h)) p = (Ok h, p') \<and> quiet p' \<and> pool_view p' = pool_view p
    \<and> pool_writes p' = pool_writes p"
proof -
  have c: "chain (pool_view p) (heap_pages h) None" "\<forall>pid\<in>set (heap_pages h). wf_at (pool_view p) pid" "distinct ([] @ heap_pages h)"
    using assms(2) by (simp_all add: heap_inv_def linked_chain)
  show ?thesis
    using open_chain_run [OF assms(1) refl c] by (auto simp: heap_open_def act_simps)
qed

lemma first_page_id_run: "heap_inv V h \<Longrightarrow> first_page_id h = Ok (hd (heap_pages h))"
  by (auto simp: heap_inv_def first_page_id_def split: list.split)

lemma heap_create_exhausted:
  assumes "quiet p" and "pool_writes p" and "pool_next p = None"
  shows "\<exists>p'. heap_create p = (Err (H_Buffer (BP_Disk D_PageIdExhausted)), p') \<and> quiet p' \<and> pool_view p' = pool_view p \<and> pool_writes p'"
  using new_page_exhausted [OF assms, of "with_slotted_new (ret ())"] by (auto simp: heap_create_def act_simps)

end
