(* ===== verification/Catalog_Root.thy ===== *)
theory Catalog_Root
  imports Catalog_Codec Heap_Runs
begin

text \<open>
  The catalog root in the database header: only \<^verbatim>\<open>set_catalog_root_page_id\<close> changes it, so every
  operation on heaps keeps it; and the writes \<^verbatim>\<open>Catalog::create\<close> makes to record it.
\<close>

definition disk_root :: "disk_manager \<Rightarrow> page_id option" where
  "disk_root d = header_catalog_root (disk_header d)"

definition pool_root :: "buffer_pool \<Rightarrow> page_id option" where
  "pool_root p = disk_root (pool_disk p)"

lemma pool_header_root: "header_catalog_root (pool_header p) = pool_root p"
  by (simp add: pool_header_def pool_root_def disk_root_def)

section \<open>The disk\<close>

lemma keeps_on_file [keeps_intros]: "keeps disk_root (\<lambda>d. on_file (m d) d)"
  by (rule keepsI) (simp add: on_file_def disk_root_def split: prod.split)

lemma keeps_write_page_bytes [keeps_intros]: "keeps disk_root (write_page_bytes pid bs)"
proof -
  have "keeps disk_root (seek_to_page pid)"
    by (rule keepsI) (simp add: seek_to_page_def on_file_def disk_root_def split: prod.split)
  then show ?thesis
    unfolding write_page_bytes_def by (intro keeps_intros)
qed

lemma keeps_disk [keeps_intros]:
  "keeps disk_root (disk_read_page pid)" "keeps disk_root (disk_write_page pg)" "keeps disk_root disk_allocate_page"
proof -
  have seek: "keeps disk_root (seek_to_page q)" for q
    by (rule keepsI) (simp add: seek_to_page_def on_file_def disk_root_def split: prod.split)
  then show "keeps disk_root (disk_read_page pid)"
    unfolding disk_read_page_def by (intro keeps_intros)
  show "keeps disk_root (disk_write_page pg)"
    unfolding disk_write_page_def by (intro keeps_intros)
  have "keeps disk_root (\<lambda>d. persist_header
      (d\<lparr>disk_header := (disk_header d)\<lparr>header_next_page_id := header_next_page_id (disk_header d) + 1\<rparr>\<rparr>))"
    by (rule keepsI) (simp add: persist_header_def on_file_def disk_root_def split: prod.split)
  then show "keeps disk_root disk_allocate_page"
    unfolding disk_allocate_page_def Let_def by (intro keeps_intros) (auto intro!: keeps_intros)
qed

section \<open>The pool\<close>

lemma root_fields [simp]:
  "pool_root (put_frame pid fr p) = pool_root p" "pool_root (remove_frame pid p) = pool_root p"
  "pool_root (count_hit p) = pool_root p" "pool_root (count_miss p) = pool_root p"
  "pool_root (count_eviction p) = pool_root p" "pool_root (count_disk_write p) = pool_root p"
  by (simp_all add: pool_root_def)

lemma keeps_on_disk [keeps_intros]: "keeps disk_root m \<Longrightarrow> keeps pool_root (on_disk m)"
  by (rule keepsI) (auto simp: on_disk_def pool_root_def split: prod.split dest: keepsD)

lemma keeps_pool_steps [keeps_intros]:
  "keeps pool_root (get_frame g)" "keeps pool_root borrow_inner_mut" "keeps pool_root next_tick"
  by (rule keepsI; simp add: get_frame_def borrow_inner_mut_def next_tick_def pool_root_def Let_def split: option.split)+

lemma keeps_frames [keeps_intros]:
  "keeps pool_root (flush_frame pid)" "keeps pool_root ensure_space" "keeps pool_root (load_frame pid t)"
proof -
  show f: "keeps pool_root (flush_frame q)" for q
    unfolding flush_frame_def by (intro keeps_intros) (auto intro!: keeps_intros)
  show e: "keeps pool_root ensure_space"
    unfolding ensure_space_def by (intro keeps_intros) (auto intro!: keeps_intros f)
  show "keeps pool_root (load_frame pid t)"
    unfolding load_frame_def Let_def by (intro keeps_intros) (auto intro!: keeps_intros e split: option.split)
qed

lemma keeps_pins [keeps_intros]: "keeps pool_root (pin pid)" "keeps pool_root pool_allocate_page"
proof -
  show "keeps pool_root (pin pid)"
    unfolding pin_def by (intro keeps_intros) (auto intro!: keeps_intros)
  show "keeps pool_root pool_allocate_page"
    unfolding pool_allocate_page_def Let_def by (intro keeps_intros) (auto intro!: keeps_intros)
qed

lemma root_guards [simp]:
  "pool_root (drop_guard g p) = pool_root p" "pool_root (end_read g p) = pool_root p" "pool_root (end_write g p) = pool_root p"
  by (simp_all add: drop_guard_def end_read_def end_write_def split: option.split)

lemma keeps_guarded [keeps_intros]: "keeps pool_root m \<Longrightarrow> keeps pool_root (guarded g m)"
  by (rule keepsI) (auto simp: act_simps split: prod.split dest: keepsD)

lemma keeps_scopes [keeps_intros]:
  "keeps pool_root (read_page err pid f)" "keeps pool_root (update_page err pid g)" "keeps pool_root (new_page err h)"
proof -
  have set: "keeps pool_root (set_borrow q b)" for q b
    unfolding set_borrow_def by (intro keeps_intros) simp
  have r: "keeps pool_root (reading err q f)" for q
    unfolding reading_def guard_read_def by (intro keeps_intros) (auto intro!: keeps_intros set split: borrow.split)
  have on: "keeps pool_root (on_page q k)" for q k
    by (rule keepsI) (simp add: on_page_def split: option.split prod.split)
  have w: "keeps pool_root (writing err q k)" for q k
    unfolding writing_def guard_write_def by (intro keeps_intros) (auto intro!: keeps_intros set on)
  show "keeps pool_root (read_page err pid f)"
    unfolding read_page_def pinning_def by (intro keeps_intros r)
  show "keeps pool_root (update_page err pid g)"
    unfolding update_page_def pinning_def by (intro keeps_intros w)
  show "keeps pool_root (new_page err h)"
    unfolding new_page_def allocating_def by (intro keeps_intros w)
qed

section \<open>Heap files\<close>

lemma keeps_open_chain: "pool_root (snd (open_chain pages visited pid p)) = pool_root p"
proof (induction pages visited pid p rule: open_chain.induct)
  case (1 pages visited current p)
  obtain r p1 where r: "read_page H_Buffer current next_link p = (r, p1)" by (metis prod.exhaust)
  have "pool_root p1 = pool_root p"
    using keepsD [OF keeps_scopes(1) r] .
  then show ?case
    using 1 r by (subst open_chain.simps) (auto split: result.split option.split)
qed

lemma keeps_heap [keeps_intros]:
  "keeps pool_root heap_create" "keeps pool_root (heap_open pid)" "keeps pool_root (heap_get h r)"
  "keeps pool_root (heap_delete h r)" "keeps pool_root (heap_scan h)"
proof -
  have "keeps pool_root (open_chain [] {} pid)"
    by (rule keepsI) (rule keeps_open_chain)
  then show "keeps pool_root (heap_open pid)"
    unfolding heap_open_def by (intro keeps_intros)
qed (auto simp: heap_create_def heap_get_def heap_delete_def heap_scan_def intro!: keeps_intros split: prod.split)

lemma keeps_on_pool [keeps_intros]: "keeps pool_root m \<Longrightarrow> keeps (\<lambda>(h, p). pool_root p) (on_pool m)"
  by (rule keepsI) (auto simp: on_pool_def split: prod.split dest: keepsD)

lemma keeps_heap_insert: "keeps (\<lambda>(h, p). pool_root p) (heap_insert rec)"
proof -
  have "keeps pool_root (insert_into rec pids)" for pids
    by (induction pids)
      (auto simp: insert_attempt_def intro!: keeps_intros split: result.split slotted_page_error.split)
  then show ?thesis
    unfolding heap_insert_def append_page_with_record_def
    by (auto intro!: keeps_intros split: option.split prod.split)
qed

lemma heap_insert_root: "heap_insert rec (h, p) = (r, (h', p')) \<Longrightarrow> pool_root p' = pool_root p"
  using keepsD [OF keeps_heap_insert] by fastforce

section \<open>Recording the root\<close>

lemma flush_page_run:
  assumes "quiet p" and "find_frame pid p \<noteq> None"
  shows "\<exists>p'. flush_page pid p = (Ok (), p') \<and> quiet p' \<and> pool_view p' = pool_view p \<and> pool_writes p' = pool_writes p
    \<and> pool_next p' = pool_next p \<and> pool_root p' = pool_root p \<and> disk_pages (pool_disk p') pid = pool_view p pid"
proof -
  have q: "pool_sound p" "borrows p pid = Unborrowed"
    using quietD [OF assms(1)] by auto
  obtain fr where fr: "find_frame pid p = Some fr" "frame_borrow fr = Unborrowed"
    using assms(2) q(2) by (auto simp: borrows_def)
  obtain p' where "flush_frame pid p = (Ok (), p')" "pool_sound p'" "same_client_state p p'"
      "disk_pages (pool_disk p') pid = Some (page_bytes (frame_page fr))"
    using flush_frame_sound [OF q(1) fr] by blast
  moreover from this have "flush_page pid p = (Ok (), p')"
    using fr(1) by (simp add: flush_page_def borrow_inner_run [OF pool_sound_inv [OF q(1)]] act_simps)
  ultimately show ?thesis
    using assms(1) soundD(4) [OF q(1) fr(1)] by (auto simp: same_client_state_def quiet_def pool_writes_def pool_next_def pool_root_def disk_root_def)
qed

lemma set_root_run:
  assumes "quiet p" and "pool_writes p" and "pool_view p pid \<noteq> None" and "pool_root p = None"
  shows "\<exists>p'. pool_set_catalog_root pid p = (Ok (), p') \<and> quiet p' \<and> pool_view p' = pool_view p \<and> pool_writes p'
    \<and> pool_next p' = pool_next p \<and> pool_root p' = Some pid \<and> disk_pages (pool_disk p') = disk_pages (pool_disk p)"
proof -
  have q: "pool_sound p" using quietD [OF assms(1)] by simp
  have d: "healthy (pool_disk p)" "disk_ok (pool_disk p)" "\<not> disk_read_only (pool_disk p)" "allocated pid (pool_disk p)"
      "header_catalog_root (disk_header (pool_disk p)) = None"
    using q assms(2-4) pool_view_allocated [OF q] by (auto simp: pool_sound_def pool_writes_def pool_root_def disk_root_def)
  obtain d' where d': "set_catalog_root pid (pool_disk p) = (Ok (), d')"
      "disk_header d' = (disk_header (pool_disk p))\<lparr>header_catalog_root := Some pid\<rparr>"
      "disk_read_only d' = disk_read_only (pool_disk p)" "disk_ok d'" "healthy d'" "disk_pages d' = disk_pages (pool_disk p)"
    using set_catalog_root_healthy [OF d] by blast
  let ?p = "p\<lparr>pool_disk := d'\<rparr>"
  have "pool_set_catalog_root pid p = (Ok (), ?p)"
    using d'(1) by (simp add: pool_set_catalog_root_def borrow_inner_ok [OF pool_sound_inv [OF q]] on_disk_def)
  moreover have "pool_sound ?p"
    using q d' by (simp add: pool_sound_def pool_inv_def allocated_def frame_sound_def)
  moreover have "pool_view ?p = pool_view p"
    using d'(6) by (simp add: pool_view_def)
  moreover have "pins ?p = pins p"
    by (simp add: pins_def fun_eq_iff)
  ultimately show ?thesis
    using assms(1,2) d' by (simp add: quiet_def pool_writes_def pool_next_def pool_root_def disk_root_def)
qed

end
