(* ===== verification/Catalog_Facts.thy ===== *)
theory Catalog_Facts
  imports Catalog_Root
begin

text \<open>
  The invariant of a database, its catalog and the heaps of its tables, and what the operations
  of the catalog do to it.
\<close>

section \<open>Heaps beside each other\<close>

definition apart :: "heap_file \<Rightarrow> heap_file \<Rightarrow> bool" where
  "apart h k \<longleftrightarrow> set (heap_pages h) \<inter> set (heap_pages k) = {}"

lemma apart_sym: "apart h k \<Longrightarrow> apart k h"
  by (auto simp: apart_def)

lemma heap_agree:
  assumes "heap_inv V h" and "\<And>pid. pid \<in> set (heap_pages h) \<Longrightarrow> W pid = V pid"
  shows "heap_inv W h" and "heap_lookup W h = heap_lookup V h"
proof -
  have "linked W (heap_pages h) = linked V (heap_pages h)"
    using assms(2) by (intro linked_cong) (simp add: link_at_def)
  then show "heap_inv W h"
    using assms by (simp add: heap_inv_def wf_at_def)
  show "heap_lookup W h = heap_lookup V h"
    using assms(2) by (auto simp: heap_lookup_def slots_at_def fun_eq_iff)
qed

lemma heap_pages_used: "heap_inv V h \<Longrightarrow> pid \<in> set (heap_pages h) \<Longrightarrow> V pid \<noteq> None"
  by (auto simp: heap_inv_def wf_at_def)

text \<open>An operation on one heap, seen from another.\<close>

lemma heap_frame_other:
  assumes frame: "heap_frame V h W h'" and inv: "heap_inv V k" and apart: "apart k h"
  shows "heap_inv W k" and "heap_lookup W k = heap_lookup V k" and "apart k h'"
proof -
  have out: "pid \<notin> set (heap_pages h')" if "pid \<in> set (heap_pages k)" for pid
  proof
    assume "pid \<in> set (heap_pages h')"
    moreover have "pid \<notin> set (heap_pages h)"
      using that apart by (auto simp: apart_def)
    ultimately have "V pid = None"
      using frame unfolding heap_frame_def by blast
    then show False using heap_pages_used [OF inv that] by simp
  qed
  then show "apart k h'" by (auto simp: apart_def)
  have "W pid = V pid" if "pid \<in> set (heap_pages k)" for pid
    using out [OF that] frame by (simp add: heap_frame_def)
  then show "heap_inv W k" "heap_lookup W k = heap_lookup V k"
    using heap_agree [OF inv] by blast+
qed

section \<open>The invariant\<close>

abbreviation table_name :: "table_metadata \<Rightarrow> str" where
  "table_name md \<equiv> schema_name (metadata_schema md)"

text \<open>The records of the catalog heap are the encodings of its tables, each exactly once.\<close>

definition records_match :: "(rid \<rightharpoonup> bytes) \<Rightarrow> (str \<rightharpoonup> table_metadata) \<Rightarrow> bool" where
  "records_match recs tables \<longleftrightarrow>
     (\<forall>r b. recs r = Some b \<longrightarrow> (\<exists>md. b = encode_table_record md \<and> tables (table_name md) = Some md))
     \<and> (\<forall>n md. tables n = Some md \<longrightarrow> table_name md = n \<and> metadata_wf md \<and> (\<exists>r. recs r = Some (encode_table_record md)))
     \<and> (\<forall>r q. recs r = recs q \<and> recs r \<noteq> None \<longrightarrow> r = q)"

text \<open>Table identifiers are distinct, and the next one is one more than the largest.\<close>

definition ids_match :: "(str \<rightharpoonup> table_metadata) \<Rightarrow> u32 \<Rightarrow> bool" where
  "ids_match tables n \<longleftrightarrow>
     (\<forall>a b x y. tables a = Some x \<and> tables b = Some y \<and> metadata_id x = metadata_id y \<longrightarrow> a = b)
     \<and> (\<forall>a x. tables a = Some x \<longrightarrow> table_id_get (metadata_id x) < n)
     \<and> (n = FIRST_TABLE_ID \<or> (\<exists>a x. tables a = Some x \<and> n = table_id_get (metadata_id x) + 1)) \<and> n \<noteq> 0"

text \<open>Every table has a well-formed heap, \<open>H\<close> of its name, apart from the catalog's and from the
  others'.\<close>

definition heaps_match :: "page_view \<Rightarrow> heap_file \<Rightarrow> (str \<rightharpoonup> table_metadata) \<Rightarrow> (str \<Rightarrow> heap_file) \<Rightarrow> bool" where
  "heaps_match V h tables H \<longleftrightarrow>
     (\<forall>n md. tables n = Some md \<longrightarrow> heap_inv V (H n) \<and> hd (heap_pages (H n)) = heap_first_page_id md \<and> apart (H n) h)
     \<and> (\<forall>n m. tables n \<noteq> None \<and> tables m \<noteq> None \<and> n \<noteq> m \<longrightarrow> apart (H n) (H m))"

definition catalog_ok :: "buffer_pool \<Rightarrow> catalog \<Rightarrow> (str \<Rightarrow> heap_file) \<Rightarrow> bool" where
  "catalog_ok p c H \<longleftrightarrow> quiet p \<and> heap_inv (pool_view p) (catalog_heap c)
     \<and> pool_root p = Some (hd (heap_pages (catalog_heap c)))
     \<and> records_match (heap_lookup (pool_view p) (catalog_heap c)) (RBT.lookup (catalog_tables c))
     \<and> ids_match (RBT.lookup (catalog_tables c)) (next_table_id c)
     \<and> heaps_match (pool_view p) (catalog_heap c) (RBT.lookup (catalog_tables c)) H"

lemma catalog_okD:
  assumes "catalog_ok p c H"
  shows "quiet p" "heap_inv (pool_view p) (catalog_heap c)" "pool_root p = Some (hd (heap_pages (catalog_heap c)))"
    "records_match (heap_lookup (pool_view p) (catalog_heap c)) (RBT.lookup (catalog_tables c))"
    "ids_match (RBT.lookup (catalog_tables c)) (next_table_id c)"
    "heaps_match (pool_view p) (catalog_heap c) (RBT.lookup (catalog_tables c)) H"
  using assms by (simp_all add: catalog_ok_def)

lemma catalog_ok_table:
  assumes "catalog_ok p c H" and "RBT.lookup (catalog_tables c) n = Some md"
  shows "heap_inv (pool_view p) (H n)" "hd (heap_pages (H n)) = heap_first_page_id md" "apart (H n) (catalog_heap c)"
    "table_name md = n" "metadata_wf md"
  using catalog_okD(4,6) [OF assms(1)] assms(2) by (auto simp: heaps_match_def records_match_def)

lemma catalog_ok_view:
  assumes "catalog_ok p c H" and "quiet p'" and "pool_view p' = pool_view p" and "pool_root p' = pool_root p"
  shows "catalog_ok p' c H"
  using assms by (simp add: catalog_ok_def)

section \<open>An operation on the heap of a table\<close>

lemma table_change:
  assumes ok: "catalog_ok p c H" and table: "RBT.lookup (catalog_tables c) n = Some md"
    and post: "quiet p'" "heap_inv (pool_view p') h'" "heap_frame (pool_view p) (H n) (pool_view p') h'" "pool_root p' = pool_root p"
  shows "catalog_ok p' c (H(n := h'))"
    and "\<And>m. m \<noteq> n \<Longrightarrow> RBT.lookup (catalog_tables c) m \<noteq> None \<Longrightarrow>
      heap_lookup (pool_view p') (H m) = heap_lookup (pool_view p) (H m)"
proof -
  note T = catalog_ok_table [OF ok table]
  note C = heap_frame_other [OF post(3) catalog_okD(2) [OF ok] apart_sym [OF T(3)]]
  have other: "heap_inv (pool_view p') (H m) \<and> heap_lookup (pool_view p') (H m) = heap_lookup (pool_view p) (H m) \<and> apart (H m) h'"
    if "m \<noteq> n" "RBT.lookup (catalog_tables c) m \<noteq> None" for m
    using heap_frame_other [OF post(3), of "H m"] that table catalog_okD(6) [OF ok] by (auto simp: heaps_match_def)
  then show "heap_lookup (pool_view p') (H m) = heap_lookup (pool_view p) (H m)"
    if "m \<noteq> n" "RBT.lookup (catalog_tables c) m \<noteq> None" for m
    using that by blast
  have "hd (heap_pages h') = heap_first_page_id md"
    using post(3) T(2) by (simp add: heap_frame_def)
  then have "heaps_match (pool_view p') (catalog_heap c) (RBT.lookup (catalog_tables c)) (H(n := h'))"
    using catalog_okD(6) [OF ok] table other apart_sym C(3) post(2) by (auto simp: heaps_match_def)
  then show "catalog_ok p' c (H(n := h'))"
    using catalog_okD [OF ok] post(1,4) C(1,2) by (simp add: catalog_ok_def)
qed

section \<open>Adding a table\<close>

lemma records_match_insert:
  assumes m: "records_match recs tables" and new: "recs r = None" "tables (table_name md) = None" and wf: "metadata_wf md"
  shows "records_match (recs(r \<mapsto> encode_table_record md)) (tables(table_name md \<mapsto> md))"
proof -
  have old: "encode_table_record x \<noteq> encode_table_record md" if "tables n = Some x" for n x
    using m that new(2) wf by (auto simp: records_match_def encode_table_record_inj)
  have enc: "\<exists>x. b = encode_table_record x \<and> tables (table_name x) = Some x" if "recs q = Some b" for q b
    using m that by (auto simp: records_match_def)
  have "q = q'" if "recs q = recs q'" "recs q \<noteq> None" for q q'
    using m that by (auto simp: records_match_def)
  moreover have "recs q \<noteq> Some (encode_table_record md)" for q
    using enc old by metis
  ultimately show ?thesis
    using m new wf enc by (auto simp: records_match_def split: if_splits) (metis option.distinct(1))+
qed

lemma ids_match_insert:
  assumes m: "ids_match tables n" and id: "metadata_id md = TableId n" and new: "tables k = None" and n: "n \<noteq> - 1"
  shows "ids_match (tables(k \<mapsto> md)) (n + 1)"
proof -
  have lt: "a < n \<Longrightarrow> a < n + 1" "n < n + 1" for a
    using n unat_u32_less [of n] unat_u32_max [of n] by (simp_all add: word_less_nat_alt unat_plus_one)
  have "n + 1 \<noteq> 0"
    using n by (metis add_eq_0_iff2 add.inverse_inverse)
  moreover have below: "table_id_get (metadata_id x) < n" if "tables a = Some x" for a x
    using m that unfolding ids_match_def by blast
  moreover have "metadata_id x \<noteq> metadata_id md" if "tables a = Some x" for a x
    using below [OF that] id by auto
  moreover have "\<And>a b x y. tables a = Some x \<Longrightarrow> tables b = Some y \<Longrightarrow> metadata_id x = metadata_id y \<Longrightarrow> a = b"
    using m unfolding ids_match_def by blast
  ultimately show ?thesis
    using id lt unfolding ids_match_def by (auto split: if_splits) metis+
qed

lemma heaps_match_insert:
  assumes m: "heaps_match V h tables H" and k: "heap_inv V k" "hd (heap_pages k) = heap_first_page_id md" "apart k h"
    and new: "tables n = None" and others: "\<And>a. tables a \<noteq> None \<Longrightarrow> apart (H a) k"
  shows "heaps_match V h (tables(n \<mapsto> md)) (H(n := k))"
  using assms apart_sym by (auto simp: heaps_match_def)

text \<open>An operation on another heap keeps the heaps of the tables and moves them nowhere.\<close>

lemma heaps_match_frame:
  assumes m: "heaps_match V h tables H" and frame: "heap_frame V h W h'"
  shows "heaps_match W h' tables H" and "tables a \<noteq> None \<Longrightarrow> heap_lookup W (H a) = heap_lookup V (H a)"
  using assms heap_frame_other [OF frame] by (auto simp: heaps_match_def)

lemma heaps_match_fresh:
  assumes m: "heaps_match V h tables H" and "V n = None" and "\<And>pid. pid \<noteq> n \<Longrightarrow> W pid = V pid" and "heap_inv V h"
  shows "heaps_match W h tables H" and "tables a \<noteq> None \<Longrightarrow> heap_lookup W (H a) = heap_lookup V (H a)"
    and "tables a \<noteq> None \<Longrightarrow> apart (H a) \<lparr>heap_pages = [n]\<rparr>"
proof -
  have inv: "heap_inv V (H a)" if "tables a \<noteq> None" for a
    using m that by (auto simp: heaps_match_def)
  have W: "W pid = V pid" if "tables a \<noteq> None" "pid \<in> set (heap_pages (H a))" for a pid
    using assms(2,3) heap_pages_used [OF inv [OF that(1)] that(2)] by metis
  show "heaps_match W h tables H"
    using m heap_agree(1) [OF inv W] by (fastforce simp: heaps_match_def)
  show "heap_lookup W (H a) = heap_lookup V (H a)" "apart (H a) \<lparr>heap_pages = [n]\<rparr>" if "tables a \<noteq> None"
    using heap_agree(2) [OF inv W] heap_pages_used [OF inv, of a n] that assms(2) by (auto simp: apart_def)
qed

text \<open>Why a table is not created.\<close>

definition create_refusal :: "table_schema \<Rightarrow> catalog \<Rightarrow> buffer_pool \<Rightarrow> catalog_error \<Rightarrow> bool" where
  "create_refusal s c p e \<longleftrightarrow>
     (RBT.lookup (catalog_tables c) (schema_name s) \<noteq> None \<and> e = CE_DuplicateTableName (schema_name s))
     \<or> (next_table_id c = - 1 \<and> e = CE_TableIdExhausted)
     \<or> (MAX_ROW_SIZE < TABLE_RECORD_HEADER_SIZE + length (schema_encode s)
          \<and> e = CE_TableRecordTooLarge (TABLE_RECORD_HEADER_SIZE + length (schema_encode s)) MAX_ROW_SIZE)
     \<or> ((case pool_next p of None \<Rightarrow> True | Some n \<Rightarrow> id_after n = None) \<and> e = CE_Heap (H_Buffer (BP_Disk D_PageIdExhausted)))
     \<or> (\<exists>pid\<in>set (heap_pages (catalog_heap c)). spec_first_reusable (slots_at (pool_view p) pid) = None
          \<and> spec_free (slots_at (pool_view p) pid) < SLOT_ENTRY_SIZE
          \<and> e = CE_Heap (H_Page (SP_Corrupt ''page metadata and live records exceed page size'')))"

text \<open>The insertion of the new table's record, from the state after its heap was created.\<close>

lemma create_table_stored:
  assumes ok: "catalog_ok p c H" and tables: "RBT.lookup (catalog_tables c) (table_name md) = None"
    and id: "metadata_id md = TableId (next_table_id c)" "next_table_id c \<noteq> - 1" and wf: "metadata_wf md"
    and fresh: "pool_view p n = None" "\<And>pid. pid \<noteq> n \<Longrightarrow> pool_view p1 pid = pool_view p pid" "heap_first_page_id md = n"
    and k: "heap_inv (pool_view p1) \<lparr>heap_pages = [n]\<rparr>" "quiet p1" "pool_root p1 = pool_root p"
    and post: "quiet p2" "heap_inv (pool_view p2) h'" "heap_frame (pool_view p1) (catalog_heap c) (pool_view p2) h'"
      "pool_root p2 = pool_root p1" "heap_lookup (pool_view p1) (catalog_heap c) r = None"
      "heap_lookup (pool_view p2) h' = (heap_lookup (pool_view p1) (catalog_heap c))(r \<mapsto> encode_table_record md)"
    and c': "catalog_heap c' = h'" "next_table_id c' = next_table_id c + 1"
      "RBT.lookup (catalog_tables c') = (RBT.lookup (catalog_tables c))(table_name md \<mapsto> md)"
  shows "catalog_ok p2 c' (H(table_name md := \<lparr>heap_pages = [n]\<rparr>))"
    and "\<And>a. RBT.lookup (catalog_tables c) a \<noteq> None \<Longrightarrow> heap_lookup (pool_view p2) (H a) = heap_lookup (pool_view p) (H a)"
    and "slots_at (pool_view p2) n = slots_at (pool_view p1) n"
proof -
  let ?k = "\<lparr>heap_pages = [n]\<rparr>"
  note D = catalog_okD [OF ok]
  have F1: "heaps_match (pool_view p1) (catalog_heap c) (RBT.lookup (catalog_tables c)) H"
    by (rule heaps_match_fresh(1) [OF D(6) fresh(1) _ D(2)]) (rule fresh(2))
  have F: "heap_lookup (pool_view p1) (H a) = heap_lookup (pool_view p) (H a)" "apart (H a) ?k"
    if "RBT.lookup (catalog_tables c) a \<noteq> None" for a
    by (rule heaps_match_fresh(2,3) [OF D(6) fresh(1) _ D(2) that], rule fresh(2), assumption)+
  have cat: "heap_lookup (pool_view p1) (catalog_heap c) = heap_lookup (pool_view p) (catalog_heap c)"
    using heap_agree(2) [OF D(2), of "pool_view p1"] fresh(1,2) heap_pages_used [OF D(2)] by metis
  have apart: "apart ?k (catalog_heap c)"
    using heap_pages_used [OF D(2), of n] fresh(1) by (auto simp: apart_def)
  note K = heap_frame_other [OF post(3) k(1) apart]
  note M = heaps_match_frame [OF F1 post(3)]
  have "n \<notin> set (heap_pages h')" using K(3) by (simp add: apart_def)
  then show "slots_at (pool_view p2) n = slots_at (pool_view p1) n"
    using post(3) by (simp add: heap_frame_def slots_at_def)
  show "heap_lookup (pool_view p2) (H a) = heap_lookup (pool_view p) (H a)" if "RBT.lookup (catalog_tables c) a \<noteq> None" for a
    using M(2) [OF that] F(1) [OF that] by simp
  have "heaps_match (pool_view p2) h' ((RBT.lookup (catalog_tables c))(table_name md \<mapsto> md)) (H(table_name md := ?k))"
    by (rule heaps_match_insert [OF M(1) K(1) _ K(3) tables])
      (use fresh(3) heap_frame_other(3) [OF post(3)] F(2) in simp_all)
  moreover have "records_match (heap_lookup (pool_view p2) h') ((RBT.lookup (catalog_tables c))(table_name md \<mapsto> md))"
    using records_match_insert [OF D(4) _ tables wf, of r] post(5,6) cat by simp
  moreover have "hd (heap_pages h') = hd (heap_pages (catalog_heap c))"
    using post(3) by (simp add: heap_frame_def)
  ultimately show "catalog_ok p2 c' (H(table_name md := ?k))"
    using post(1,2,4) k(3) D(3) c' ids_match_insert [OF D(5) id(1) tables id(2)] by (simp add: catalog_ok_def)
qed

end
