(* ===== verification/Catalog_Runs.thy ===== *)
theory Catalog_Runs
  imports Catalog_Facts
begin

text \<open>
  What each operation of the catalog does to a database that satisfies the invariant.
\<close>

section \<open>Creating a table\<close>

lemma quiet_next: "quiet p \<Longrightarrow> pool_next p = Some n \<Longrightarrow> n \<noteq> 0"
  by (auto simp: quiet_def pool_sound_def pool_inv_def pool_next_def Let_def split: if_splits)

text \<open>The part of \<open>create_table\<close> after its guards and after the creation of the heap.\<close>

lemma create_table_guarded:
  assumes "RBT.lookup (catalog_tables c) (schema_name s) = None" and "next_table_id c \<noteq> - 1"
    and "TABLE_RECORD_HEADER_SIZE + length (schema_encode s) \<le> MAX_ROW_SIZE"
    and "heap_create p = (Ok \<lparr>heap_pages = [n]\<rparr>, p1)"
  shows "create_table s (c, p) =
    (let md = \<lparr>metadata_id = TableId (next_table_id c), metadata_schema = s, heap_first_page_id = n\<rparr> in
     case heap_insert (encode_table_record md) (catalog_heap c, p1) of
       (Ok rid, (h', p2)) \<Rightarrow>
         (Ok md, (c\<lparr>catalog_heap := h', next_table_id := next_table_id c + 1,
                    catalog_tables := RBT.insert (schema_name s) md (catalog_tables c)\<rparr>, p2))
     | (Err e, (h', p2)) \<Rightarrow> (Err (CE_Heap e), (c\<lparr>catalog_heap := h'\<rparr>, p2))
     | (Panic, (h', p2)) \<Rightarrow> (Panic, (c\<lparr>catalog_heap := h'\<rparr>, p2)))"
proof -
  have "checked_add_word (next_table_id c) 1 = Some (next_table_id c + 1)"
    using assms(2) unat_u32_less [of "next_table_id c"] unat_u32_max [of "next_table_id c"]
    by (simp add: checked_add_word_def)
  then show ?thesis
    using assms
    by (simp add: create_table_def on_catalog_pool_def on_catalog_heap_def act_simps first_page_id_def Let_def
        split: prod.split result.split)
qed

text \<open>The outcome of \<open>create_table\<close>: a new table under the next identifier with an empty heap, or
  a refusal that leaves the catalog as it was; the data of every table stays.\<close>

definition create_outcome ::
  "table_schema \<Rightarrow> catalog \<Rightarrow> buffer_pool \<Rightarrow> (str \<Rightarrow> heap_file) \<Rightarrow> table_metadata catalog_result \<Rightarrow> catalog \<Rightarrow> buffer_pool \<Rightarrow> bool"
where
  "create_outcome s c p H r c' p' \<longleftrightarrow> pool_writes p'
    \<and> (\<forall>a. RBT.lookup (catalog_tables c) a \<noteq> None \<longrightarrow> heap_lookup (pool_view p') (H a) = heap_lookup (pool_view p) (H a)) \<and>
    (case r of
       Ok md \<Rightarrow> metadata_schema md = s \<and> metadata_id md = TableId (next_table_id c)
         \<and> RBT.lookup (catalog_tables c) (schema_name s) = None
         \<and> RBT.lookup (catalog_tables c') = (RBT.lookup (catalog_tables c))(schema_name s \<mapsto> md)
         \<and> catalog_ok p' c' (H(schema_name s := \<lparr>heap_pages = [heap_first_page_id md]\<rparr>))
         \<and> slots_at (pool_view p') (heap_first_page_id md) = []
         \<and> (\<exists>n. pool_next p = Some n \<and> pool_next p' \<in> {id_after n, Option.bind (id_after n) id_after})
     | Err e \<Rightarrow> c' = c \<and> catalog_ok p' c H \<and> create_refusal s c p e
     | Panic \<Rightarrow> False)"

lemma create_outcome_Err:
  "create_outcome s c p H (Err e) c p' \<longleftrightarrow> pool_writes p' \<and> catalog_ok p' c H \<and> create_refusal s c p e
    \<and> (\<forall>a. RBT.lookup (catalog_tables c) a \<noteq> None \<longrightarrow> heap_lookup (pool_view p') (H a) = heap_lookup (pool_view p) (H a))"
  by (auto simp: create_outcome_def)

lemma create_table_refused:
  assumes "catalog_ok p c H" and "pool_writes p"
    and "RBT.lookup (catalog_tables c) (schema_name s) \<noteq> None \<or> next_table_id c = - 1
      \<or> MAX_ROW_SIZE < TABLE_RECORD_HEADER_SIZE + length (schema_encode s)"
  shows "\<exists>r c' p'. create_table s (c, p) = (r, (c', p')) \<and> create_outcome s c p H r c' p'"
proof -
  have "\<exists>e. create_table s (c, p) = (Err e, (c, p)) \<and> create_refusal s c p e"
    using assms(3) by (auto simp: create_table_def act_simps create_refusal_def Let_def)
  then show ?thesis
    using assms(1,2) create_outcome_Err by blast
qed

lemma create_table_exhausted:
  assumes ok: "catalog_ok p c H" and rw: "pool_writes p" and none: "pool_next p = None"
    and go: "RBT.lookup (catalog_tables c) (schema_name s) = None" "next_table_id c \<noteq> - 1"
      "TABLE_RECORD_HEADER_SIZE + length (schema_encode s) \<le> MAX_ROW_SIZE"
  shows "\<exists>r c' p'. create_table s (c, p) = (r, (c', p')) \<and> create_outcome s c p H r c' p'"
proof -
  obtain p1 where p1: "heap_create p = (Err (H_Buffer (BP_Disk D_PageIdExhausted)), p1)" "quiet p1"
      "pool_view p1 = pool_view p" "pool_writes p1"
    using heap_create_exhausted [OF catalog_okD(1) [OF ok] rw none] by blast
  have "create_table s (c, p) = (Err (CE_Heap (H_Buffer (BP_Disk D_PageIdExhausted))), (c, p1))"
    using go p1(1) by (simp add: create_table_def on_catalog_pool_def act_simps)
  moreover have "catalog_ok p1 c H"
    using catalog_ok_view [OF ok p1(2,3)] keepsD [OF keeps_heap(1) p1(1)] by simp
  ultimately show ?thesis
    using p1(3,4) none create_outcome_Err by (fastforce simp: create_refusal_def)
qed

lemma create_table_go:
  assumes ok: "catalog_ok p c H" and rw: "pool_writes p" and s: "schema_wf s" and Some: "pool_next p = Some n"
    and go: "RBT.lookup (catalog_tables c) (schema_name s) = None" "next_table_id c \<noteq> - 1"
      "TABLE_RECORD_HEADER_SIZE + length (schema_encode s) \<le> MAX_ROW_SIZE"
  shows "\<exists>r c' p'. create_table s (c, p) = (r, (c', p')) \<and> create_outcome s c p H r c' p'"
proof -
  note D = catalog_okD [OF ok]
  let ?V = "pool_view p"
  let ?k = "\<lparr>heap_pages = [n]\<rparr>"
  obtain p1 where p1: "heap_create p = (Ok ?k, p1)" "quiet p1" "pool_writes p1" "heap_inv (pool_view p1) ?k"
      "slots_at (pool_view p1) n = []" "?V n = None" "\<And>pid. pid \<noteq> n \<Longrightarrow> pool_view p1 pid = ?V pid" "pool_next p1 = id_after n"
    using heap_create_run [OF D(1) rw Some] by blast
  let ?md = "\<lparr>metadata_id = TableId (next_table_id c), metadata_schema = s, heap_first_page_id = n\<rparr>"
  have same: "slots_at (pool_view p1) pid = slots_at ?V pid" "pool_view p1 pid = ?V pid" if "pid \<in> set (heap_pages (catalog_heap c))" for pid
    using p1(6,7) heap_pages_used [OF D(2) that] by (metis slots_at_def)+
  have inv1: "heap_inv (pool_view p1) (catalog_heap c)"
    using heap_agree(1) [OF D(2) same(2)] .
  obtain r h' p2 where ins: "heap_insert (encode_table_record ?md) (catalog_heap c, p1) = (r, (h', p2))" "quiet p2"
      "pool_writes p2" "heap_inv (pool_view p2) h'" "heap_frame (pool_view p1) (catalog_heap c) (pool_view p2) h'"
    and out: "case r of
       Ok rid \<Rightarrow> heap_lookup (pool_view p1) (catalog_heap c) rid = None
         \<and> pool_next p2 \<in> {pool_next p1, Option.bind (pool_next p1) id_after} \<and> heap_lookup (pool_view p2) h'
         = (heap_lookup (pool_view p1) (catalog_heap c))(rid \<mapsto> encode_table_record ?md)
     | Err e \<Rightarrow> h' = catalog_heap c \<and> pool_view p2 = pool_view p1 \<and> insert_refusal (encode_table_record ?md) (catalog_heap c) p1 e
     | Panic \<Rightarrow> False"
    using heap_insert_run [OF p1(2) inv1 p1(3), of "encode_table_record ?md"] by (force split: result.splits)
  note run = create_table_guarded [OF go p1(1), unfolded Let_def ins(1)]
  have root1: "pool_root p1 = pool_root p" using keepsD [OF keeps_heap(1) p1(1)] .
  have root: "pool_root p2 = pool_root p1" using heap_insert_root [OF ins(1)] .
  show ?thesis
  proof (cases r)
    case (Ok rid)
    let ?c = "c\<lparr>catalog_heap := h', next_table_id := next_table_id c + 1,
        catalog_tables := RBT.insert (schema_name s) ?md (catalog_tables c)\<rparr>"
    have wf: "metadata_wf ?md"
      using s quiet_next [OF D(1) Some] D(5) by (auto simp: metadata_wf_def ids_match_def)
    have pre: "RBT.lookup (catalog_tables c) (table_name ?md) = None" "metadata_id ?md = TableId (next_table_id c)"
        "heap_first_page_id ?md = n" "catalog_heap ?c = h'" "next_table_id ?c = next_table_id c + 1"
        "RBT.lookup (catalog_tables ?c) = (RBT.lookup (catalog_tables c))(table_name ?md \<mapsto> ?md)"
      using go(1) by simp_all
    have stored: "heap_lookup (pool_view p1) (catalog_heap c) rid = None"
        "heap_lookup (pool_view p2) h' = (heap_lookup (pool_view p1) (catalog_heap c))(rid \<mapsto> encode_table_record ?md)"
      using out Ok by simp_all
    note S = create_table_stored [OF ok pre(1,2) go(2) wf p1(6) _ pre(3) p1(4,2) root1 ins(2,4,5) root stored pre(4-6)]
    have "pool_next p2 \<in> {pool_next p1, Option.bind (pool_next p1) id_after}"
      using out Ok by simp
    moreover have "catalog_ok p2 ?c (H(table_name ?md := ?k))" "slots_at (pool_view p2) n = slots_at (pool_view p1) n"
      by (rule S(1,3); use p1(7) in blast)+
    moreover have "heap_lookup (pool_view p2) (H a) = heap_lookup ?V (H a)" if "RBT.lookup (catalog_tables c) a \<noteq> None" for a
      by (rule S(2) [OF _ that]) (use p1(7) in blast)
    ultimately show ?thesis
      using run Ok go(1) ins(3) p1(5,8) Some by (intro exI [of _ "Ok ?md"] exI [of _ ?c] exI [of _ p2]) (simp add: create_outcome_def)
  next
    case (Err e)
    have V2: "pool_view p2 = pool_view p1" and c: "c\<lparr>catalog_heap := h'\<rparr> = c"
      using out Err by simp_all
    have "heaps_match (pool_view p1) (catalog_heap c) (RBT.lookup (catalog_tables c)) H"
      by (rule heaps_match_fresh(1) [OF D(6) p1(6) _ D(2)]) (rule p1(7))
    then have "catalog_ok p2 c H"
      using D ins(2) inv1 root root1 heap_agree(2) [OF D(2) same(2)] by (simp add: catalog_ok_def V2)
    moreover have "heap_lookup (pool_view p2) (H a) = heap_lookup ?V (H a)" if "RBT.lookup (catalog_tables c) a \<noteq> None" for a
      unfolding V2 by (rule heaps_match_fresh(2) [OF D(6) p1(6) _ D(2) that]) (rule p1(7))
    moreover have "create_refusal s c p (CE_Heap e)"
      using out Err go(3) same(1) p1(8) Some by (auto simp: insert_refusal_def create_refusal_def)
    ultimately show ?thesis
      using run Err ins(3) c by (intro exI [of _ "Err (CE_Heap e)"] exI [of _ c] exI [of _ p2]) (simp add: create_outcome_Err)
  next
    case Panic
    then show ?thesis using out by simp
  qed
qed

lemma create_table_run:
  assumes ok: "catalog_ok p c H" and rw: "pool_writes p" and s: "schema_wf s"
  shows "\<exists>r c' p'. create_table s (c, p) = (r, (c', p')) \<and> create_outcome s c p H r c' p'"
proof (cases "RBT.lookup (catalog_tables c) (schema_name s) \<noteq> None \<or> next_table_id c = - 1
    \<or> MAX_ROW_SIZE < TABLE_RECORD_HEADER_SIZE + length (schema_encode s)")
  case True
  then show ?thesis by (rule create_table_refused [OF ok rw])
next
  case False
  then have go: "RBT.lookup (catalog_tables c) (schema_name s) = None" "next_table_id c \<noteq> - 1"
      "TABLE_RECORD_HEADER_SIZE + length (schema_encode s) \<le> MAX_ROW_SIZE"
    by auto
  show ?thesis
    using create_table_exhausted [OF ok rw _ go] create_table_go [OF ok rw s _ go] by (cases "pool_next p") blast+
qed

end
