(* ===== verification/Catalog_Open.thy ===== *)
theory Catalog_Open
  imports Catalog_Runs
begin

text \<open>
  Opening and creating a catalog: the loop that loads the table records, and what it accepts.
\<close>

section \<open>Loading the tables\<close>

abbreviation by_name :: "table_metadata list \<Rightarrow> str \<rightharpoonup> table_metadata" where
  "by_name mds \<equiv> map_of (map (\<lambda>md. (table_name md, md)) mds)"

abbreviation id_of :: "table_metadata \<Rightarrow> u32" where
  "id_of md \<equiv> table_id_get (metadata_id md)"

lemma load_tables_run:
  assumes "quiet p" and "map record_bytes recs = map encode_table_record mds"
    and "\<And>md. md \<in> set mds \<Longrightarrow> metadata_wf md \<and> (\<exists>h. heap_inv (pool_view p) h \<and> hd (heap_pages h) = heap_first_page_id md)"
    and "distinct (map table_name mds)" and "distinct (map metadata_id mds)"
    and "\<And>md. md \<in> set mds \<Longrightarrow> metadata_id md \<notin> ids \<and> RBT.lookup t (table_name md) = None"
  shows "\<exists>t' p'. load_tables recs t ids hi p = (Ok (t', fold (\<lambda>md. max (id_of md)) mds hi), p')
    \<and> RBT.lookup t' = RBT.lookup t ++ by_name mds
    \<and> quiet p' \<and> pool_view p' = pool_view p \<and> pool_writes p' = pool_writes p \<and> pool_root p' = pool_root p"
  using assms
proof (induction recs arbitrary: mds t ids hi p)
  case Nil
  then show ?case by (simp add: act_simps)
next
  case (Cons rec recs)
  then obtain md mds' where mds: "mds = md # mds'" "record_bytes rec = encode_table_record md"
      "map record_bytes recs = map encode_table_record mds'"
    by auto
  obtain h where h: "metadata_wf md" "heap_inv (pool_view p) h" "hd (heap_pages h) = heap_first_page_id md"
    using Cons.prems(3) mds(1) by auto
  obtain p1 where p1: "heap_open (heap_first_page_id md) p = (Ok h, p1)" "quiet p1" "pool_view p1 = pool_view p"
      "pool_writes p1 = pool_writes p"
    using heap_open_run [OF Cons.prems(1) h(2)] h(3) by auto
  have root: "pool_root p1 = pool_root p" using keepsD [OF keeps_heap(2) p1(1)] .
  let ?t = "RBT.insert (table_name md) md t" and ?ids = "insert (metadata_id md) ids"
  have step: "load_tables (rec # recs) t ids hi p = load_tables recs ?t ?ids (max hi (id_of md)) p1"
    using Cons.prems(6) mds decode_encode_table_record [OF h(1)] p1(1) by (simp add: act_simps)
  have names: "table_name md \<notin> table_name ` set mds'"
    using Cons.prems(4) mds(1) by simp
  have "\<exists>t' p'. load_tables recs ?t ?ids (max hi (id_of md)) p1 = (Ok (t', fold (\<lambda>md. max (id_of md)) mds' (max hi (id_of md))), p')
    \<and> RBT.lookup t' = RBT.lookup ?t ++ by_name mds'
    \<and> quiet p' \<and> pool_view p' = pool_view p1 \<and> pool_writes p' = pool_writes p1 \<and> pool_root p' = pool_root p1"
  proof (rule Cons.IH [OF p1(2) mds(3)])
    show "metadata_wf x \<and> (\<exists>h. heap_inv (pool_view p1) h \<and> hd (heap_pages h) = heap_first_page_id x)" if "x \<in> set mds'" for x
      using Cons.prems(3) [of x] that mds(1) p1(3) by simp
    show "metadata_id x \<notin> ?ids \<and> RBT.lookup ?t (table_name x) = None" if "x \<in> set mds'" for x
      using Cons.prems(4-6) that mds(1) names by (auto simp: image_iff)
  qed (use Cons.prems(4,5) mds(1) in simp_all)
  then obtain t' p' where t': "load_tables recs ?t ?ids (max hi (id_of md)) p1 = (Ok (t', fold (\<lambda>md. max (id_of md)) mds' (max hi (id_of md))), p')"
      "RBT.lookup t' = RBT.lookup ?t ++ by_name mds'"
      "quiet p'" "pool_view p' = pool_view p1" "pool_writes p' = pool_writes p1" "pool_root p' = pool_root p1"
    by blast
  have t: "RBT.lookup ?t ++ by_name mds' = RBT.lookup t ++ by_name mds"
    using names mds(1) by (simp add: map_add_upd_left dom_map_of_conv_image_fst image_image)
  have "fold (\<lambda>md. max (id_of md)) mds hi = fold (\<lambda>md. max (id_of md)) mds' (max hi (id_of md))"
    by (simp add: mds(1) max.commute [of hi])
  then have "load_tables (rec # recs) t ids hi p = (Ok (t', fold (\<lambda>md. max (id_of md)) mds hi), p')"
    using step t'(1) by (simp only:)
  moreover have "RBT.lookup t' = RBT.lookup t ++ by_name mds"
    using t'(2) t by (rule trans)
  moreover have "quiet p'" "pool_view p' = pool_view p" "pool_writes p' = pool_writes p" "pool_root p' = pool_root p"
    using t'(3-6) p1(3,4) root by simp_all
  ultimately show ?case by blast
qed

lemma fold_max: "(y :: 'a::linorder) \<le> fold (\<lambda>x. max (f x)) xs y"
    "x \<in> set xs \<Longrightarrow> f x \<le> fold (\<lambda>x. max (f x)) xs y"
    "fold (\<lambda>x. max (f x)) xs y = y \<or> (\<exists>x\<in>set xs. fold (\<lambda>x. max (f x)) xs y = f x)"
proof -
  have ge: "y \<le> fold (\<lambda>x. max (f x)) xs y" for y :: 'a and xs
    by (induction xs arbitrary: y) (auto intro: order_trans [OF max.cobounded2])
  then show "y \<le> fold (\<lambda>x. max (f x)) xs y" .
  show "x \<in> set xs \<Longrightarrow> f x \<le> fold (\<lambda>x. max (f x)) xs y"
    by (induction xs arbitrary: y) (auto intro: order_trans [OF _ ge])
  show "fold (\<lambda>x. max (f x)) xs y = y \<or> (\<exists>x\<in>set xs. fold (\<lambda>x. max (f x)) xs y = f x)"
  proof (induction xs arbitrary: y)
    case (Cons a xs)
    then show ?case using Cons.IH [of "max (f a) y"] by (auto simp: max_def split: if_splits)
  qed simp
qed

text \<open>The next identifier computed from the largest is the one the invariant names.\<close>

lemma next_id_loaded:
  assumes ids: "ids_match tables n" and mds: "\<And>md. md \<in> set mds \<longleftrightarrow> (\<exists>a. tables a = Some md)"
  shows "max (saturating_add_word (fold (\<lambda>md. max (id_of md)) mds 0) 1) FIRST_TABLE_ID = n"
proof -
  let ?hi = "fold (\<lambda>md. max (id_of md)) mds 0"
  have lt: "id_of md < n" if "md \<in> set mds" for md
    using ids that mds unfolding ids_match_def by blast
  have n: "n = 1 \<or> (\<exists>md\<in>set mds. n = id_of md + 1)" "n \<noteq> 0"
    using ids mds unfolding ids_match_def by blast+
  have hi: "?hi < n"
    using fold_max(3) [where f = id_of and xs = mds and y = 0] lt n(2) by (auto simp: word_neq_0_conv)
  have "n = ?hi + 1"
  proof (cases "n = 1")
    case True
    then show ?thesis using hi by simp
  next
    case False
    then obtain md where md: "md \<in> set mds" "n = id_of md + 1" using n(1) by blast
    have "?hi \<le> id_of md"
      using hi md(2) n(2) unat_plus_one [of "id_of md"] unat_u32_less [of "id_of md"] unat_u32_max [of "id_of md"]
      by (cases "id_of md = - 1") (auto simp: word_less_nat_alt word_le_nat_alt)
    then show ?thesis
      using fold_max(2) [where f = id_of and y = 0, OF md(1)] md(2) by simp
  qed
  moreover have "unat ?hi + 1 < 4294967296"
    using hi unat_u32_less [of n] by (simp add: word_less_nat_alt)
  moreover have "1 \<le> n"
    using n(2) by (simp add: word_le_nat_alt Suc_le_eq unat_gt_0)
  ultimately show ?thesis
    by (simp add: saturating_add_word_def max_def)
qed

section \<open>Opening\<close>

lemma option_eqI: "(\<And>y. x = Some y \<longleftrightarrow> z = Some y) \<Longrightarrow> x = z"
  by (cases x; cases z) auto

text \<open>The records of a catalog heap, decoded: every table exactly once.\<close>

text \<open>A list of metadata that is exactly what a map of tables holds, each under its own name.\<close>

lemma listed_tables:
  assumes d: "distinct mds" and all: "\<And>md. md \<in> set mds \<longleftrightarrow> tables (table_name md) = Some md"
    and named: "\<And>a md. tables a = Some md \<Longrightarrow> table_name md = a"
  shows "distinct (map table_name mds)" and "by_name mds = tables"
proof -
  have "inj_on table_name (set mds)"
    by (rule inj_onI) (metis all option.inject)
  then show names: "distinct (map table_name mds)"
    using d by (simp add: distinct_map)
  show "by_name mds = tables"
  proof
    fix a
    have "by_name mds a = Some md \<longleftrightarrow> tables a = Some md" for md
    proof -
      have "distinct (map fst (map (\<lambda>md. (table_name md, md)) mds))"
        using names by (simp add: comp_def)
      from map_of_eq_Some_iff [OF this]
      have "by_name mds a = Some md \<longleftrightarrow> md \<in> set mds \<and> table_name md = a" by auto
      then show ?thesis using all [of md] named [of a md] by auto
    qed
    then show "by_name mds a = tables a"
      by (rule option_eqI)
  qed
qed

text \<open>Every scanned record is the encoding of the metadata of one table, and of another table than any
  other record.\<close>

lemma scanned_metadata:
  assumes m: "records_match recs tables"
    and out: "distinct (map record_rid out)" "\<And>r b. \<lparr>record_rid = r, record_bytes = b\<rparr> \<in> set out \<longleftrightarrow> recs r = Some b"
  obtains mds where "map record_bytes out = map encode_table_record mds" and "distinct mds"
    and "\<And>md. md \<in> set mds \<longleftrightarrow> tables (table_name md) = Some md"
proof -
  have at: "recs (record_rid x) = Some (record_bytes x)" if "x \<in> set out" for x
  proof -
    have "\<lparr>record_rid = record_rid x, record_bytes = record_bytes x\<rparr> = x" by simp
    then show ?thesis using out(2) that by metis
  qed
  have "\<forall>x\<in>set out. \<exists>md. record_bytes x = encode_table_record md \<and> tables (table_name md) = Some md"
    using at m unfolding records_match_def by blast
  then obtain f where f: "\<And>x. x \<in> set out \<Longrightarrow> record_bytes x = encode_table_record (f x) \<and> tables (table_name (f x)) = Some (f x)"
    by metis
  have "md \<in> set (map f out)" if md: "tables (table_name md) = Some md" for md
  proof -
    obtain r where a: "metadata_wf md" "recs r = Some (encode_table_record md)"
      using md m unfolding records_match_def by blast
    then have x: "\<lparr>record_rid = r, record_bytes = encode_table_record md\<rparr> \<in> set out"
      using out(2) by blast
    let ?g = "f \<lparr>record_rid = r, record_bytes = encode_table_record md\<rparr>"
    have g: "tables (table_name ?g) = Some ?g" "encode_table_record md = encode_table_record ?g"
      using f [OF x] by simp_all
    have "metadata_wf ?g"
      using g(1) m unfolding records_match_def by blast
    then have "md = ?g"
      using a(1) g(2) by (simp add: encode_table_record_inj)
    then show ?thesis using x by auto
  qed
  then have all: "md \<in> set (map f out) \<longleftrightarrow> tables (table_name md) = Some md" for md
    using f by auto
  have "inj_on f (set out)"
  proof (rule inj_onI)
    fix x y assume xy: "x \<in> set out" "y \<in> set out" "f x = f y"
    then have "recs (record_rid x) = recs (record_rid y)" "recs (record_rid x) \<noteq> None"
      using at f by simp_all
    then have "record_rid x = record_rid y"
      using m unfolding records_match_def by blast
    then show "x = y"
      using out(1) xy(1,2) by (auto simp: distinct_map dest: inj_onD)
  qed
  then have "distinct (map f out)"
    using out(1) by (simp add: distinct_map)
  moreover have "map record_bytes out = map encode_table_record (map f out)"
    using f by simp
  ultimately show ?thesis using that all by blast
qed

lemma scanned_tables:
  assumes m: "records_match recs tables" and ids: "ids_match tables n"
    and out: "distinct (map record_rid out)" "\<And>r b. \<lparr>record_rid = r, record_bytes = b\<rparr> \<in> set out \<longleftrightarrow> recs r = Some b"
  obtains mds where "map record_bytes out = map encode_table_record mds" and "distinct (map table_name mds)"
    and "distinct (map metadata_id mds)" and "\<forall>md. md \<in> set mds \<longleftrightarrow> (\<exists>a. tables a = Some md)" and "by_name mds = tables"
proof -
  obtain mds where mds: "map record_bytes out = map encode_table_record mds" "distinct mds"
      and all: "\<And>md. md \<in> set mds \<longleftrightarrow> tables (table_name md) = Some md"
    by (rule scanned_metadata [OF m out]) blast
  have named: "\<And>a md. tables a = Some md \<Longrightarrow> table_name md = a"
    using m unfolding records_match_def by blast
  note L = listed_tables [OF mds(2) all named]
  have "inj_on metadata_id (set mds)"
  proof (rule inj_onI)
    fix x y assume xy: "x \<in> set mds" "y \<in> set mds" "metadata_id x = metadata_id y"
    then have "table_name x = table_name y"
      using ids all [of x] all [of y] unfolding ids_match_def by blast
    then show "x = y" using all [of x] all [of y] xy(1,2) by simp
  qed
  then have "distinct (map metadata_id mds)"
    using mds(2) by (simp add: distinct_map)
  moreover have "md \<in> set mds \<longleftrightarrow> (\<exists>a. tables a = Some md)" for md
    using all [of md] named by auto
  ultimately show ?thesis using that [OF mds(1) L(1) _ _ L(2)] by blast
qed

lemma catalog_open_run:
  assumes ok: "catalog_ok p c H"
  shows "\<exists>t p'. catalog_open p = (Ok (c\<lparr>catalog_tables := t\<rparr>), p') \<and> RBT.lookup t = RBT.lookup (catalog_tables c)
    \<and> catalog_ok p' (c\<lparr>catalog_tables := t\<rparr>) H \<and> pool_view p' = pool_view p \<and> pool_writes p' = pool_writes p"
proof -
  note D = catalog_okD [OF ok]
  let ?tables = "RBT.lookup (catalog_tables c)"
  obtain p1 where p1: "heap_open (hd (heap_pages (catalog_heap c))) p = (Ok (catalog_heap c), p1)" "quiet p1"
      "pool_view p1 = pool_view p" "pool_writes p1 = pool_writes p"
    using heap_open_run [OF D(1,2)] by blast
  obtain out p2 where p2: "heap_scan (catalog_heap c) p1 = (Ok out, p2)" "quiet p2" "pool_view p2 = pool_view p"
      "pool_writes p2 = pool_writes p" and out: "distinct (map record_rid out)"
      "\<And>r b. \<lparr>record_rid = r, record_bytes = b\<rparr> \<in> set out \<longleftrightarrow> heap_lookup (pool_view p) (catalog_heap c) r = Some b"
    using heap_scan_run [OF p1(2), of "catalog_heap c"] D(2) p1(3,4) by auto
  obtain mds where mds: "map record_bytes out = map encode_table_record mds" "distinct (map table_name mds)"
      "distinct (map metadata_id mds)" "\<forall>md. md \<in> set mds \<longleftrightarrow> (\<exists>a. ?tables a = Some md)" "by_name mds = ?tables"
    using scanned_tables [OF D(4,5) out] by blast
  have wf: "metadata_wf md \<and> (\<exists>h. heap_inv (pool_view p2) h \<and> hd (heap_pages h) = heap_first_page_id md)" if "md \<in> set mds" for md
    using catalog_ok_table [OF ok] that mds(4) p2(3) by metis
  obtain t p3 where p3: "load_tables out RBT.empty {} 0 p2 = (Ok (t, fold (\<lambda>md. max (id_of md)) mds 0), p3)"
      "RBT.lookup t = RBT.lookup RBT.empty ++ by_name mds"
      "quiet p3" "pool_view p3 = pool_view p2" "pool_writes p3 = pool_writes p2" "pool_root p3 = pool_root p2"
    using load_tables_run [OF p2(2) mds(1) wf mds(2,3), of "{}" RBT.empty 0] by auto
  have t: "RBT.lookup t = ?tables"
    using p3(2) mds(5) by simp
  have "pool_root p3 = pool_root p"
    using keepsD [OF keeps_heap(2) p1(1)] keepsD [OF keeps_heap(5) p2(1)] p3(6) by simp
  moreover have "catalog_open p = (Ok (c\<lparr>catalog_tables := t\<rparr>), p3)"
    using D(3) p1(1) p2(1) p3(1) next_id_loaded [OF D(5), of mds] mds(4)
    by (simp add: catalog_open_def pool_header_root act_simps)
  ultimately show ?thesis
    using D p2(3,4) p3(3-5) t by (intro exI [of _ t] exI [of _ p3]) (simp add: catalog_ok_def)
qed

lemma open_table_heap_run:
  assumes ok: "catalog_ok p c H"
  shows "\<exists>p'. open_table_heap c n p =
      (case RBT.lookup (catalog_tables c) n of Some md \<Rightarrow> Ok (H n) | None \<Rightarrow> Err (CE_TableNotFound n), p')
    \<and> catalog_ok p' c H \<and> pool_view p' = pool_view p \<and> pool_writes p' = pool_writes p"
proof (cases "RBT.lookup (catalog_tables c) n")
  case None
  then show ?thesis
    using ok by (auto simp: open_table_heap_def catalog_table_def act_simps)
next
  case (Some md)
  note T = catalog_ok_table [OF ok Some]
  obtain p' where p': "heap_open (heap_first_page_id md) p = (Ok (H n), p')" "quiet p'" "pool_view p' = pool_view p"
      "pool_writes p' = pool_writes p"
    using heap_open_run [OF catalog_okD(1) [OF ok] T(1)] T(2) by auto
  then show ?thesis
    using Some catalog_ok_view [OF ok p'(2,3)] keepsD [OF keeps_heap(2) p'(1)]
    by (auto simp: open_table_heap_def catalog_table_def act_simps)
qed

section \<open>Creating a catalog\<close>

text \<open>A page stays cached while its guard is used and after it is dropped.\<close>

lemma writing_cached:
  "find_frame q p \<noteq> None \<Longrightarrow> writing err g f p = (r, p') \<Longrightarrow> find_frame q p' \<noteq> None"
  by (auto simp: writing_def guard_write_def set_borrow_def get_frame_def on_page_def end_write_def act_simps
      split: option.splits result.splits if_splits prod.splits)

lemma new_page_cached:
  assumes quiet: "quiet p" and rw: "pool_writes p" and next_page: "pool_next p = Some n" and run: "new_page err f p = (r, p')"
  shows "find_frame n p' \<noteq> None"
proof -
  have n: "n = next_id (pool_disk p)" "next_id (pool_disk p) \<noteq> - 1" "\<not> disk_read_only (pool_disk p)"
    using next_page rw by (auto simp: pool_next_def pool_writes_def Let_def split: if_splits)
  obtain p1 where p1: "pool_allocate_page p = (Ok n, p1)" "find_frame n p1 \<noteq> None"
    using allocate_sound [OF quietD(1,4) [OF quiet] n(3,2)] n(1) by (auto simp: Let_def)
  obtain w p2 where w: "writing err n f p1 = (w, p2)" by (metis prod.exhaust)
  have "p' = drop_guard n p2"
    using run p1(1) w by (cases w) (auto simp: new_page_def allocating_def act_simps)
  then show ?thesis
    using writing_cached [OF p1(2) w] by (auto simp: drop_guard_def split: option.split)
qed

lemma heap_create_cached:
  assumes "quiet p" and "pool_writes p" and "pool_next p = Some n" and "heap_create p = (Ok h, p')"
  shows "find_frame n p' \<noteq> None"
proof -
  obtain r p1 where "new_page H_Buffer (with_slotted_new (ret ())) p = (r, p1)" by (metis prod.exhaust)
  then show ?thesis
    using new_page_cached [OF assms(1-3), of H_Buffer "with_slotted_new (ret ())" r p1] assms(4)
    by (cases r) (auto simp: heap_create_def act_simps)
qed

text \<open>A new catalog is empty; its first page and then the header that names it are on disk when
  the call returns.\<close>

lemma catalog_create_run:
  assumes quiet: "quiet p" and rw: "pool_writes p" and root: "pool_root p = None" and next_page: "pool_next p = Some n"
  shows "\<exists>p'. let c = \<lparr>catalog_heap = \<lparr>heap_pages = [n]\<rparr>, catalog_tables = RBT.empty, next_table_id = FIRST_TABLE_ID\<rparr>
    in catalog_create p = (Ok c, p') \<and> pool_writes p' \<and> catalog_ok p' c H \<and> pool_next p' = id_after n
      \<and> disk_pages (pool_disk p') n = pool_view p' n \<and> slots_at (pool_view p') n = []"
proof -
  let ?h = "\<lparr>heap_pages = [n]\<rparr>"
  obtain p1 where p1: "heap_create p = (Ok ?h, p1)" "quiet p1" "pool_writes p1" "heap_inv (pool_view p1) ?h"
      "slots_at (pool_view p1) n = []" "pool_next p1 = id_after n"
    using heap_create_run [OF quiet rw next_page] by blast
  have root1: "pool_root p1 = None" using keepsD [OF keeps_heap(1) p1(1)] root by simp
  obtain p2 where p2: "flush_page n p1 = (Ok (), p2)" "quiet p2" "pool_view p2 = pool_view p1" "pool_writes p2 = pool_writes p1"
      "pool_next p2 = pool_next p1" "pool_root p2 = pool_root p1" "disk_pages (pool_disk p2) n = pool_view p1 n"
    using flush_page_run [OF p1(2) heap_create_cached [OF quiet rw next_page p1(1)]] by blast
  have "pool_view p2 n \<noteq> None" using heap_pages_used [OF p1(4), of n] p2(3) by simp
  then obtain p3 where p3: "pool_set_catalog_root n p2 = (Ok (), p3)" "quiet p3" "pool_view p3 = pool_view p2" "pool_writes p3"
      "pool_next p3 = pool_next p2" "pool_root p3 = Some n" "disk_pages (pool_disk p3) = disk_pages (pool_disk p2)"
    using set_root_run [OF p2(2)] p1(3) p2(4,6) root1 by metis
  have "heap_lookup (pool_view p1) ?h = Map.empty"
    using p1(5) by (auto simp: heap_lookup_def spec_get_def fun_eq_iff)
  then show ?thesis
    using p1 p2 p3 root
    by (intro exI [of _ p3]) (simp add: catalog_create_def pool_header_root first_page_id_def act_simps catalog_ok_def
        records_match_def ids_match_def heaps_match_def Let_def)
qed

section \<open>Restarting\<close>

text \<open>A new pool on the file of a sound disk.\<close>

lemma restart:
  assumes "disk_ok d" and "0 < cap" and "cap \<le> MAP_CAPACITY_LIMIT"
  obtains d' q where "open_with_mode path ro (Some (file_data (disk_file d))) [] = Ok d'" and "pool_new d' cap = Ok q"
    and "quiet q" and "pool_view q = disk_pages d" and "pool_root q = disk_root d" and "pool_writes q = (\<not> ro)"
proof -
  obtain d' where d': "open_with_mode path ro (Some (file_data (disk_file d))) [] = Ok d'" "disk_header d' = disk_header d"
      "disk_pages d' = disk_pages d" "disk_read_only d' = ro" "disk_ok d'" "healthy d'"
    using reopen_disk [OF assms(1)] by blast
  define q where "q = \<lparr>pool_disk = d', pool_capacity = cap, pool_frames = [], pool_clock = 0,
      pool_counters = \<lparr>hits = 0, misses = 0, evictions = 0, disk_writes = 0\<rparr>, pool_borrowed = False\<rparr>"
  have none: "find_frame pid q = None" for pid by (simp add: q_def find_frame_def)
  have "quiet q"
    using d'(5,6) assms(2) none
    by (simp add: quiet_def pool_sound_def pool_inv_def pins_def fun_eq_iff) (simp add: q_def disk_ok_def header_wf_def)
  moreover have "pool_view q = disk_pages d"
  proof -
    have "cached q = Map.empty" using none by (simp add: cached_def fun_eq_iff)
    then show ?thesis using d'(3) by (simp add: pool_view_def) (simp add: q_def)
  qed
  ultimately show ?thesis
    using that [OF d'(1), of q] d' assms(2,3)
    by (simp add: pool_new_def pool_root_def disk_root_def pool_writes_def) (simp add: q_def)
qed

text \<open>The invariant does not depend on the pool, only on what it shows.\<close>

lemma catalog_ok_restart:
  assumes "catalog_ok p c H" and "quiet q" and "pool_view q = pool_view p" and "pool_root q = pool_root p"
  shows "catalog_ok q c H"
  using assms by (simp add: catalog_ok_def)

end
