(* ===== verification/Catalog_Props.thy ===== *)
theory Catalog_Props
  imports Catalog_Open
begin

text \<open>
  The properties of the catalog alone: the codec of its table records, and what creating a
  table does to the catalog and to the data of the other tables.
\<close>

section \<open>Table records\<close>

text \<open>C25. The encoding of table records is exact: bytes decode to table metadata exactly when the
  metadata are well formed and the bytes are their encoding. Decoding never panics.\<close>

theorem table_record_codec_exact:
  "(decode_table_record bs = Ok md \<longleftrightarrow> metadata_wf md \<and> bs = encode_table_record md) \<and> decode_table_record bs \<noteq> Panic"
  using decode_encode_table_record decode_table_record_inv decode_table_record_not_Panic by blast

section \<open>A database to evaluate on\<close>

lemma fresh_root: "pool_root (fresh_pool n) = None"
  by (simp add: pool_root_def disk_root_def)

lemma fresh_catalog:
  assumes "0 < n"
  obtains c p where "catalog_create (fresh_pool n) = (Ok c, p)" "pool_writes p" "\<And>H. catalog_ok p c H" "pool_next p = Some 2"
    "catalog_heap c = \<lparr>heap_pages = [1]\<rparr>" "catalog_tables c = RBT.empty" "next_table_id c = 1"
    "slots_at (pool_view p) 1 = []" "disk_pages (pool_disk p) 1 = pool_view p 1"
proof -
  let ?c = "\<lparr>catalog_heap = \<lparr>heap_pages = [1]\<rparr>, catalog_tables = RBT.empty, next_table_id = FIRST_TABLE_ID\<rparr>"
  note run = catalog_create_run [OF fresh_pool_quiet(1) [OF assms] fresh_pool_quiet(2) fresh_root pool_next_fresh [OF assms],
      unfolded Let_def]
  obtain p where p: "catalog_create (fresh_pool n) = (Ok ?c, p)" "pool_writes p" "pool_next p = id_after 1"
      "disk_pages (pool_disk p) 1 = pool_view p 1" "slots_at (pool_view p) 1 = []" and ok: "catalog_ok p ?c (\<lambda>_. undefined)"
    using run by blast
  have "catalog_ok p ?c H" for H
    using ok by (simp add: catalog_ok_def heaps_match_def)
  then show ?thesis
    using that [OF p(1,2)] p by (simp add: id_after_def)
qed

lemma sample_schema_length: "length (schema_encode sample_schema) = 21"
  by (simp add: schema_encode_def sample_schema_def sample_columns_def write_column_def write_string_def SCHEMA_MAGIC_def Let_def)

section \<open>Creating tables\<close>

text \<open>C6. Creating a table in a sound database either adds one table, under a name and with an
  identifier no table had, with an empty heap of its own, or changes nothing in the catalog
  and says why: the name is taken, the table or page identifiers are used up, the schema is
  too large for a record, or a page of the catalog is too full. The data of every other
  table stay, and the database stays sound.\<close>

theorem create_table_refines:
  assumes "catalog_ok p c H" and "pool_writes p" and "schema_wf s"
  shows "\<exists>r c' p'. create_table s (c, p) = (r, (c', p'))
    \<and> (\<forall>n. catalog_table c n \<noteq> None \<longrightarrow> heap_lookup (pool_view p') (H n) = heap_lookup (pool_view p) (H n)) \<and>
    (case r of
       Ok md \<Rightarrow> metadata_schema md = s \<and> metadata_id md = TableId (next_table_id c)
         \<and> catalog_table c (schema_name s) = None \<and> catalog_table c' = (catalog_table c)(schema_name s \<mapsto> md)
         \<and> (let k = \<lparr>heap_pages = [heap_first_page_id md]\<rparr> in
              catalog_ok p' c' (H(schema_name s := k)) \<and> heap_lookup (pool_view p') k = Map.empty)
     | Err e \<Rightarrow> c' = c \<and> catalog_ok p' c H \<and> create_refusal s c p e
     | Panic \<Rightarrow> False)"
proof -
  obtain r c' p' where "create_table s (c, p) = (r, (c', p'))" "create_outcome s c p H r c' p'"
    using create_table_run [OF assms] by blast
  then show ?thesis
    by (intro exI [of _ r] exI [of _ c'] exI [of _ p'])
      (cases r; simp add: create_outcome_def catalog_table_def [abs_def] Let_def heap_lookup_def spec_get_def fun_eq_iff)
qed

lemma sample_not_refused:
  assumes "catalog_tables c = RBT.empty" and "next_table_id c = 1" and "catalog_heap c = \<lparr>heap_pages = [1]\<rparr>"
    and "pool_next p = Some 2" and "slots_at (pool_view p) 1 = []"
  shows "\<not> create_refusal sample_schema c p e"
  using assms by (auto simp: create_refusal_def sample_schema_length id_after_def)

theorem create_table_refines_witness:
  "\<exists>c p md c' p'. catalog_create (fresh_pool 1) = (Ok c, p) \<and> create_table sample_schema (c, p) = (Ok md, (c', p'))
     \<and> catalog_table c' [116] = Some md \<and> metadata_id md = TableId 1"
proof -
  obtain c p where c: "catalog_create (fresh_pool 1) = (Ok c, p)" "pool_writes p" "\<And>H. catalog_ok p c H" "pool_next p = Some 2"
    "catalog_heap c = \<lparr>heap_pages = [1]\<rparr>" "catalog_tables c = RBT.empty" "next_table_id c = 1" "slots_at (pool_view p) 1 = []"
    by (rule fresh_catalog [of 1]) auto
  obtain r c' p' where r: "create_table sample_schema (c, p) = (r, (c', p'))"
    and out: "case r of Ok md \<Rightarrow> metadata_id md = TableId (next_table_id c)
        \<and> catalog_table c' = (catalog_table c)(schema_name sample_schema \<mapsto> md)
      | Err e \<Rightarrow> create_refusal sample_schema c p e | Panic \<Rightarrow> False"
    using create_table_refines [OF c(3,2) sample_schema_wf, of "\<lambda>_. undefined"] by (force split: result.splits)
  then show ?thesis
    using c(1,7) sample_not_refused [OF c(6,7,5,4,8)] by (cases r) (auto simp: sample_schema_def)
qed

end
