(* ===== verification/Heap_Props.thy ===== *)
theory Heap_Props
  imports Heap_Runs
begin

text \<open>
  The properties of heap files: each operation refines the abstract heap, a map from RIDs to
  records; the chain of pages can be followed again after every operation; a cycle is
  reported; a deleted RID stays dead; and two defects: a full page that blocks a heap, and
  handles on one heap that lose each other's pages.
\<close>

section \<open>Refinement\<close>

text \<open>C1. Insertion into a heap adds one record to the map: it either returns a RID that was not
  in use, under which the record is now found while every other record stays, or changes
  nothing and says why: the record is larger than a page, the identifiers are used up, or a
  page is too full to hold one more slot entry. Pages are only ever added, the chain stays
  linked, and no guard is left behind.\<close>

theorem heap_insert_refines:
  assumes "quiet p" and "heap_inv (pool_view p) h" and "pool_writes p"
  shows "\<exists>r h' p'. heap_insert rec (h, p) = (r, (h', p')) \<and> quiet p' \<and> heap_inv (pool_view p') h' \<and>
    (case r of
       Ok rid \<Rightarrow> length rec \<le> MAX_RECORD_SIZE \<and> heap_lookup (pool_view p) h rid = None
         \<and> heap_lookup (pool_view p') h' = (heap_lookup (pool_view p) h)(rid \<mapsto> rec)
         \<and> (\<exists>new. heap_pages h' = heap_pages h @ new)
     | Err e \<Rightarrow> h' = h \<and> pool_view p' = pool_view p \<and> insert_refusal rec h p e
     | Panic \<Rightarrow> False)"
proof -
  obtain r h' p' where "heap_insert rec (h, p) = (r, (h', p'))" "quiet p'" "heap_inv (pool_view p') h'"
    and "case r of
       Ok rid \<Rightarrow> length rec \<le> MAX_RECORD_SIZE \<and> heap_lookup (pool_view p) h rid = None
         \<and> heap_lookup (pool_view p') h' = (heap_lookup (pool_view p) h)(rid \<mapsto> rec)
         \<and> (\<exists>new. heap_pages h' = heap_pages h @ new) \<and> pool_next p' \<in> {pool_next p, Option.bind (pool_next p) id_after}
         \<and> (\<forall>pid\<in>set (heap_pages h). insert_or_same rec (slots_at (pool_view p) pid) (slots_at (pool_view p') pid))
     | Err e \<Rightarrow> h' = h \<and> pool_view p' = pool_view p \<and> insert_refusal rec h p e
     | Panic \<Rightarrow> False"
    using heap_insert_run [OF assms] by blast
  then show ?thesis
    by (intro exI [of _ r] exI [of _ h'] exI [of _ p']) (cases r; simp)
qed

theorem heap_insert_refines_witness:
  "\<exists>h p rid h' p'. heap_create (fresh_pool 1) = (Ok h, p) \<and> heap_insert [4, 2] (h, p) = (Ok rid, (h', p'))
     \<and> heap_lookup (pool_view p') h' = [rid \<mapsto> [4, 2]]"
proof -
  obtain p where p: "heap_create (fresh_pool 1) = (Ok \<lparr>heap_pages = [1]\<rparr>, p)" "quiet p" "pool_writes p"
    "heap_inv (pool_view p) \<lparr>heap_pages = [1]\<rparr>" "heap_lookup (pool_view p) \<lparr>heap_pages = [1]\<rparr> = Map.empty"
    "slots_at (pool_view p) 1 = []" "pool_next p = Some 2"
    by (rule fresh_heap [of 1]) auto
  obtain r h' p' where r: "heap_insert [4, 2] (\<lparr>heap_pages = [1]\<rparr>, p) = (r, (h', p'))"
    and c: "case r of
       Ok rid \<Rightarrow> heap_lookup (pool_view p') h' = [rid \<mapsto> [4, 2]]
     | Err e \<Rightarrow> insert_refusal [4, 2] \<lparr>heap_pages = [1]\<rparr> p e
     | Panic \<Rightarrow> False"
    using heap_insert_refines [OF p(2,4,3), of "[4, 2]"] p(5) by (force split: result.splits)
  have "\<not> insert_refusal [4, 2] \<lparr>heap_pages = [1]\<rparr> p e" for e
    using p(6,7) by (intro insert_refusal_fresh) simp_all
  then show ?thesis
    using p(1) r c by (cases r) auto
qed

text \<open>C12. Lookup and deletion are those of the map: a RID of the heap's pages resolves to its
  record and is deleted exactly when it is in the map; another RID is refused, as outside
  the heap or as invalid, and nothing changes.\<close>

theorem heap_get_delete_refine:
  assumes "quiet p" and "heap_inv (pool_view p) h" and "pool_writes p"
  shows "case heap_lookup (pool_view p) h r of
      Some b \<Rightarrow>
        (\<exists>p'. heap_get h r p = (Ok b, p') \<and> quiet p' \<and> pool_view p' = pool_view p)
        \<and> (\<exists>p'. heap_delete h r p = (Ok (), p') \<and> quiet p' \<and> heap_inv (pool_view p') h
             \<and> heap_lookup (pool_view p') h = (heap_lookup (pool_view p) h)(r := None))
    | None \<Rightarrow>
        (let e = (if rid_page r \<in> set (heap_pages h) then H_Page (SP_InvalidRid r) else H_RidOutsideHeap r)
         in (\<exists>p'. heap_get h r p = (Err e, p') \<and> quiet p' \<and> pool_view p' = pool_view p)
            \<and> (\<exists>p'. heap_delete h r p = (Err e, p') \<and> quiet p' \<and> pool_view p' = pool_view p))"
proof -
  let ?e = "if rid_page r \<in> set (heap_pages h) then H_Page (SP_InvalidRid r) else H_RidOutsideHeap r"
  obtain p1 where g: "heap_get h r p = ((case heap_lookup (pool_view p) h r of Some b \<Rightarrow> Ok b | None \<Rightarrow> Err ?e), p1)"
      "quiet p1" "pool_view p1 = pool_view p"
    using heap_get_run [OF assms(1,2), of r] by blast
  obtain p2 where d: "quiet p2" "heap_inv (pool_view p2) h"
    and del: "case heap_lookup (pool_view p) h r of
        Some b \<Rightarrow> heap_delete h r p = (Ok (), p2) \<and> heap_lookup (pool_view p2) h = (heap_lookup (pool_view p) h)(r := None)
          \<and> (\<forall>pid\<in>set (heap_pages h). slots_at (pool_view p2) pid = (if pid = rid_page r
              then spec_delete (unat (rid_slot r)) (rid_generation r) (slots_at (pool_view p) pid)
              else slots_at (pool_view p) pid))
      | None \<Rightarrow> heap_delete h r p = (Err ?e, p2) \<and> pool_view p2 = pool_view p"
    using heap_delete_run [OF assms, of r] by blast
  show ?thesis
  proof (cases "heap_lookup (pool_view p) h r")
    case None
    then show ?thesis using g d del by simp
  next
    case (Some b)
    then show ?thesis using g d del by simp
  qed
qed

theorem heap_get_delete_refine_witness:
  "\<exists>h p p'. heap_create (fresh_pool 1) = (Ok h, p) \<and> heap_get h (rid_new 1 0 1) p = (Err (H_Page (SP_InvalidRid (rid_new 1 0 1))), p')"
proof -
  obtain p where p: "heap_create (fresh_pool 1) = (Ok \<lparr>heap_pages = [1]\<rparr>, p)" "quiet p" "pool_writes p"
    "heap_inv (pool_view p) \<lparr>heap_pages = [1]\<rparr>" "heap_lookup (pool_view p) \<lparr>heap_pages = [1]\<rparr> = Map.empty"
    by (rule fresh_heap [of 1]) auto
  show ?thesis
    using heap_get_delete_refine [OF p(2,4,3), of "rid_new 1 0 1"] p(1,5) by (auto simp: rid_new_def Let_def)
qed

section \<open>Scanning\<close>

text \<open>C14. A scan reads the whole heap and nothing else: it returns every record of the map
  exactly once, with its RID, and changes no page.\<close>

theorem heap_scan_complete:
  assumes "quiet p" and "heap_inv (pool_view p) h"
  shows "\<exists>recs p'. heap_scan h p = (Ok recs, p') \<and> quiet p' \<and> pool_view p' = pool_view p
    \<and> distinct (map record_rid recs)
    \<and> (\<forall>r b. \<lparr>record_rid = r, record_bytes = b\<rparr> \<in> set recs \<longleftrightarrow> heap_lookup (pool_view p) h r = Some b)"
  using heap_scan_run [OF assms] by blast

theorem heap_scan_complete_witness:
  "\<exists>h p p'. heap_create (fresh_pool 1) = (Ok h, p) \<and> heap_scan h p = (Ok [], p')"
proof -
  obtain p where p: "heap_create (fresh_pool 1) = (Ok \<lparr>heap_pages = [1]\<rparr>, p)" "quiet p"
    "heap_inv (pool_view p) \<lparr>heap_pages = [1]\<rparr>" "heap_lookup (pool_view p) \<lparr>heap_pages = [1]\<rparr> = Map.empty"
    by (rule fresh_heap [of 1]) auto
  obtain recs p' where r: "heap_scan \<lparr>heap_pages = [1]\<rparr> p = (Ok recs, p')"
      "\<forall>r b. \<lparr>record_rid = r, record_bytes = b\<rparr> \<notin> set recs"
    using heap_scan_complete [OF p(2,3)] p(4) by auto
  have "recs = []"
    using r(2) by (cases recs) (metis heap_record.surjective list.set_intros(1) old.unit.exhaust)+
  then show ?thesis using p(1) r(1) by blast
qed

section \<open>Opening\<close>

text \<open>C17. Opening follows the links from the first page and always ends: it returns the chain,
  in order, when the links end, which after every insertion gives back the heap with all its
  pages, and reports the page it meets again when they close a cycle. It changes no page.\<close>

theorem heap_open_follows_chain:
  assumes "quiet p" and "chain (pool_view p) pids e" and "\<forall>pid\<in>set pids. wf_at (pool_view p) pid"
    and "distinct pids" and "\<forall>q. e = Some q \<longrightarrow> q \<in> set pids"
  shows "\<exists>p'. quiet p' \<and> pool_view p' = pool_view p \<and>
    heap_open (hd pids) p = (case e of None \<Rightarrow> (Ok \<lparr>heap_pages = pids\<rparr>, p') | Some q \<Rightarrow> (Err (H_PageChainCycle q), p'))"
proof -
  obtain p' where p': "quiet p'" "pool_view p' = pool_view p"
    "open_chain [] {} (hd pids) p = (case e of None \<Rightarrow> (Ok pids, p') | Some q \<Rightarrow> open_chain pids (set pids) q p')"
    using open_chain_run [OF assms(1) refl assms(2,3), of "[]"] assms(4)
    unfolding append_Nil list.set by blast
  then show ?thesis
    using assms(5) by (intro exI [of _ p']) (auto simp: heap_open_def act_simps open_chain.simps split: option.split)
qed

theorem heap_open_follows_chain_witness:
  "\<exists>h p p'. heap_create (fresh_pool 1) = (Ok h, p) \<and> heap_open 1 p = (Ok h, p')"
proof -
  obtain p where p: "heap_create (fresh_pool 1) = (Ok \<lparr>heap_pages = [1]\<rparr>, p)" "quiet p"
    "heap_inv (pool_view p) \<lparr>heap_pages = [1]\<rparr>"
    by (rule fresh_heap [of 1]) auto
  show ?thesis
    using heap_open_follows_chain [OF p(2), of "[1]" None] p(1,3) by (auto simp: heap_inv_def)
qed

section \<open>Deleted RIDs\<close>

text \<open>Any operation on a heap, with any result.\<close>

inductive heap_step :: "heap_file \<times> buffer_pool \<Rightarrow> heap_file \<times> buffer_pool \<Rightarrow> bool" where
  hs_insert: "heap_insert rec s = (r, s') \<Longrightarrow> heap_step s s'"
| hs_delete: "heap_delete h q p = (u, p') \<Longrightarrow> heap_step (h, p) (h, p')"
| hs_get: "heap_get h q p = (b, p') \<Longrightarrow> heap_step (h, p) (h, p')"
| hs_scan: "heap_scan h p = (recs, p') \<Longrightarrow> heap_step (h, p) (h, p')"
| hs_reopen: "first_page_id h = Ok pid \<Longrightarrow> heap_open pid p = (Ok h', p') \<Longrightarrow> heap_step (h, p) (h', p')"

definition heap_ok :: "heap_file \<times> buffer_pool \<Rightarrow> bool" where
  "heap_ok s \<longleftrightarrow> (case s of (h, p) \<Rightarrow> quiet p \<and> pool_writes p \<and> heap_inv (pool_view p) h)"

definition heap_map :: "rid \<Rightarrow> heap_file \<times> buffer_pool \<Rightarrow> bytes option" where
  "heap_map r s = (case s of (h, p) \<Rightarrow> heap_lookup (pool_view p) h r)"

definition heap_spent :: "rid \<Rightarrow> heap_file \<times> buffer_pool \<Rightarrow> bool" where
  "heap_spent r s \<longleftrightarrow> (case s of (h, p) \<Rightarrow> rid_page r \<in> set (heap_pages h)
     \<and> spent (unat (rid_slot r)) (rid_generation r) (slots_at (pool_view p) (rid_page r)))"

lemma scan_keeps:
  assumes "quiet p" and "heap_inv (pool_view p) h" and "heap_scan h p = (recs, p')"
  shows "quiet p' \<and> pool_view p' = pool_view p \<and> pool_writes p' = pool_writes p"
  using heap_scan_run [OF assms(1,2)] assms(3) by auto

lemma reopen_keeps:
  assumes "quiet p" and "heap_inv (pool_view p) h" and "first_page_id h = Ok pid" and "heap_open pid p = (Ok h', p')"
  shows "heap_pages h' = heap_pages h \<and> quiet p' \<and> pool_view p' = pool_view p \<and> pool_writes p' = pool_writes p"
proof -
  have "hd (heap_pages h) = pid"
    using assms(3) by (auto simp: first_page_id_def split: list.splits)
  then show ?thesis
    using heap_open_run [OF assms(1,2)] assms(4) by auto
qed

lemma spent_insert_or_same: "insert_or_same rec xs ys \<Longrightarrow> spent i g xs \<Longrightarrow> spent i g ys"
  by (auto simp: insert_or_same_def intro: spent_insert)

lemma heap_get_keeps:
  assumes "quiet p" and "heap_inv (pool_view p) h" and "heap_get h r p = (b, p')"
  shows "quiet p' \<and> pool_view p' = pool_view p \<and> pool_writes p' = pool_writes p"
proof (cases "rid_page r \<in> set (heap_pages h)")
  case False
  then show ?thesis using assms by (auto simp: heap_get_def ensure_owned_rid_def act_simps)
next
  case True
  obtain bs where "pool_view p (rid_page r) = Some bs"
    using heap_inv_page [OF assms(2) True] by blast
  then show ?thesis
    using pool.read [OF assms(1), of "rid_page r" bs H_Buffer "with_slotted_ref (\<lambda>sp. map_err H_Page (sp_get r sp))"] True assms(3)
    by (auto simp: heap_get_def ensure_owned_rid_def act_simps)
qed

lemma heap_delete_spent:
  assumes "quiet p" and "heap_inv (pool_view p) h" and "pool_writes p" and "heap_delete h r p = (Ok (), p1)"
  shows "heap_ok (h, p1) \<and> heap_spent r (h, p1)"
proof -
  have run: "quiet p1 \<and> pool_writes p1 \<and> heap_inv (pool_view p1) h \<and>
      (case heap_lookup (pool_view p) h r of
         Some b \<Rightarrow> \<forall>pid\<in>set (heap_pages h). slots_at (pool_view p1) pid = (if pid = rid_page r
            then spec_delete (unat (rid_slot r)) (rid_generation r) (slots_at (pool_view p) pid)
            else slots_at (pool_view p) pid)
       | None \<Rightarrow> False)"
    using heap_delete_run [OF assms(1-3), of r] assms(4) by (auto split: option.splits)
  then obtain b where "heap_lookup (pool_view p) h r = Some b" by (auto split: option.splits)
  then show ?thesis
    using run by (auto simp: heap_ok_def heap_spent_def heap_lookup_def split: if_splits intro: spent_delete)
qed

lemma heap_step_keeps:
  assumes ok: "heap_ok (h, p)" and step: "heap_step (h, p) s'"
  shows "heap_ok s' \<and> (heap_spent r (h, p) \<longrightarrow> heap_spent r s')"
proof -
  have inv: "quiet p" "heap_inv (pool_view p) h" "pool_writes p"
    using ok by (simp_all add: heap_ok_def)
  show ?thesis
    using step
  proof (cases rule: heap_step.cases)
    case (hs_insert rec res)
    obtain h' p' where s': "s' = (h', p')" by (cases s')
    have post: "quiet p' \<and> pool_writes p' \<and> heap_inv (pool_view p') h' \<and>
        (case res of
           Ok rid \<Rightarrow> (\<exists>new. heap_pages h' = heap_pages h @ new)
             \<and> (\<forall>pid\<in>set (heap_pages h). insert_or_same rec (slots_at (pool_view p) pid) (slots_at (pool_view p') pid))
         | Err e \<Rightarrow> h' = h \<and> pool_view p' = pool_view p
         | Panic \<Rightarrow> False)"
      using heap_insert_run [OF inv, of rec] hs_insert s' by (auto split: result.splits)
    then show ?thesis
      by (cases res) (auto simp: s' heap_ok_def heap_spent_def intro: spent_insert_or_same)
  next
    case (hs_delete q u p')
    have post: "quiet p' \<and> pool_writes p' \<and> heap_inv (pool_view p') h \<and>
        (case heap_lookup (pool_view p) h q of
           Some b \<Rightarrow> \<forall>pid\<in>set (heap_pages h). slots_at (pool_view p') pid = (if pid = rid_page q
              then spec_delete (unat (rid_slot q)) (rid_generation q) (slots_at (pool_view p) pid)
              else slots_at (pool_view p) pid)
         | None \<Rightarrow> pool_view p' = pool_view p)"
      using heap_delete_run [OF inv, of q] hs_delete by (auto split: option.splits)
    then show ?thesis
      using spent_other_delete
      by (cases "heap_lookup (pool_view p) h q")
        (auto simp: hs_delete(1) heap_ok_def heap_spent_def heap_lookup_def split: if_splits)
  next
    case (hs_get q b p')
    then show ?thesis
      using heap_get_keeps [OF inv(1,2)] inv hs_get by (auto simp: heap_ok_def heap_spent_def)
  next
    case (hs_scan recs p')
    then show ?thesis
      using scan_keeps [OF inv(1,2)] inv hs_scan by (auto simp: heap_ok_def heap_spent_def)
  next
    case (hs_reopen pid h' p')
    have k: "heap_pages h' = heap_pages h" "quiet p'" "pool_view p' = pool_view p" "pool_writes p' = pool_writes p"
      using reopen_keeps [OF inv(1,2) hs_reopen(2,3)] by simp_all
    then show ?thesis
      using inv(2,3) by (simp add: hs_reopen(1) heap_ok_def heap_spent_def heap_inv_def)
  qed
qed

interpretation heap: keyed_store heap_ok heap_step heap_map heap_spent
proof
  fix s s' :: "heap_file \<times> buffer_pool" and k :: rid
  assume ok: "heap_ok s"
  show "heap_map k s = None" if "heap_spent k s"
    using that by (auto simp: heap_map_def heap_spent_def heap_lookup_def spent_get)
  assume step: "heap_step s s'"
  show "heap_ok s'" and "heap_spent k s \<Longrightarrow> heap_spent k s'"
    using heap_step_keeps [of "fst s" "snd s" s' k] ok step by auto
qed

text \<open>C8. Stale RIDs of a heap stay dead: once a RID has been deleted, no sequence of inserts,
  deletes, lookups, scans and reopenings, successful or not, makes it resolve again, and the
  heap stays well formed all along.\<close>

theorem deleted_heap_rid_stays_dead:
  assumes "quiet p" and "heap_inv (pool_view p) h" and "pool_writes p"
    and "heap_delete h r p = (Ok (), p1)" and "heap_step\<^sup>*\<^sup>* (h, p1) (h2, p2)"
  shows "heap_inv (pool_view p2) h2 \<and> (\<exists>p3. heap_get h2 r p2 = (Err (H_Page (SP_InvalidRid r)), p3))"
proof -
  have "heap_ok (h, p1)" and spent: "heap_spent r (h, p1)"
    using heap_delete_spent [OF assms(1-4)] by simp_all
  note end_ok = heap.run_invar [OF assms(5) this(1)] and kept = heap.run_keeps [OF assms(5) this(1) spent]
  have gone: "heap_map r (h2, p2) = None"
    using heap.spent_forever [OF assms(5) \<open>heap_ok (h, p1)\<close> spent] .
  obtain p3 where "heap_get h2 r p2 = (Err (H_Page (SP_InvalidRid r)), p3)"
    using heap_get_run [of p2 h2 r] end_ok kept gone by (auto simp: heap_ok_def heap_map_def heap_spent_def)
  then show ?thesis using end_ok by (auto simp: heap_ok_def)
qed

theorem deleted_heap_rid_stays_dead_witness:
  "\<exists>h p h1 rid p1 p2 p3. heap_create (fresh_pool 1) = (Ok h, p) \<and> heap_insert [7] (h, p) = (Ok rid, (h1, p1))
     \<and> heap_delete h1 rid p1 = (Ok (), p2) \<and> heap_get h1 rid p2 = (Err (H_Page (SP_InvalidRid rid)), p3)"
proof -
  obtain p where p: "heap_create (fresh_pool 1) = (Ok \<lparr>heap_pages = [1]\<rparr>, p)" "quiet p" "pool_writes p"
    "heap_inv (pool_view p) \<lparr>heap_pages = [1]\<rparr>" "slots_at (pool_view p) 1 = []" "pool_next p = Some 2"
    by (rule fresh_heap [of 1]) auto
  obtain r h1 p1 where r: "heap_insert [7] (\<lparr>heap_pages = [1]\<rparr>, p) = (r, (h1, p1))" "quiet p1" "pool_writes p1"
      "heap_inv (pool_view p1) h1"
    and c: "case r of Ok rid \<Rightarrow> heap_lookup (pool_view p1) h1 rid = Some [7]
      | Err e \<Rightarrow> insert_refusal [7] \<lparr>heap_pages = [1]\<rparr> p e | Panic \<Rightarrow> False"
    using heap_insert_run [OF p(2,4,3), of "[7]"] by (force split: result.splits)
  have "\<not> insert_refusal [7] \<lparr>heap_pages = [1]\<rparr> p e" for e
    using p(5,6) by (intro insert_refusal_fresh) simp_all
  then obtain rid where rid: "r = Ok rid" "heap_lookup (pool_view p1) h1 rid = Some [7]"
    using c by (cases r) auto
  obtain p2 where d: "heap_delete h1 rid p1 = (Ok (), p2)"
    using heap_delete_run [OF r(2,4,3), of rid] rid(2) by auto
  have "heap_step\<^sup>*\<^sup>* (h1, p2) (h1, p2)" by blast
  from deleted_heap_rid_stays_dead [OF r(2,4,3) d this] show ?thesis
    using p(1) r(1) rid(1) d by blast
qed

section \<open>A full page\<close>

text \<open>A heap of one page that holds one record.\<close>

lemma filled_heap:
  assumes "length rec \<le> MAX_RECORD_SIZE"
  obtains p p1 where "heap_create (fresh_pool 1) = (Ok \<lparr>heap_pages = [1]\<rparr>, p)"
    "heap_insert rec (\<lparr>heap_pages = [1]\<rparr>, p) = (Ok (rid_new 1 0 1), (\<lparr>heap_pages = [1]\<rparr>, p1))"
    "quiet p1" "pool_writes p1" "heap_inv (pool_view p1) \<lparr>heap_pages = [1]\<rparr>" "slots_at (pool_view p1) 1 = [Live 1 rec]"
    "pool_next p1 = Some 2"
proof -
  let ?h = "\<lparr>heap_pages = [1]\<rparr>"
  obtain p where p: "heap_create (fresh_pool 1) = (Ok ?h, p)" "quiet p" "pool_writes p"
    "heap_inv (pool_view p) ?h" "slots_at (pool_view p) 1 = []" "pool_next p = Some 2"
    by (rule fresh_heap [of 1]) auto
  have wf: "\<And>q. q \<in> set [1] \<Longrightarrow> wf_at (pool_view p) q"
    using p(4) by (simp add: heap_inv_def)
  have out: "spec_insert_outcome rec [] = Ok (0, 1, [Live 1 rec])"
    using assms by (simp add: spec_insert_outcome_def spec_insert_def spec_first_reusable_def spec_free_def Let_def)
  obtain p1 bs where p1: "insert_into rec [1] p = (Ok (Some (rid_new 1 0 1)), p1)" "quiet p1" "pool_writes p1"
      "pool_view p1 = (pool_view p)(1 \<mapsto> bs)" "wf_layout bs" "slots_of bs = [Live 1 rec]" "link_of bs = link_at (pool_view p) 1"
      "pool_next p1 = Some 2"
    using insert_into_run [where pids = "[1]" and rec = rec, OF p(2,3) wf] out p(5,6)
    by (auto simp del: insert_into.simps)
  have "heap_insert rec (?h, p) = (Ok (rid_new 1 0 1), (?h, p1))"
    using p1(1) assms by (simp add: heap_insert_def on_pool_def act_simps)
  moreover have "heap_inv (pool_view p1) ?h"
    unfolding p1(4) by (rule heap_inv_update [OF p(4) p1(5)]) (simp_all add: p1(7))
  ultimately show ?thesis
    using that [OF p(1)] p1 by simp
qed

text \<open>C37. The full-page defect as a heap sees it: once the heap's first page has less free room
  than a slot entry and no slot to reuse, every insertion fails with a corruption error
  and stores nothing, however many identifiers and pages are left.\<close>

theorem heap_blocked_by_full_page:
  assumes "quiet p" and "heap_inv (pool_view p) h" and "pool_writes p" and "heap_pages h = pid # pids"
    and "spec_first_reusable (slots_at (pool_view p) pid) = None" and "spec_free (slots_at (pool_view p) pid) < SLOT_ENTRY_SIZE"
    and "length rec \<le> MAX_RECORD_SIZE"
  shows "\<exists>p'. heap_insert rec (h, p) =
      (Err (H_Page (SP_Corrupt ''page metadata and live records exceed page size'')), (h, p'))
    \<and> pool_view p' = pool_view p"
proof -
  let ?e = "SP_Corrupt ''page metadata and live records exceed page size''"
  have out: "spec_insert_outcome rec (slots_at (pool_view p) pid) = Err ?e"
    using assms(5-7) by (simp add: spec_insert_outcome_def)
  have wf: "\<And>q. q \<in> set (heap_pages h) \<Longrightarrow> wf_at (pool_view p) q"
    using assms(2) by (simp add: heap_inv_def)
  have choose: "choose_page rec (pool_view p) (heap_pages h) = Some pid"
    using out assms(4) by simp
  obtain p' where "insert_into rec (heap_pages h) p = (Err (H_Page ?e), p')" "pool_view p' = pool_view p"
    using insert_into_run [where pids = "heap_pages h" and rec = rec, OF assms(1,3) wf] out choose
    by (auto simp del: insert_into.simps choose_page.simps)
  then show ?thesis
    using assms(7) by (auto simp: heap_insert_def on_pool_def act_simps)
qed

theorem heap_blocked_by_full_page_witness:
  "\<exists>h p rid p1 p2. heap_create (fresh_pool 1) = (Ok h, p) \<and> heap_insert (replicate 8152 0) (h, p) = (Ok rid, (h, p1))
     \<and> heap_insert [1] (h, p1) = (Err (H_Page (SP_Corrupt ''page metadata and live records exceed page size'')), (h, p2))"
proof -
  let ?h = "\<lparr>heap_pages = [1]\<rparr>"
  obtain p p1 where p: "heap_create (fresh_pool 1) = (Ok ?h, p)"
      "heap_insert (replicate 8152 0) (?h, p) = (Ok (rid_new 1 0 1), (?h, p1))" "quiet p1" "pool_writes p1"
      "heap_inv (pool_view p1) ?h" "slots_at (pool_view p1) 1 = [Live 1 (replicate 8152 0)]"
    by (rule filled_heap [of "replicate 8152 0"]) auto
  obtain p2 where "heap_insert [1] (?h, p1) =
      (Err (H_Page (SP_Corrupt ''page metadata and live records exceed page size'')), (?h, p2))"
    using heap_blocked_by_full_page [OF p(3,5,4), of 1 "[]" "[1]"] p(6)
    by (auto simp: spec_first_reusable_def spec_free_def)
  then show ?thesis using p(1,2) by blast
qed

section \<open>Stale handles\<close>

text \<open>The first insertion when no page of the handle has room: a page is appended.\<close>

lemma heap_insert_appends:
  assumes "quiet p" and "pages_chain (pool_view p) h e" and "pool_writes p" and "length rec \<le> MAX_RECORD_SIZE"
    and "choose_page rec (pool_view p) (heap_pages h) = None" and "pool_next p = Some n"
  shows "\<exists>p' h'. heap_insert rec (h, p) = (Ok (rid_new n 0 1), (h', p')) \<and> quiet p' \<and> pool_writes p'
    \<and> heap_inv (pool_view p') h' \<and> heap_pages h' = heap_pages h @ [n] \<and> pool_next p' = id_after n
    \<and> (\<forall>pid\<in>set (heap_pages h). slots_at (pool_view p') pid = slots_at (pool_view p) pid)"
proof -
  have wf: "\<And>pid. pid \<in> set (heap_pages h) \<Longrightarrow> wf_at (pool_view p) pid"
    using assms(2) by (simp add: pages_chain_def)
  obtain p1 where p1: "insert_into rec (heap_pages h) p = (Ok None, p1)" "quiet p1" "pool_writes p1"
      "pool_next p1 = pool_next p" "pool_view p1 = pool_view p"
    using insert_into_run [where pids = "heap_pages h" and rec = rec, OF assms(1,3) wf] assms(5) by auto
  have "heap_insert rec (h, p) = append_page_with_record rec (h, p1)"
    using p1(1) assms(4) by (simp add: heap_insert_def on_pool_def act_simps)
  then show ?thesis
    using append_run [OF p1(2), of h e rec n] assms(2,4,6) p1(3-5) by metis
qed

lemma choose_page_cong:
  "(\<And>pid. pid \<in> set pids \<Longrightarrow> slots_at V pid = slots_at W pid) \<Longrightarrow> choose_page rec V pids = choose_page rec W pids"
  by (induction pids) (auto split: result.split slotted_page_error.split)

text \<open>C36. Two handles on one heap lose records: nothing keeps a heap from being opened twice, and each
  handle keeps its own list of pages. When both append a page, the second one links its page
  where the first had linked its own: the record inserted through the first handle is in no
  page the heap reaches any more, and its RID is refused as outside the heap.\<close>

theorem stale_handle_loses_record:
  assumes "quiet p" and "heap_inv (pool_view p) h" and "pool_writes p"
    and "length a \<le> MAX_RECORD_SIZE" and "length b \<le> MAX_RECORD_SIZE"
    and "choose_page a (pool_view p) (heap_pages h) = None" and "choose_page b (pool_view p) (heap_pages h) = None"
    and "pool_next p = Some n" and "id_after n = Some m"
  shows "\<exists>ra rb h1 h2 p1 p2 p3 p4. heap_insert a (h, p) = (Ok ra, (h1, p1)) \<and> heap_insert b (h, p1) = (Ok rb, (h2, p2))
    \<and> heap_open (hd (heap_pages h)) p2 = (Ok h2, p3) \<and> heap_get h2 ra p3 = (Err (H_RidOutsideHeap ra), p4)"
proof -
  let ?ra = "rid_new n 0 1"
  obtain p1 h1 where p1: "heap_insert a (h, p) = (Ok ?ra, (h1, p1))" "quiet p1" "pool_writes p1" "heap_inv (pool_view p1) h1"
      "heap_pages h1 = heap_pages h @ [n]" "pool_next p1 = id_after n"
      "\<forall>pid\<in>set (heap_pages h). slots_at (pool_view p1) pid = slots_at (pool_view p) pid"
    using heap_insert_appends [OF assms(1) _ assms(3,4,6,8), of None] assms(2) by (auto simp: heap_inv_chain)
  have pages: "heap_pages h \<noteq> []" using assms(2) by (auto simp: heap_inv_def)
  then have chain: "pages_chain (pool_view p1) h (Some n)"
    using p1(4,5) by (simp add: heap_inv_def pages_chain_def linked_prefix)
  have "choose_page b (pool_view p1) (heap_pages h) = None"
    using assms(7) choose_page_cong [of "heap_pages h" "pool_view p1" "pool_view p" b] p1(7) by simp
  then obtain p2 h2 where p2: "heap_insert b (h, p1) = (Ok (rid_new m 0 1), (h2, p2))" "quiet p2"
      "heap_inv (pool_view p2) h2" "heap_pages h2 = heap_pages h @ [m]"
    using heap_insert_appends [OF p1(2) chain p1(3) assms(5)] p1(6) assms(9) by auto
  obtain p3 where p3: "heap_open (hd (heap_pages h)) p2 = (Ok h2, p3)" "quiet p3" "pool_view p3 = pool_view p2"
    using heap_open_run [OF p2(2,3)] p2(4) pages by auto
  have "n \<notin> set (heap_pages h2)"
    using p1(4,5) p2(4) assms(9) by (auto simp: heap_inv_def id_after_def split: if_splits)
  then have "heap_get h2 ?ra p3 = (Err (H_RidOutsideHeap ?ra), p3)"
    by (simp add: heap_get_def ensure_owned_rid_def rid_new_def act_simps)
  then show ?thesis using p1(1) p2(1) p3(1) by blast
qed

theorem stale_handle_loses_record_witness:
  "\<exists>h p rid p1 ra rb h1 h2 p2 p3 p4 p5. heap_create (fresh_pool 1) = (Ok h, p) \<and> heap_insert (replicate 8000 0) (h, p) = (Ok rid, (h, p1))
     \<and> heap_insert (replicate 200 1) (h, p1) = (Ok ra, (h1, p2)) \<and> heap_insert (replicate 200 2) (h, p2) = (Ok rb, (h2, p3))
     \<and> heap_open 1 p3 = (Ok h2, p4) \<and> heap_get h2 ra p4 = (Err (H_RidOutsideHeap ra), p5)"
proof -
  let ?h = "\<lparr>heap_pages = [1]\<rparr>"
  obtain p p1 where p: "heap_create (fresh_pool 1) = (Ok ?h, p)"
      "heap_insert (replicate 8000 0) (?h, p) = (Ok (rid_new 1 0 1), (?h, p1))" "quiet p1" "pool_writes p1"
      "heap_inv (pool_view p1) ?h" "slots_at (pool_view p1) 1 = [Live 1 (replicate 8000 0)]" "pool_next p1 = Some 2"
    by (rule filled_heap [of "replicate 8000 0"]) auto
  have "choose_page (replicate 200 x) (pool_view p1) (heap_pages ?h) = None" for x
    by (simp add: p(6) spec_insert_outcome_def spec_first_reusable_def spec_free_def)
  then have "\<exists>ra rb h1 h2 p2 p3 p4 p5. heap_insert (replicate 200 1) (?h, p1) = (Ok ra, (h1, p2))
      \<and> heap_insert (replicate 200 2) (?h, p2) = (Ok rb, (h2, p3))
      \<and> heap_open (hd (heap_pages ?h)) p3 = (Ok h2, p4) \<and> heap_get h2 ra p4 = (Err (H_RidOutsideHeap ra), p5)"
    by (intro stale_handle_loses_record [OF p(3,5,4), of _ _ 2 3]) (simp_all add: p(7) id_after_def)
  then show ?thesis using p(1,2) by fastforce
qed

end
