(* ===== verification/Database.thy ===== *)
theory Database
  imports Catalog_Props Heap_Props
begin

text \<open>
  A database in use: a catalog, the heap handle of each table, and the pool. Every operation a
  client can run on it is a step; the invariant holds along every run, whatever the steps
  return, and tables never change or lose their identifiers.
\<close>

section \<open>Steps\<close>

type_synonym database = "catalog \<times> (str \<Rightarrow> heap_file) \<times> buffer_pool"

text \<open>One handle is kept per table. An operation on a table runs on its handle; opening a table
  replaces the handle, opening the catalog again replaces the catalog.\<close>

inductive db_step :: "database \<Rightarrow> database \<Rightarrow> bool" where
  db_create: "schema_wf s \<Longrightarrow> create_table s (c, p) = (r, (c', p')) \<Longrightarrow>
    db_step (c, H, p) (c', (case r of Ok md \<Rightarrow> H(schema_name s := \<lparr>heap_pages = [heap_first_page_id md]\<rparr>) | _ \<Rightarrow> H), p')"
| db_insert: "catalog_table c n \<noteq> None \<Longrightarrow> heap_insert rec (H n, p) = (r, (h', p')) \<Longrightarrow> db_step (c, H, p) (c, H(n := h'), p')"
| db_delete: "catalog_table c n \<noteq> None \<Longrightarrow> heap_delete (H n) rid p = (u, p') \<Longrightarrow> db_step (c, H, p) (c, H, p')"
| db_get: "catalog_table c n \<noteq> None \<Longrightarrow> heap_get (H n) rid p = (b, p') \<Longrightarrow> db_step (c, H, p) (c, H, p')"
| db_scan: "catalog_table c n \<noteq> None \<Longrightarrow> heap_scan (H n) p = (recs, p') \<Longrightarrow> db_step (c, H, p) (c, H, p')"
| db_open_table: "open_table_heap c n p = (r, p') \<Longrightarrow>
    db_step (c, H, p) (c, (case r of Ok h \<Rightarrow> H(n := h) | _ \<Rightarrow> H), p')"
| db_open: "catalog_open p = (r, p') \<Longrightarrow> db_step (c, H, p) ((case r of Ok c' \<Rightarrow> c' | _ \<Rightarrow> c), H, p')"

inductive_cases db_stepE: "db_step (c, H, p) s'"

definition db_ok :: "database \<Rightarrow> bool" where
  "db_ok s \<longleftrightarrow> (case s of (c, H, p) \<Rightarrow> catalog_ok p c H \<and> pool_writes p)"

definition db_table :: "str \<Rightarrow> database \<Rightarrow> table_metadata option" where
  "db_table n s = catalog_table (fst s) n"

definition db_data :: "str \<Rightarrow> database \<Rightarrow> rid \<Rightarrow> bytes option" where
  "db_data n s = (case s of (c, H, p) \<Rightarrow> heap_lookup (pool_view p) (H n))"

section \<open>Operations on the heap of a table\<close>

lemma table_insert:
  assumes ok: "catalog_ok p c H" and rw: "pool_writes p" and table: "catalog_table c n \<noteq> None"
    and run: "heap_insert rec (H n, p) = (r, (h', p'))"
  shows "catalog_ok p' c (H(n := h'))" and "pool_writes p'"
    and "m \<noteq> n \<Longrightarrow> catalog_table c m \<noteq> None \<Longrightarrow> heap_lookup (pool_view p') (H m) = heap_lookup (pool_view p) (H m)"
proof -
  obtain md where md: "RBT.lookup (catalog_tables c) n = Some md"
    using table by (auto simp: catalog_table_def)
  have post: "quiet p' \<and> pool_writes p' \<and> heap_inv (pool_view p') h' \<and> heap_frame (pool_view p) (H n) (pool_view p') h'"
    using heap_insert_run [OF catalog_okD(1) [OF ok] catalog_ok_table(1) [OF ok md] rw, of rec] run by auto
  then show "pool_writes p'" by simp
  have q: "quiet p'" "heap_inv (pool_view p') h'" "heap_frame (pool_view p) (H n) (pool_view p') h'" using post by simp_all
  note T = table_change [OF ok md q heap_insert_root [OF run]]
  show "catalog_ok p' c (H(n := h'))" by (rule T(1))
  show "heap_lookup (pool_view p') (H m) = heap_lookup (pool_view p) (H m)" if "m \<noteq> n" "catalog_table c m \<noteq> None"
    using T(2) that by (simp add: catalog_table_def)
qed

lemma table_delete:
  assumes ok: "catalog_ok p c H" and rw: "pool_writes p" and table: "catalog_table c n \<noteq> None"
    and run: "heap_delete (H n) rid p = (u, p')"
  shows "catalog_ok p' c H" and "pool_writes p'"
    and "m \<noteq> n \<Longrightarrow> catalog_table c m \<noteq> None \<Longrightarrow> heap_lookup (pool_view p') (H m) = heap_lookup (pool_view p) (H m)"
proof -
  obtain md where md: "RBT.lookup (catalog_tables c) n = Some md"
    using table by (auto simp: catalog_table_def)
  have post: "quiet p' \<and> pool_writes p' \<and> heap_inv (pool_view p') (H n) \<and> heap_frame (pool_view p) (H n) (pool_view p') (H n)"
    using heap_delete_run [OF catalog_okD(1) [OF ok] catalog_ok_table(1) [OF ok md] rw, of rid] run
    by (auto split: option.splits)
  then show "pool_writes p'" by simp
  have q: "quiet p'" "heap_inv (pool_view p') (H n)" "heap_frame (pool_view p) (H n) (pool_view p') (H n)" using post by simp_all
  note T = table_change [OF ok md q keepsD [OF keeps_heap(4) run]]
  show "catalog_ok p' c H" using T(1) by simp
  show "heap_lookup (pool_view p') (H m) = heap_lookup (pool_view p) (H m)" if "m \<noteq> n" "catalog_table c m \<noteq> None"
    using T(2) that by (simp add: catalog_table_def)
qed

lemma table_read:
  assumes ok: "catalog_ok p c H" and table: "catalog_table c n \<noteq> None"
  shows "heap_get (H n) rid p = (b, p') \<Longrightarrow> catalog_ok p' c H \<and> pool_view p' = pool_view p \<and> pool_writes p' = pool_writes p"
    and "heap_scan (H n) p = (recs, p') \<Longrightarrow> catalog_ok p' c H \<and> pool_view p' = pool_view p \<and> pool_writes p' = pool_writes p"
proof -
  obtain md where md: "RBT.lookup (catalog_tables c) n = Some md"
    using table by (auto simp: catalog_table_def)
  note inv = catalog_okD(1) [OF ok] catalog_ok_table(1) [OF ok md]
  show "catalog_ok p' c H \<and> pool_view p' = pool_view p \<and> pool_writes p' = pool_writes p" if "heap_get (H n) rid p = (b, p')"
    using heap_get_keeps [OF inv that] keepsD [OF keeps_heap(3) that] catalog_ok_view [OF ok] by simp
  show "catalog_ok p' c H \<and> pool_view p' = pool_view p \<and> pool_writes p' = pool_writes p" if "heap_scan (H n) p = (recs, p')"
    using scan_keeps [OF inv that] keepsD [OF keeps_heap(5) that] catalog_ok_view [OF ok] by simp
qed

section \<open>Every step keeps the database sound\<close>

text \<open>What one step keeps: the invariant, the tables there are, and, for every table but the one
  named, its data.\<close>

definition db_keeps :: "str option \<Rightarrow> database \<Rightarrow> database \<Rightarrow> bool" where
  "db_keeps touched s s' \<longleftrightarrow> db_ok s' \<and> (\<forall>n md. db_table n s = Some md \<longrightarrow> db_table n s' = Some md)
     \<and> (\<forall>n. db_table n s \<noteq> None \<and> touched \<noteq> Some n \<longrightarrow> db_data n s' = db_data n s)"

lemma create_keeps:
  assumes "db_ok (c, H, p)" and "schema_wf s" and "create_table s (c, p) = (r, (c', p'))"
  shows "db_keeps None (c, H, p)
    (c', (case r of Ok md \<Rightarrow> H(schema_name s := \<lparr>heap_pages = [heap_first_page_id md]\<rparr>) | _ \<Rightarrow> H), p')"
proof -
  have "create_outcome s c p H r c' p'"
    using create_table_run [of p c H s] assms by (auto simp: db_ok_def)
  then show ?thesis
    by (cases r) (auto simp: create_outcome_def db_keeps_def db_ok_def db_table_def db_data_def catalog_table_def)
qed

lemma catalog_open_keeps:
  assumes "db_ok (c, H, p)" and "catalog_open p = (r, p')"
  shows "db_keeps None (c, H, p) ((case r of Ok c' \<Rightarrow> c' | _ \<Rightarrow> c), H, p')"
  using catalog_open_run [of p c H] assms by (auto simp: db_keeps_def db_ok_def db_table_def db_data_def catalog_table_def)

lemma open_table_keeps:
  assumes "db_ok (c, H, p)" and "open_table_heap c n p = (r, p')"
  shows "db_keeps None (c, H, p) (c, (case r of Ok h \<Rightarrow> H(n := h) | _ \<Rightarrow> H), p')"
  using open_table_heap_run [of p c H n] assms
  by (auto simp: db_keeps_def db_ok_def db_table_def db_data_def split: option.splits)

lemma db_step_keeps:
  assumes ok: "db_ok (c, H, p)" and step: "db_step (c, H, p) s'"
  shows "\<exists>touched. db_keeps touched (c, H, p) s'"
  using step
proof (elim db_stepE, goal_cases)
  case (1 s r c' p')
  then show ?thesis using create_keeps [OF ok 1(2,3)] by blast
next
  case (2 n rec r h' p')
  then show ?thesis
    using table_insert [of p c H n rec r h' p'] ok
    by (intro exI [of _ "Some n"]) (auto simp: db_keeps_def db_ok_def db_table_def db_data_def)
next
  case (3 n rid u p')
  then show ?thesis
    using table_delete [of p c H n rid u p'] ok
    by (intro exI [of _ "Some n"]) (auto simp: db_keeps_def db_ok_def db_table_def db_data_def)
next
  case (4 n rid b p')
  then show ?thesis
    using table_read(1) [of p c H n rid b p'] ok by (auto simp: db_keeps_def db_ok_def db_table_def db_data_def)
next
  case (5 n recs p')
  then show ?thesis
    using table_read(2) [of p c H n recs p'] ok by (auto simp: db_keeps_def db_ok_def db_table_def db_data_def)
next
  case (6 n r p')
  then show ?thesis using open_table_keeps [OF ok 6(2)] by blast
next
  case (7 r p')
  then show ?thesis using catalog_open_keeps [OF ok 7(2)] by blast
qed

section \<open>Table identifiers\<close>

text \<open>The key of a table is its name with its identifier; it is spent when the identifier belongs
  to another name.\<close>

definition table_at :: "str \<times> table_id \<Rightarrow> database \<Rightarrow> table_metadata option" where
  "table_at k s = (case db_table (fst k) s of
     Some md \<Rightarrow> if metadata_id md = snd k then Some md else None | None \<Rightarrow> None)"

definition id_taken :: "str \<times> table_id \<Rightarrow> database \<Rightarrow> bool" where
  "id_taken k s \<longleftrightarrow> (\<exists>m md. m \<noteq> fst k \<and> db_table m s = Some md \<and> metadata_id md = snd k)"

interpretation tables: keyed_store db_ok db_step table_at id_taken
proof
  fix s s' :: database and k :: "str \<times> table_id"
  assume ok: "db_ok s"
  obtain c H p where s: "s = (c, H, p)" by (cases s)
  show "table_at k s = None" if "id_taken k s"
  proof -
    have ids: "ids_match (RBT.lookup (catalog_tables c)) (next_table_id c)"
      using ok by (simp add: db_ok_def s catalog_ok_def)
    then show ?thesis
      using that by (auto simp: table_at_def id_taken_def db_table_def s catalog_table_def ids_match_def split: option.split)
  qed
  assume step: "db_step s s'"
  obtain touched where keep: "db_keeps touched s s'"
    using db_step_keeps [of c H p s'] ok step s by blast
  then show "db_ok s'" by (simp add: db_keeps_def)
  show "id_taken k s'" if "id_taken k s"
    using that keep by (auto simp: id_taken_def db_keeps_def)
qed

end
