(* ===== verification/Database_Props.thy ===== *)
theory Database_Props
  imports Database
begin

text \<open>
  The properties of a database in use: the invariant along every run, identifiers that are never
  reused, isolation of the tables, and the catalog opened again.
\<close>

lemma db_keeps_run:
  assumes "db_step\<^sup>*\<^sup>* s s'" and "db_ok s"
  shows "\<forall>n md. db_table n s = Some md \<longrightarrow> db_table n s' = Some md"
  using assms
proof (induction rule: rtranclp_induct)
  case (step t u)
  have "db_ok t" using tables.run_invar [OF step.hyps(1) step.prems] .
  then obtain touched where "db_keeps touched t u"
    using db_step_keeps [of "fst t" "fst (snd t)" "snd (snd t)" u] step.hyps(2) by auto
  then show ?case using step.IH [OF step.prems] by (simp add: db_keeps_def)
qed simp

lemma fresh_db:
  obtains c p where "catalog_create (fresh_pool 1) = (Ok c, p)" "db_ok (c, H, p)" "catalog_ok p c H" "pool_writes p"
    "catalog_tables c = RBT.empty" "next_table_id c = 1" "catalog_heap c = \<lparr>heap_pages = [1]\<rparr>" "pool_next p = Some 2"
    "slots_at (pool_view p) 1 = []"
proof -
  obtain c p where f: "catalog_create (fresh_pool 1) = (Ok c, p)" "pool_writes p" "\<And>H. catalog_ok p c H" "pool_next p = Some 2"
    "catalog_heap c = \<lparr>heap_pages = [1]\<rparr>" "catalog_tables c = RBT.empty" "next_table_id c = 1" "slots_at (pool_view p) 1 = []"
    by (rule fresh_catalog [of 1]) auto
  then have "db_ok (c, H, p)" by (simp add: db_ok_def)
  then show ?thesis by (rule that [OF f(1) _ f(3,2,6,7,5,4,8)])
qed

text \<open>A database with one table.\<close>

lemma sample_db:
  obtains c p c' p' md H where "catalog_create (fresh_pool 1) = (Ok c, p)" "create_table sample_schema (c, p) = (Ok md, (c', p'))"
    "catalog_ok p' c' H" "pool_writes p'" "catalog_table c' [116] = Some md" "metadata_id md = TableId 1" "db_ok (c, H, p)"
    "metadata_schema md = sample_schema" "db_step (c, H, p) (c', H, p')" "pool_next p' \<noteq> None"
    "H [116] = \<lparr>heap_pages = [heap_first_page_id md]\<rparr>" "slots_at (pool_view p') (heap_first_page_id md) = []"
proof -
  obtain c p where c: "catalog_create (fresh_pool 1) = (Ok c, p)" "db_ok (c, (\<lambda>_. undefined), p)" "pool_writes p"
    "catalog_ok p c (\<lambda>_. undefined)" "catalog_tables c = RBT.empty" "next_table_id c = 1" "catalog_heap c = \<lparr>heap_pages = [1]\<rparr>"
    "pool_next p = Some 2" "slots_at (pool_view p) 1 = []"
    by (rule fresh_db)
  obtain r c' p' where r: "create_table sample_schema (c, p) = (r, (c', p'))" and out: "create_outcome sample_schema c p (\<lambda>_. undefined) r c' p'"
    using create_table_run [OF c(4,3) sample_schema_wf] by blast
  obtain md where md: "r = Ok md"
    using out sample_not_refused [OF c(5,6,7,8,9)] by (cases r) (auto simp: create_outcome_def)
  have name: "schema_name sample_schema = [116]" by (simp add: sample_schema_def)
  let ?H = "\<lambda>_. \<lparr>heap_pages = [heap_first_page_id md]\<rparr>"
  have tables: "RBT.lookup (catalog_tables c') = [[116] \<mapsto> md]"
    using out md c(5) name by (simp add: create_outcome_def)
  have ok: "catalog_ok p' c' ((\<lambda>_. undefined)([116] := \<lparr>heap_pages = [heap_first_page_id md]\<rparr>))"
    using out md name by (simp add: create_outcome_def)
  have "catalog_ok p' c' ?H"
    using ok tables by (auto simp: catalog_ok_def heaps_match_def split: if_splits)
  moreover have "db_ok (c, ?H, p)"
    using c(2,5) by (simp add: db_ok_def catalog_ok_def heaps_match_def)
  moreover have "db_step (c, ?H, p) (c', ?H([116] := \<lparr>heap_pages = [heap_first_page_id md]\<rparr>), p')"
    using db_create [OF sample_schema_wf r, of ?H] md name by simp
  moreover have "pool_next p' \<noteq> None"
    using out md c(8) by (auto simp: create_outcome_def id_after_def)
  ultimately show ?thesis
    using that [of c p md c' p' ?H] c(1,6) r md out tables
    by (simp add: create_outcome_def catalog_table_def fun_upd_idem)
qed

section \<open>Runs\<close>

text \<open>C2. A database stays sound: along every run of table creations, insertions, deletions, lookups,
  scans and openings, whatever they return, the catalog agrees with its records, every table
  has a well-formed heap of its own, no guard is left behind, and every table that was created
  keeps its identifier, its schema and the first page of its heap.\<close>

theorem database_stays_sound:
  assumes "catalog_ok p c H" and "pool_writes p" and "db_step\<^sup>*\<^sup>* (c, H, p) (c', H', p')"
  shows "catalog_ok p' c' H' \<and> (\<forall>n md. catalog_table c n = Some md \<longrightarrow> catalog_table c' n = Some md)"
proof -
  have ok: "db_ok (c, H, p)" using assms(1,2) by (simp add: db_ok_def)
  have "db_ok (c', H', p')" using tables.run_invar [OF assms(3) ok] .
  then show ?thesis
    using db_keeps_run [OF assms(3) ok] by (simp add: db_ok_def db_table_def)
qed

theorem database_stays_sound_witness:
  "\<exists>c p md c' p' H. catalog_create (fresh_pool 1) = (Ok c, p) \<and> create_table sample_schema (c, p) = (Ok md, (c', p'))
     \<and> catalog_ok p' c' H"
proof -
  obtain c p md c' p' H where s: "catalog_create (fresh_pool 1) = (Ok c, p)" "create_table sample_schema (c, p) = (Ok md, (c', p'))"
    "db_ok (c, H, p)" "db_step (c, H, p) (c', H, p')"
    by (rule sample_db) blast
  have "catalog_ok p' c' H"
    using database_stays_sound [of p c H c' H p'] s(3,4) by (auto simp: db_ok_def)
  then show ?thesis using s(1,2) by blast
qed

text \<open>C22. Table identifiers are never reused: once a table has an identifier, no table of another name
  has it at any later time.\<close>

theorem table_ids_never_reused:
  assumes "catalog_ok p c H" and "pool_writes p" and "catalog_table c m = Some md"
    and "db_step\<^sup>*\<^sup>* (c, H, p) (c', H', p')" and "catalog_table c' n = Some md'" and "metadata_id md' = metadata_id md"
  shows "n = m \<and> md' = md"
proof -
  have ok: "db_ok (c, H, p)" using assms(1,2) by (simp add: db_ok_def)
  have "n = m"
  proof (rule ccontr)
    assume "n \<noteq> m"
    then have "id_taken (n, metadata_id md) (c, H, p)"
      using assms(3) by (auto simp: id_taken_def db_table_def)
    then have "table_at (n, metadata_id md) (c', H', p') = None"
      using tables.spent_forever [OF assms(4) ok] by blast
    then show False using assms(5,6) by (simp add: table_at_def db_table_def)
  qed
  then show ?thesis
    using db_keeps_run [OF assms(4) ok] assms(3,5) by (simp add: db_table_def)
qed

theorem table_ids_never_reused_witness:
  "\<exists>c p md c' p'. catalog_create (fresh_pool 1) = (Ok c, p) \<and> create_table sample_schema (c, p) = (Ok md, (c', p'))
     \<and> (\<forall>n md'. catalog_table c' n = Some md' \<and> metadata_id md' = TableId 1 \<longrightarrow> n = [116])"
proof -
  obtain c p md c' p' H where s: "catalog_create (fresh_pool 1) = (Ok c, p)" "create_table sample_schema (c, p) = (Ok md, (c', p'))"
    "catalog_ok p' c' H" "pool_writes p'" "catalog_table c' [116] = Some md" "metadata_id md = TableId 1"
    by (rule sample_db) blast
  have "db_step\<^sup>*\<^sup>* (c', H, p') (c', H, p')" by blast
  then have "\<forall>n md'. catalog_table c' n = Some md' \<and> metadata_id md' = TableId 1 \<longrightarrow> n = [116]"
    using table_ids_never_reused [OF s(3-5)] s(6) by metis
  then show ?thesis using s(1,2) by blast
qed

section \<open>Isolation\<close>

text \<open>C15. Tables are isolated: an insertion into one table or a deletion from it, successful or not,
  leaves the records of every other table and of the catalog as they were, and the database
  sound.\<close>

theorem tables_isolated:
  assumes "catalog_ok p c H" and "pool_writes p" and "catalog_table c n \<noteq> None"
  shows "(case heap_insert rec (H n, p) of (r, (h', p')) \<Rightarrow> catalog_ok p' c (H(n := h'))
      \<and> (\<forall>m. m \<noteq> n \<and> catalog_table c m \<noteq> None \<longrightarrow> heap_lookup (pool_view p') (H m) = heap_lookup (pool_view p) (H m)))
    \<and> (case heap_delete (H n) rid p of (u, p') \<Rightarrow> catalog_ok p' c H
      \<and> (\<forall>m. m \<noteq> n \<and> catalog_table c m \<noteq> None \<longrightarrow> heap_lookup (pool_view p') (H m) = heap_lookup (pool_view p) (H m)))"
  using table_insert(1,3) [OF assms] table_delete(1,3) [OF assms] by (auto split: prod.split)

theorem tables_isolated_witness:
  "\<exists>c p md c' p' H. catalog_create (fresh_pool 1) = (Ok c, p) \<and> create_table sample_schema (c, p) = (Ok md, (c', p'))
     \<and> (case heap_insert [1, 2] (H [116], p') of (r, (h', p'')) \<Rightarrow> catalog_ok p'' c' (H([116] := h')))"
proof -
  obtain c p md c' p' H where s: "catalog_create (fresh_pool 1) = (Ok c, p)" "create_table sample_schema (c, p) = (Ok md, (c', p'))"
    "catalog_ok p' c' H" "pool_writes p'" "catalog_table c' [116] = Some md"
    by (rule sample_db) blast
  have "case heap_insert [1, 2] (H [116], p') of (r, (h', p'')) \<Rightarrow> catalog_ok p'' c' (H([116] := h'))"
    using tables_isolated [OF s(3,4), of "[116]" "[1, 2]"] s(5) by (auto split: prod.splits)
  then show ?thesis using s(1,2) by (intro exI conjI)
qed

section \<open>Opening the catalog\<close>

text \<open>C23. Opening the catalog of a sound database again gives the same catalog: the same heap, the
  same tables, in the order of their names, and the same next identifier. The contents of every page,
  as the clients of the pool see them, stay the same, and so does the database.\<close>

theorem catalog_reopens:
  assumes "catalog_ok p c H"
  shows "\<exists>c' p'. catalog_open p = (Ok c', p') \<and> catalog_heap c' = catalog_heap c \<and> catalog_table c' = catalog_table c
    \<and> tables_in_order c' = tables_in_order c \<and> sorted (map table_name (tables_in_order c'))
    \<and> next_table_id c' = next_table_id c \<and> catalog_ok p' c' H \<and> pool_view p' = pool_view p"
proof -
  obtain t p' where t: "catalog_open p = (Ok (c\<lparr>catalog_tables := t\<rparr>), p')" "RBT.lookup t = RBT.lookup (catalog_tables c)"
      "catalog_ok p' (c\<lparr>catalog_tables := t\<rparr>) H" "pool_view p' = pool_view p"
    using catalog_open_run [OF assms] by blast
  have entries: "RBT.entries t = RBT.entries (catalog_tables c)"
    using t(2) RBT.entries_lookup by blast
  have "table_name (snd e) = fst e" if "e \<in> set (RBT.entries t)" for e
  proof -
    have "RBT.lookup t (fst e) = Some (snd e)" using that RBT.lookup_in_tree by (metis prod.collapse)
    then show ?thesis using catalog_ok_table(4) [OF assms] t(2) by simp
  qed
  then have names: "map table_name (map snd (RBT.entries t)) = map fst (RBT.entries t)"
    by simp
  have "sorted (map table_name (map snd (RBT.entries t)))"
    unfolding names by (rule RBT.sorted_entries)
  then show ?thesis
    using t entries by (intro exI [of _ "c\<lparr>catalog_tables := t\<rparr>"] exI [of _ p'])
      (simp add: catalog_table_def fun_eq_iff tables_in_order_def)
qed

theorem catalog_reopens_witness:
  "\<exists>c p md c' p' c2 p2. catalog_create (fresh_pool 1) = (Ok c, p) \<and> create_table sample_schema (c, p) = (Ok md, (c', p'))
     \<and> catalog_open p' = (Ok c2, p2) \<and> catalog_table c2 [116] = Some md"
proof -
  obtain c p md c' p' H where s: "catalog_create (fresh_pool 1) = (Ok c, p)" "create_table sample_schema (c, p) = (Ok md, (c', p'))"
    "catalog_ok p' c' H" "catalog_table c' [116] = Some md"
    by (rule sample_db) blast
  then show ?thesis
    using catalog_reopens [OF s(3)] by metis
qed

text \<open>What the loop that loads the records maintains, whatever they are.\<close>

definition loaded_ok :: "table_map \<Rightarrow> table_id set \<Rightarrow> u32 \<Rightarrow> bool" where
  "loaded_ok t ids hi \<longleftrightarrow>
     (\<forall>n md. RBT.lookup t n = Some md \<longrightarrow> table_name md = n \<and> metadata_wf md \<and> metadata_id md \<in> ids \<and> id_of md \<le> hi)
     \<and> (\<forall>a b x y. RBT.lookup t a = Some x \<and> RBT.lookup t b = Some y \<and> metadata_id x = metadata_id y \<longrightarrow> a = b)"

lemma loaded_ok_insert:
  assumes "loaded_ok t ids hi" and "metadata_wf md" and "metadata_id md \<notin> ids"
  shows "loaded_ok (RBT.insert (table_name md) md t) (insert (metadata_id md) ids) (max hi (id_of md))"
proof -
  have "metadata_id x \<noteq> metadata_id md" if "RBT.lookup t a = Some x" for a x
    using assms(1,3) that unfolding loaded_ok_def by metis
  then show ?thesis
    using assms unfolding loaded_ok_def by (auto simp: le_max_iff_disj split: if_splits)
qed

lemma load_tables_ok:
  assumes "loaded_ok t ids hi" and "load_tables recs t ids hi p = (Ok (t', hi'), p')"
  shows "\<exists>ids'. loaded_ok t' ids' hi'"
  using assms
proof (induction recs arbitrary: t ids hi p)
  case Nil
  then show ?case by (auto simp: act_simps)
next
  case (Cons rec recs)
  obtain md where md: "decode_table_record (record_bytes rec) = Ok md" "metadata_id md \<notin> ids"
    using Cons.prems(2) by (cases "decode_table_record (record_bytes rec)") (auto simp: act_simps split: if_splits)
  obtain p1 where run: "load_tables recs (RBT.insert (table_name md) md t) (insert (metadata_id md) ids) (max hi (id_of md)) p1
      = (Ok (t', hi'), p')"
    using Cons.prems(2) md by (auto simp: act_simps split: if_splits prod.splits result.splits)
  have "metadata_wf md" using decode_table_record_inv [OF md(1)] by simp
  then show ?case
    using Cons.IH [OF loaded_ok_insert [OF Cons.prems(1) _ md(2)] run] by simp
qed

text \<open>C24. Whatever bytes the file holds, and whatever calls fail, a catalog that opens is consistent:
  every table is filed under its own name with a well-formed schema, no two tables share an
  identifier, and the next identifier is above all of them unless they are used up.\<close>

theorem opened_catalog_consistent:
  assumes "catalog_open p = (Ok c, p')"
  shows "(\<forall>n md. catalog_table c n = Some md \<longrightarrow> table_name md = n \<and> metadata_wf md
      \<and> (id_of md < next_table_id c \<or> next_table_id c = - 1))
    \<and> (\<forall>a b x y. catalog_table c a = Some x \<and> catalog_table c b = Some y \<and> metadata_id x = metadata_id y \<longrightarrow> a = b)"
proof -
  obtain recs t hi p1 p2 where run: "load_tables recs RBT.empty {} 0 p1 = (Ok (t, hi), p2)"
    and c: "catalog_tables c = t" "next_table_id c = max (saturating_add_word hi 1) FIRST_TABLE_ID"
    using assms by (auto simp: catalog_open_def act_simps split: prod.splits result.splits option.splits)
  obtain ids where ok: "loaded_ok t ids hi"
    using load_tables_ok [OF _ run, of] by (auto simp: loaded_ok_def)
  have "id < next_table_id c \<or> next_table_id c = - 1" if "id \<le> hi" for id
  proof (cases "hi = - 1")
    case True
    then have "saturating_add_word hi 1 = - 1" "\<not> (- 1 :: u32) \<le> 1"
      using unat_u32_max [of "- 1"] by (simp_all add: saturating_add_word_def word_le_nat_alt)
    then show ?thesis by (simp add: c(2) max_def)
  next
    case False
    then have "saturating_add_word hi 1 = hi + 1" "hi < hi + 1"
      using unat_u32_less [of hi] unat_u32_max [of hi] by (simp_all add: saturating_add_word_def word_less_nat_alt unat_plus_one)
    then have "id < hi + 1" using that by (blast intro: le_less_trans)
    then show ?thesis using \<open>saturating_add_word hi 1 = hi + 1\<close> by (simp only: c(2) less_max_iff_disj) simp
  qed
  then show ?thesis
    using ok unfolding loaded_ok_def catalog_table_def c(1) by blast
qed

theorem opened_catalog_consistent_witness:
  "\<exists>c p md c' p' c2 p2. catalog_create (fresh_pool 1) = (Ok c, p) \<and> create_table sample_schema (c, p) = (Ok md, (c', p'))
     \<and> catalog_open p' = (Ok c2, p2) \<and> (\<forall>n md. catalog_table c2 n = Some md \<longrightarrow> table_name md = n)"
proof -
  obtain c p md c' p' H where s: "catalog_create (fresh_pool 1) = (Ok c, p)" "create_table sample_schema (c, p) = (Ok md, (c', p'))"
    "catalog_ok p' c' H"
    by (rule sample_db) blast
  obtain t p2 where "catalog_open p' = (Ok (c'\<lparr>catalog_tables := t\<rparr>), p2)"
    using catalog_open_run [OF s(3)] by blast
  then show ?thesis
    using opened_catalog_consistent s(1,2) by blast
qed

end
