(* ===== verification/Config.thy ===== *)
theory Config
  imports Utf8
begin

text \<open>
  The configuration, \<^verbatim>\<open>src/config.rs\<close>, and the command line, \<^verbatim>\<open>src/main.rs\<close>. The YAML parser is a
  crate outside the repository and reading a file depends on the machine: both are arguments of
  the definitions that use them. Paths are the byte strings of a Unix system, with the parts of
  \<^verbatim>\<open>std::path\<close> the code calls.
\<close>

section \<open>Paths\<close>

type_synonym path = bytes

abbreviation (input) SLASH :: u8 where "SLASH \<equiv> 47"
abbreviation (input) DOT :: u8 where "DOT \<equiv> 46"

definition is_absolute :: "path \<Rightarrow> bool" where
  "is_absolute p \<longleftrightarrow> p \<noteq> [] \<and> hd p = SLASH"

text \<open>The bytes before the components: the root, or a leading \<open>.\<close>.\<close>

definition leading_dot :: "path \<Rightarrow> bool" where
  "leading_dot p \<longleftrightarrow> p \<noteq> [] \<and> hd p = DOT \<and> (tl p = [] \<or> hd (tl p) = SLASH)"

definition before_body :: "path \<Rightarrow> usize" where
  "before_body p = (if is_absolute p \<or> leading_dot p then 1 else 0)"

text \<open>The last piece between separators after those bytes, and the bytes it takes up with the
  separator before it. Empty pieces and \<open>.\<close> are no components.\<close>

definition last_piece :: "path \<Rightarrow> path" where
  "last_piece p = rev (takeWhile (\<lambda>b. b \<noteq> SLASH) (rev (drop (before_body p) p)))"

definition last_piece_size :: "path \<Rightarrow> usize" where
  "last_piece_size p = length (last_piece p) + (if SLASH \<in> set (drop (before_body p) p) then 1 else 0)"

definition is_component :: "path \<Rightarrow> bool" where
  "is_component piece \<longleftrightarrow> piece \<noteq> [] \<and> piece \<noteq> [DOT]"

lemma last_piece_size_pos: "before_body p < length p \<Longrightarrow> 0 < last_piece_size p"
proof -
  assume less: "before_body p < length p"
  have "last_piece p \<noteq> []" if "SLASH \<notin> set (drop (before_body p) p)"
  proof -
    have "takeWhile (\<lambda>b. b \<noteq> SLASH) (rev (drop (before_body p) p)) = rev (drop (before_body p) p)"
      using that by (intro takeWhile_eq_all_conv [THEN iffD2]) auto
    then have "last_piece p = drop (before_body p) p" by (simp only: last_piece_def rev_rev_ident)
    then show ?thesis using less by simp
  qed
  then show ?thesis by (auto simp: last_piece_size_def)
qed

function trim_right :: "path \<Rightarrow> path" where
  "trim_right p =
     (if before_body p < length p \<and> \<not> is_component (last_piece p)
      then trim_right (take (length p - last_piece_size p) p) else p)"
  by pat_completeness auto
termination
proof (relation "measure length")
  fix p assume "before_body p < length p \<and> \<not> is_component (last_piece p)"
  then have "0 < last_piece_size p" "0 < length p"
    using last_piece_size_pos [of p] by auto
  then show "(take (length p - last_piece_size p) p, p) \<in> measure length" by simp
qed simp

declare trim_right.simps [simp del]

definition parent :: "path \<Rightarrow> path option" where
  "parent p =
     (let q = trim_right p in
      if before_body q < length q then Some (trim_right (take (length q - last_piece_size q) q))
      else if is_absolute q then None
      else if leading_dot q then Some []
      else None)"

definition join :: "path \<Rightarrow> path \<Rightarrow> path" where
  "join base p =
     (if is_absolute p then p
      else (if base \<noteq> [] \<and> last base \<noteq> SLASH then base @ [SLASH] else base) @ p)"

section \<open>The configuration\<close>

datatype log_level = LL_Error | LL_Warn | LL_Info | LL_Debug | LL_Trace

record storage_config =
  storage_path :: path
  cache_size_mb :: u64
  create_if_missing :: bool
  storage_read_only :: bool

record durability_config =
  sync_on_commit :: bool
  page_checksums :: bool

record logging_config =
  log_level_of :: log_level

record config =
  config_version :: u32
  config_storage :: storage_config
  config_durability :: durability_config
  config_logging :: logging_config

abbreviation (input) SUPPORTED_CONFIG_VERSION :: u32 where "SUPPORTED_CONFIG_VERSION \<equiv> 1"
abbreviation (input) MIN_CACHE_SIZE_MB :: u64 where "MIN_CACHE_SIZE_MB \<equiv> 1"
abbreviation (input) MAX_CACHE_SIZE_MB :: u64 where "MAX_CACHE_SIZE_MB \<equiv> 1048576"

datatype ('io, 'yaml) config_error =
    CF_Read path 'io
  | CF_Parse path 'yaml
  | CF_UnsupportedVersion u32 u32
  | CF_InvalidValue string string

definition config_validate :: "config \<Rightarrow> (unit, ('io, 'yaml) config_error) result" where
  "config_validate c =
     (if config_version c \<noteq> SUPPORTED_CONFIG_VERSION
      then Err (CF_UnsupportedVersion (config_version c) SUPPORTED_CONFIG_VERSION)
      else if storage_path (config_storage c) = []
      then Err (CF_InvalidValue ''storage.path'' ''must not be empty'')
      else if \<not> (MIN_CACHE_SIZE_MB \<le> cache_size_mb (config_storage c) \<and> cache_size_mb (config_storage c) \<le> MAX_CACHE_SIZE_MB)
      then Err (CF_InvalidValue ''storage.cache_size_mb'' ''must be between 1 and 1048576 MiB'')
      else if storage_read_only (config_storage c) \<and> create_if_missing (config_storage c)
      then Err (CF_InvalidValue ''storage.create_if_missing'' ''cannot be true when storage.read_only is true'')
      else Ok ())"

text \<open>A product of \<^verbatim>\<open>u64\<close> values; the overflow is a panic.\<close>

definition mul_u64 :: "u64 \<Rightarrow> u64 \<Rightarrow> (u64, 'e) result" where
  "mul_u64 a b = (if unat a * unat b < 18446744073709551616 then Ok (a * b) else Panic)"

definition cache_size_bytes :: "config \<Rightarrow> (u64, 'e) result" where
  "cache_size_bytes c = and_then (mul_u64 (cache_size_mb (config_storage c)) 1024) (\<lambda>k. mul_u64 k 1024)"

definition resolve_storage_path :: "path \<Rightarrow> config \<Rightarrow> config" where
  "resolve_storage_path config_path c =
     (if is_absolute (storage_path (config_storage c)) then c
      else
        let config_directory = (case parent config_path of Some d \<Rightarrow> d | None \<Rightarrow> [DOT])
        in c\<lparr>config_storage := (config_storage c)\<lparr>storage_path := join config_directory (storage_path (config_storage c))\<rparr>\<rparr>)"

definition config_load ::
  "(path \<Rightarrow> (str, 'io) result) \<Rightarrow> (str \<Rightarrow> (config, 'yaml) result) \<Rightarrow> path \<Rightarrow> (config, ('io, 'yaml) config_error) result"
where
  "config_load read_to_string from_str p =
     and_then (map_err (CF_Read p) (read_to_string p)) (\<lambda>source.
     and_then (map_err (CF_Parse p) (from_str source)) (\<lambda>c.
     and_then (config_validate c) (\<lambda>_.
     Ok (resolve_storage_path p c))))"

section \<open>The command line\<close>

text \<open>The messages of \<^verbatim>\<open>run\<close>, before they are rendered, and the lines it prints.\<close>

datatype ('io, 'yaml) run_error =
    MissingConfigPath
  | UnknownArgument str
  | ArgumentNotUtf8
  | ConfigFailed "('io, 'yaml) config_error"

datatype run_line = UsageLine | ValidLine path

definition ARG_CONFIG :: bytes where "ARG_CONFIG = [45, 45, 99, 111, 110, 102, 105, 103]"
definition ARG_HELP :: bytes where "ARG_HELP = [45, 45, 104, 101, 108, 112]"
definition ARG_H :: bytes where "ARG_H = [45, 104]"
definition DEFAULT_CONFIG_PATH :: path where
  "DEFAULT_CONFIG_PATH = [110, 111, 114, 116, 104, 46, 121, 97, 109, 108]"

text \<open>The loop over the arguments: the path of the configuration, or \<open>None\<close> when the usage was asked
  for.\<close>

fun run_arguments :: "path \<Rightarrow> bytes list \<Rightarrow> (path option, ('io, 'yaml) run_error) result" where
  "run_arguments config_path [] = Ok (Some config_path)"
| "run_arguments config_path (argument # args) =
     (if \<not> is_str argument then Err ArgumentNotUtf8
      else if argument = ARG_CONFIG then
        (case args of [] \<Rightarrow> Err MissingConfigPath | p # rest \<Rightarrow> run_arguments p rest)
      else if argument = ARG_HELP \<or> argument = ARG_H then Ok None
      else Err (UnknownArgument argument))"

definition run ::
  "(path \<Rightarrow> (str, 'io) result) \<Rightarrow> (str \<Rightarrow> (config, 'yaml) result) \<Rightarrow> bytes list
    \<Rightarrow> run_line list \<times> (unit, ('io, 'yaml) run_error) result"
where
  "run read_to_string from_str args =
     (case run_arguments DEFAULT_CONFIG_PATH args of
        Err e \<Rightarrow> ([], Err e)
      | Panic \<Rightarrow> ([], Panic)
      | Ok None \<Rightarrow> ([UsageLine], Ok ())
      | Ok (Some p) \<Rightarrow>
          (case config_load read_to_string from_str p of
             Err e \<Rightarrow> ([], Err (ConfigFailed e))
           | Panic \<Rightarrow> ([], Panic)
           | Ok c \<Rightarrow> ([ValidLine (storage_path (config_storage c))], Ok ())))"

end
