(* ===== verification/Messages.thy ===== *)
theory Messages
  imports Catalog Config
begin

text \<open>
  What the program says: the \<^verbatim>\<open>Display\<close> and \<^verbatim>\<open>Error::source\<close> of every error type under \<^verbatim>\<open>src/\<close>, and the
  output of \<^verbatim>\<open>main\<close>. Texts are byte strings. The operating system's text of an I/O error, the parser's
  text of a YAML error, and the Unicode table behind \<^verbatim>\<open>char::escape_debug\<close> are arguments.
\<close>

section \<open>Formatting\<close>

text \<open>A literal piece of a format string, and \<^verbatim>\<open>{}\<close> on integers.\<close>

definition lit :: "string \<Rightarrow> str" where
  "lit s = map of_char s"

fun digits :: "nat \<Rightarrow> nat \<Rightarrow> str" where
  "digits base n =
     (if base < 2 \<or> n < base then [if n < 10 then 48 + of_nat n else 87 + of_nat n]
      else digits base (n div base) @ [if n mod base < 10 then 48 + of_nat (n mod base) else 87 + of_nat (n mod base)])"

declare digits.simps [simp del]

abbreviation show_usize :: "usize \<Rightarrow> str" where "show_usize n \<equiv> digits 10 n"

definition show_word :: "'w::len word \<Rightarrow> str" where
  "show_word w = digits 10 (unat w)"

text \<open>\<^verbatim>\<open>{:?}\<close> on a \<^verbatim>\<open>str\<close>: quoted, with the characters that are not plain escaped.\<close>

definition plain_char :: "(unicode_char \<Rightarrow> bool) \<Rightarrow> unicode_char \<Rightarrow> bool" where
  "plain_char table c \<longleftrightarrow> (if c < 0x80 then 0x20 \<le> c \<and> c < 0x7F \<and> c \<noteq> 0x22 \<and> c \<noteq> 0x5C else table c)"

definition escape_char :: "unicode_char \<Rightarrow> str" where
  "escape_char c =
     (if c = 0 then [92, 48] else if c = 9 then [92, 116] else if c = 13 then [92, 114] else if c = 10 then [92, 110]
      else if c = 0x22 \<or> c = 0x5C then [92, ucast c]
      else [92, 117, 123] @ digits 16 (unat c) @ [125])"

function debug_chars :: "(unicode_char \<Rightarrow> bool) \<Rightarrow> str \<Rightarrow> str" where
  "debug_chars table s =
     (case utf8_step s of
        None \<Rightarrow> []
      | Some (c, s') \<Rightarrow>
          (if plain_char table c then take (length s - length s') s else escape_char c) @ debug_chars table s')"
  by pat_completeness auto
termination
  by (relation "measure (\<lambda>(_, s). length s)") (auto dest: utf8_step_shorter)

declare debug_chars.simps [simp del]

definition debug_str :: "(unicode_char \<Rightarrow> bool) \<Rightarrow> str \<Rightarrow> str" where
  "debug_str table s = [34] @ debug_chars table s @ [34]"

text \<open>\<^verbatim>\<open>Path::display\<close>: each ill-formed sequence becomes U+FFFD. \<open>ill_formed\<close> is the number of bytes of
  the first one.\<close>

definition ill_formed :: "bytes \<Rightarrow> usize" where
  "ill_formed s =
     (case s of
        a # b # c # rest \<Rightarrow>
          if in_range 0xF0 0xF4 a \<and> second_of_four a b then if cont_byte c then 3 else 2
          else if in_range 0xE0 0xEF a \<and> second_of_three a b then 2
          else 1
      | [a, b] \<Rightarrow>
          if in_range 0xF0 0xF4 a \<and> second_of_four a b \<or> in_range 0xE0 0xEF a \<and> second_of_three a b then 2 else 1
      | _ \<Rightarrow> 1)"

function display_path :: "path \<Rightarrow> str" where
  "display_path s =
     (if s = [] then []
      else case utf8_step s of
        Some (c, s') \<Rightarrow> take (length s - length s') s @ display_path s'
      | None \<Rightarrow> [0xEF, 0xBF, 0xBD] @ display_path (drop (ill_formed s) s))"
  by pat_completeness auto
termination
  by (relation "measure length")
    (auto dest: utf8_step_shorter simp: ill_formed_def neq_Nil_conv split: list.split)

declare display_path.simps [simp del]

text \<open>The derived \<^verbatim>\<open>Debug\<close> of \<^verbatim>\<open>Rid\<close>.\<close>

definition debug_rid :: "rid \<Rightarrow> str" where
  "debug_rid r = lit ''Rid { page_id: PageId('' @ show_word (rid_page r) @ lit ''), slot_id: SlotId('' @ show_word (rid_slot r)
     @ lit ''), generation: '' @ show_word (rid_generation r) @ lit '' }''"

section \<open>Display\<close>

fun display_page_error :: "page_error \<Rightarrow> str" where
  "display_page_error (OutOfBounds offset len) =
     lit ''page access at offset '' @ show_usize offset @ lit '' with length '' @ show_usize len
     @ lit '' exceeds '' @ show_usize PAGE_SIZE @ lit '' bytes''"

fun display_slotted_page_error :: "slotted_page_error \<Rightarrow> str" where
  "display_slotted_page_error (SP_Page e) = display_page_error e"
| "display_slotted_page_error (SP_Corrupt reason) = lit ''corrupt heap page: '' @ lit reason"
| "display_slotted_page_error (SP_RecordTooLarge sz) =
     lit ''record of '' @ show_usize sz @ lit '' bytes is too large for a heap page''"
| "display_slotted_page_error (SP_NoSpace required available) =
     lit ''heap page has insufficient space: '' @ show_usize required @ lit '' bytes required, ''
     @ show_usize available @ lit '' available''"
| "display_slotted_page_error (SP_InvalidRid rid) = lit ''RID does not identify a live row: '' @ debug_rid rid"
| "display_slotted_page_error SP_ReadOnly = lit ''heap page was borrowed read-only''"

fun display_disk_error :: "(io_error \<Rightarrow> str) \<Rightarrow> disk_error \<Rightarrow> str" where
  "display_disk_error io (D_Io operation path source) =
     lit ''failed to '' @ lit operation @ lit '' at '' @ display_path (lit path) @ lit '': '' @ io source"
| "display_disk_error io (D_InvalidFileLength len) =
     lit ''invalid database file length '' @ show_word len @ lit ''; it must be a positive multiple of '' @ show_usize PAGE_SIZE"
| "display_disk_error io (D_Corrupt reason) = lit ''corrupt database header: '' @ lit reason"
| "display_disk_error io D_ReadOnly = lit ''database was opened read-only''"
| "display_disk_error io D_HeaderPageIsReserved = lit ''database header page is reserved''"
| "display_disk_error io (D_PageNotAllocated pid) = lit ''page '' @ show_word pid @ lit '' has not been allocated''"
| "display_disk_error io D_PageIdExhausted = lit ''database has exhausted allocatable page IDs''"
| "display_disk_error io (D_CatalogRootAlreadySet pid) = lit ''database catalog root is already page '' @ show_word pid"

fun display_pool_error :: "(io_error \<Rightarrow> str) \<Rightarrow> pool_error \<Rightarrow> str" where
  "display_pool_error io (BP_Disk e) = display_disk_error io e"
| "display_pool_error io BP_ZeroCapacity = lit ''buffer pool capacity must be greater than zero''"
| "display_pool_error io BP_AllFramesPinned = lit ''all buffer-pool frames are pinned''"
| "display_pool_error io BP_PoolBorrowed = lit ''buffer pool is already mutably borrowed''"
| "display_pool_error io (BP_PageBorrowed pid) = lit ''cached page '' @ show_word pid @ lit '' is already borrowed''"
| "display_pool_error io (BP_PageNotCached pid) = lit ''page '' @ show_word pid @ lit '' is not cached''"
| "display_pool_error io (BP_PinCountExhausted pid) = lit ''page '' @ show_word pid @ lit '' pin count is exhausted''"
| "display_pool_error io BP_ReadOnly = lit ''database was opened read-only''"

fun display_heap_error :: "(io_error \<Rightarrow> str) \<Rightarrow> heap_error \<Rightarrow> str" where
  "display_heap_error io (H_Buffer e) = display_pool_error io e"
| "display_heap_error io (H_Page e) = display_slotted_page_error e"
| "display_heap_error io (H_RecordTooLarge sz maximum) =
     lit ''record is '' @ show_usize sz @ lit '' bytes; maximum is '' @ show_usize maximum"
| "display_heap_error io (H_PageChainCycle pid) = lit ''heap page chain contains a cycle at page '' @ show_word pid"
| "display_heap_error io (H_RidOutsideHeap rid) = lit ''RID belongs to a different heap file: '' @ debug_rid rid"

fun display_row_error :: "row_error \<Rightarrow> str" where
  "display_row_error (RE_WrongValueCount expected found) =
     lit ''row has '' @ show_usize found @ lit '' values; expected '' @ show_usize expected"
| "display_row_error (RE_TypeMismatch column expected found) =
     lit ''column '' @ column @ lit '' expects '' @ lit (data_type_name expected) @ lit '', found '' @ lit found"
| "display_row_error (RE_NullNotAllowed column) = lit ''column '' @ column @ lit '' does not allow null''"
| "display_row_error (RE_ColumnOutOfBounds index column_count) =
     lit ''column index '' @ show_usize index @ lit '' is out of bounds for '' @ show_usize column_count @ lit '' columns''"
| "display_row_error (RE_RowTooLarge sz maximum) =
     lit ''encoded row is '' @ show_usize sz @ lit '' bytes; maximum is '' @ show_usize maximum"
| "display_row_error (RE_Corrupt reason) = lit ''corrupt row encoding: '' @ lit reason"

fun display_schema_error :: "(unicode_char \<Rightarrow> bool) \<Rightarrow> schema_error \<Rightarrow> str" where
  "display_schema_error table (SE_InvalidIdentifier kind identifier) =
     lit ''invalid '' @ lit kind @ lit '' identifier: '' @ debug_str table identifier"
| "display_schema_error table SE_NoColumns = lit ''table must contain at least one column''"
| "display_schema_error table (SE_TooManyColumns cnt maximum) =
     lit ''table has '' @ show_usize cnt @ lit '' columns; maximum is '' @ show_usize maximum"
| "display_schema_error table (SE_DuplicateColumn name) = lit ''duplicate column: '' @ name"
| "display_schema_error table SE_MissingPrimaryKey = lit ''table must have exactly one primary key''"
| "display_schema_error table SE_MultiplePrimaryKeys = lit ''table cannot have more than one primary key''"
| "display_schema_error table (SE_NullablePrimaryKey name) = lit ''primary-key column '' @ name @ lit '' cannot be nullable''"
| "display_schema_error table (SE_SchemaTooWide minimum maximum) =
     lit ''schema requires at least '' @ show_usize minimum @ lit '' bytes per row; maximum is '' @ show_usize maximum"
| "display_schema_error table (SE_CorruptEncoding reason) = lit ''invalid schema encoding: '' @ lit reason"

fun display_catalog_error :: "(io_error \<Rightarrow> str) \<Rightarrow> (unicode_char \<Rightarrow> bool) \<Rightarrow> catalog_error \<Rightarrow> str" where
  "display_catalog_error io table (CE_Buffer e) = display_pool_error io e"
| "display_catalog_error io table (CE_Heap e) = display_heap_error io e"
| "display_catalog_error io table (CE_Schema e) = display_schema_error table e"
| "display_catalog_error io table (CE_AlreadyInitialized pid) =
     lit ''database catalog is already initialized at page '' @ show_word pid"
| "display_catalog_error io table CE_NotInitialized = lit ''database catalog is not initialized''"
| "display_catalog_error io table (CE_DuplicateTableName name) = lit ''table already exists: '' @ name"
| "display_catalog_error io table (CE_DuplicateTableId i) = lit ''duplicate table ID: '' @ show_word (table_id_get i)"
| "display_catalog_error io table (CE_TableNotFound name) = lit ''table does not exist: '' @ name"
| "display_catalog_error io table CE_TableIdExhausted = lit ''catalog has exhausted table IDs''"
| "display_catalog_error io table (CE_TableRecordTooLarge sz maximum) =
     lit ''encoded table record is '' @ show_usize sz @ lit '' bytes; maximum is '' @ show_usize maximum"
| "display_catalog_error io table (CE_CorruptRecord reason) = lit ''corrupt catalog record: '' @ lit reason"

fun display_config_error :: "('io \<Rightarrow> str) \<Rightarrow> ('yaml \<Rightarrow> str) \<Rightarrow> ('io, 'yaml) config_error \<Rightarrow> str" where
  "display_config_error io yaml (CF_Read p source) = lit ''failed to read '' @ display_path p @ lit '': '' @ io source"
| "display_config_error io yaml (CF_Parse p source) = lit ''invalid YAML in '' @ display_path p @ lit '': '' @ yaml source"
| "display_config_error io yaml (CF_UnsupportedVersion found supported) =
     lit ''unsupported configuration version '' @ show_word found @ lit ''; North supports version '' @ show_word supported"
| "display_config_error io yaml (CF_InvalidValue field reason) = lit ''invalid '' @ lit field @ lit '': '' @ lit reason"

section \<open>Sources\<close>

text \<open>\<^verbatim>\<open>dyn Error\<close>: an error of any of the types, and what \<^verbatim>\<open>Error::source\<close> returns for it.\<close>

datatype ('io, 'yaml) dyn_error =
    Dyn_Io io_error
  | Dyn_ReadIo 'io
  | Dyn_Yaml 'yaml
  | Dyn_Page page_error
  | Dyn_Slotted slotted_page_error
  | Dyn_Disk disk_error
  | Dyn_Pool pool_error
  | Dyn_Heap heap_error
  | Dyn_Row row_error
  | Dyn_Schema schema_error
  | Dyn_Catalog catalog_error
  | Dyn_Config "('io, 'yaml) config_error"

definition source_slotted :: "slotted_page_error \<Rightarrow> ('io, 'yaml) dyn_error option" where
  "source_slotted e = (case e of SP_Page f \<Rightarrow> Some (Dyn_Page f) | _ \<Rightarrow> None)"

definition source_disk :: "disk_error \<Rightarrow> ('io, 'yaml) dyn_error option" where
  "source_disk e = (case e of D_Io operation path f \<Rightarrow> Some (Dyn_Io f) | _ \<Rightarrow> None)"

definition source_pool :: "pool_error \<Rightarrow> ('io, 'yaml) dyn_error option" where
  "source_pool e = (case e of BP_Disk f \<Rightarrow> Some (Dyn_Disk f) | _ \<Rightarrow> None)"

definition source_heap :: "heap_error \<Rightarrow> ('io, 'yaml) dyn_error option" where
  "source_heap e = (case e of H_Buffer f \<Rightarrow> Some (Dyn_Pool f) | H_Page f \<Rightarrow> Some (Dyn_Slotted f) | _ \<Rightarrow> None)"

definition source_catalog :: "catalog_error \<Rightarrow> ('io, 'yaml) dyn_error option" where
  "source_catalog e =
     (case e of CE_Buffer f \<Rightarrow> Some (Dyn_Pool f) | CE_Heap f \<Rightarrow> Some (Dyn_Heap f) | CE_Schema f \<Rightarrow> Some (Dyn_Schema f) | _ \<Rightarrow> None)"

definition source_config :: "('io, 'yaml) config_error \<Rightarrow> ('io, 'yaml) dyn_error option" where
  "source_config e =
     (case e of CF_Read p f \<Rightarrow> Some (Dyn_ReadIo f) | CF_Parse p f \<Rightarrow> Some (Dyn_Yaml f)
      | CF_UnsupportedVersion found supported \<Rightarrow> None | CF_InvalidValue field reason \<Rightarrow> None)"

fun error_source :: "('io, 'yaml) dyn_error \<Rightarrow> ('io, 'yaml) dyn_error option" where
  "error_source (Dyn_Slotted e) = source_slotted e"
| "error_source (Dyn_Disk e) = source_disk e"
| "error_source (Dyn_Pool e) = source_pool e"
| "error_source (Dyn_Heap e) = source_heap e"
| "error_source (Dyn_Catalog e) = source_catalog e"
| "error_source (Dyn_Config e) = source_config e"
| "error_source _ = None"

section \<open>The output of the program\<close>

text \<open>The strings \<^verbatim>\<open>run\<close> returns as errors and the lines it prints.\<close>

fun run_message :: "('io \<Rightarrow> str) \<Rightarrow> ('yaml \<Rightarrow> str) \<Rightarrow> ('io, 'yaml) run_error \<Rightarrow> str" where
  "run_message io yaml MissingConfigPath = lit ''--config requires a path''"
| "run_message io yaml (UnknownArgument other) = lit ''unknown argument: '' @ other"
| "run_message io yaml ArgumentNotUtf8 = lit ''arguments must be valid UTF-8''"
| "run_message io yaml (ConfigFailed e) = display_config_error io yaml e"

fun line_text :: "run_line \<Rightarrow> str" where
  "line_text UsageLine = lit ''Usage: north [--config <path>]''"
| "line_text (ValidLine p) = lit ''North configuration is valid (database: '' @ display_path p @ lit '')''"

text \<open>\<^verbatim>\<open>main\<close>: the lines on standard output, the lines on standard error, and whether the process succeeds.\<close>

definition north_main ::
  "('io \<Rightarrow> str) \<Rightarrow> ('yaml \<Rightarrow> str) \<Rightarrow> (path \<Rightarrow> (str, 'io) result) \<Rightarrow> (str \<Rightarrow> (config, 'yaml) result) \<Rightarrow> bytes list
    \<Rightarrow> (str list \<times> str list \<times> bool, unit) result"
where
  "north_main io yaml read_to_string from_str args =
     (case run read_to_string from_str args of
        (out, Ok _) \<Rightarrow> Ok (map line_text out, [], True)
      | (out, Err e) \<Rightarrow> Ok (map line_text out, [lit ''north: '' @ run_message io yaml e], False)
      | (out, Panic) \<Rightarrow> Panic)"

end
