(* ===== verification/Config_Props.thy ===== *)
theory Config_Props
  imports Config
begin

text \<open>
  The properties of the configuration: what a configuration that loads satisfies, where the
  database lies relative to the configuration, and what the command line means.
\<close>

section \<open>Paths\<close>

lemma last_piece_size_le: "last_piece_size p \<le> length p - before_body p"
proof -
  let ?t = "drop (before_body p) p"
  have "length (takeWhile (\<lambda>b. b \<noteq> SLASH) (rev ?t)) \<le> length ?t"
    by (metis length_rev length_takeWhile_le)
  moreover have "length (takeWhile (\<lambda>b. b \<noteq> SLASH) (rev ?t)) < length ?t" if "SLASH \<in> set ?t"
  proof -
    have "takeWhile (\<lambda>b. b \<noteq> SLASH) (rev ?t) \<noteq> rev ?t"
      using that by (metis set_rev set_takeWhileD)
    then show ?thesis
      using length_takeWhile_le [of "\<lambda>b. b \<noteq> SLASH" "rev ?t"]
      by (metis length_rev le_neq_implies_less takeWhile_eq_take take_all_iff order_refl)
  qed
  ultimately show ?thesis
    by (auto simp: last_piece_size_def last_piece_def)
qed

lemma absolute_take: "is_absolute p \<Longrightarrow> is_absolute (take (length p - last_piece_size p) p)"
  using last_piece_size_le [of p] by (cases p) (auto simp: is_absolute_def before_body_def take_Cons split: nat.split)

lemma absolute_trim: "is_absolute p \<Longrightarrow> is_absolute (trim_right p)"
proof (induction p rule: trim_right.induct)
  case (1 p)
  then show ?case using absolute_take [of p] by (subst trim_right.simps) auto
qed

lemma absolute_parent: "is_absolute p \<Longrightarrow> parent p = Some d \<Longrightarrow> is_absolute d"
  by (auto simp: parent_def Let_def split: if_splits intro!: absolute_trim absolute_take)

lemma absolute_join: "is_absolute base \<Longrightarrow> is_absolute (join base p)"
  by (auto simp: is_absolute_def join_def)

text \<open>The parent of a file in a directory is the directory.\<close>

lemma parent_of_file:
  assumes dir: "dir \<noteq> []" "trim_right dir = dir" and name: "is_component name" "SLASH \<notin> set name"
  shows "parent (dir @ SLASH # name) = Some dir"
proof -
  let ?p = "dir @ SLASH # name"
  have "leading_dot ?p \<longleftrightarrow> leading_dot dir" "is_absolute ?p \<longleftrightarrow> is_absolute dir"
    using dir(1) by (cases dir; cases "tl dir"; force simp: leading_dot_def is_absolute_def)+
  then have bb: "before_body ?p = before_body dir" by (simp add: before_body_def)
  have le: "before_body dir \<le> length dir"
    using dir(1) by (simp add: before_body_def Suc_le_eq)
  then have t: "drop (before_body ?p) ?p = drop (before_body dir) dir @ SLASH # name"
    by (simp add: bb)
  have "takeWhile (\<lambda>b. b \<noteq> SLASH) (rev name @ [SLASH] @ rev (drop (before_body dir) dir)) = rev name"
    using name(2) by (subst takeWhile_append2) auto
  then have piece: "last_piece ?p = name"
    unfolding last_piece_def t by simp
  have size: "last_piece_size ?p = Suc (length name)"
    unfolding last_piece_size_def t piece by simp
  have "trim_right ?p = ?p"
    using name(1) piece by (subst trim_right.simps) simp
  then show ?thesis
    using le dir(2) by (simp add: parent_def bb size Let_def)
qed

section \<open>Loading\<close>

definition config_ok :: "config \<Rightarrow> bool" where
  "config_ok c \<longleftrightarrow> config_version c = 1 \<and> storage_path (config_storage c) \<noteq> []
     \<and> 1 \<le> unat (cache_size_mb (config_storage c)) \<and> unat (cache_size_mb (config_storage c)) \<le> 1048576
     \<and> \<not> (storage_read_only (config_storage c) \<and> create_if_missing (config_storage c))"

lemma config_validate_iff: "config_validate c = Ok () \<longleftrightarrow> config_ok c" and config_validate_not_Panic: "config_validate c \<noteq> Panic"
  by (auto simp: config_validate_def config_ok_def word_le_nat_alt)

lemma cache_size_bytes_ok:
  assumes "config_ok c"
  shows "\<exists>n. cache_size_bytes c = Ok n \<and> unat n = unat (cache_size_mb (config_storage c)) * 1048576"
proof -
  let ?m = "cache_size_mb (config_storage c)"
  have m: "unat ?m \<le> 1048576" using assms by (simp add: config_ok_def)
  have k: "unat (?m * 1024) = unat ?m * 1024"
    using m by (simp add: unat_word_ariths)
  then have "unat (?m * 1024 * 1024) = unat ?m * 1048576"
    using m by (simp add: unat_word_ariths)
  then show ?thesis
    using m k by (simp add: cache_size_bytes_def mul_u64_def)
qed

lemma resolve_fields:
  "cache_size_mb (config_storage (resolve_storage_path p c)) = cache_size_mb (config_storage c)"
  "config_ok c \<Longrightarrow> config_ok (resolve_storage_path p c)"
  by (auto simp: resolve_storage_path_def config_ok_def Let_def join_def split: option.split)

lemma resolve_absolute:
  assumes "is_absolute p" and "parent p \<noteq> None"
  shows "is_absolute (storage_path (config_storage (resolve_storage_path p c)))"
  using assms absolute_parent [OF assms(1)] absolute_join by (auto simp: resolve_storage_path_def Let_def)

text \<open>The rules of a configuration in the order of their checks, each with whether the configuration
  breaks it and the error that names it.\<close>

definition config_rules :: "config \<Rightarrow> (bool \<times> ('io, 'yaml) config_error) list" where
  "config_rules c = (let s = config_storage c in
     [(config_version c \<noteq> SUPPORTED_CONFIG_VERSION, CF_UnsupportedVersion (config_version c) SUPPORTED_CONFIG_VERSION),
      (storage_path s = [], CF_InvalidValue ''storage.path'' ''must not be empty''),
      (cache_size_mb s \<notin> {MIN_CACHE_SIZE_MB..MAX_CACHE_SIZE_MB},
        CF_InvalidValue ''storage.cache_size_mb'' ''must be between 1 and 1048576 MiB''),
      (storage_read_only s \<and> create_if_missing s,
        CF_InvalidValue ''storage.create_if_missing'' ''cannot be true when storage.read_only is true'')])"

lemma config_validate_Err: "config_validate c = Err e \<longleftrightarrow> find fst (config_rules c) = Some (True, e)"
  by (auto simp: config_validate_def config_rules_def Let_def)

text \<open>C34. A configuration that loads is valid and stays so after its path was resolved: it has the
  supported version, a database path, no contradictory flags, and a cache size whose number of
  bytes is computed without overflow. Loaded from an absolute path, its database path is
  absolute; loaded from a file of a directory, a relative database path is taken from that
  directory. Loading fails exactly when the file cannot be read, cannot be parsed, or breaks a rule,
  with the error of the reader, of the parser, or of the first rule that is broken. Whatever the
  file and the parser give, it does not panic.\<close>

theorem loaded_config_sound:
  fixes rd :: "path \<Rightarrow> (str, 'io) result" and yaml :: "str \<Rightarrow> (config, 'yaml) result"
  assumes "\<And>q. rd q \<noteq> Panic" and "\<And>s. yaml s \<noteq> Panic"
  shows "case config_load rd yaml p of
      Ok c \<Rightarrow> config_ok c
        \<and> (\<exists>n. cache_size_bytes c = Ok n \<and> unat n = unat (cache_size_mb (config_storage c)) * 1048576)
        \<and> (is_absolute p \<and> parent p \<noteq> None \<longrightarrow> is_absolute (storage_path (config_storage c)))
        \<and> (\<exists>source c0. rd p = Ok source \<and> yaml source = Ok c0 \<and>
            (\<forall>dir name. p = dir @ SLASH # name \<and> dir \<noteq> [] \<and> trim_right dir = dir \<and> last dir \<noteq> SLASH
                \<and> is_component name \<and> SLASH \<notin> set name \<and> \<not> is_absolute (storage_path (config_storage c0))
              \<longrightarrow> storage_path (config_storage c) = dir @ SLASH # storage_path (config_storage c0)))
    | Err e \<Rightarrow>
        (case rd p of
           Ok source \<Rightarrow>
             (case yaml source of
                Ok c0 \<Rightarrow> \<not> config_ok c0 \<and> find fst (config_rules c0) = Some (True, e)
              | Err y \<Rightarrow> e = CF_Parse p y
              | Panic \<Rightarrow> False)
         | Err x \<Rightarrow> e = CF_Read p x
         | Panic \<Rightarrow> False)
    | Panic \<Rightarrow> False"
proof -
  consider (read) e where "rd p = Err e" | (yaml) source e where "rd p = Ok source" "yaml source = Err e"
    | (parsed) source c0 where "rd p = Ok source" "yaml source = Ok c0"
    using assms by (metis result.exhaust)
  then show ?thesis
  proof cases
    case (parsed source c0)
    show ?thesis
    proof (cases "config_ok c0")
      case False
      then obtain e :: "('io, 'yaml) config_error" where e: "config_validate c0 = Err e"
        using config_validate_iff [of c0] config_validate_not_Panic [of c0]
        by (cases "config_validate c0 :: (unit, ('io, 'yaml) config_error) result") auto
      then show ?thesis using parsed False config_validate_Err [THEN iffD1, OF e] by (simp add: config_load_def)
    next
      case True
      let ?c = "resolve_storage_path p c0"
      have "config_validate c0 = (Ok () :: (unit, ('io, 'yaml) config_error) result)"
        using True config_validate_iff by blast
      then have load: "config_load rd yaml p = Ok ?c"
        using parsed by (simp add: config_load_def)
      have "storage_path (config_storage ?c) = dir @ SLASH # storage_path (config_storage c0)"
        if "p = dir @ SLASH # name" "dir \<noteq> []" "trim_right dir = dir" "last dir \<noteq> SLASH" "is_component name"
          "SLASH \<notin> set name" "\<not> is_absolute (storage_path (config_storage c0))" for dir name
        using that parent_of_file [OF that(2,3,5,6)] by (simp add: resolve_storage_path_def join_def)
      then show ?thesis
        using load parsed resolve_fields(2) [OF True, of p] cache_size_bytes_ok resolve_absolute [of p c0] by auto
    qed
  qed (auto simp: config_load_def)
qed

definition sample_config :: config where
  "sample_config = \<lparr>config_version = 1,
     config_storage = \<lparr>storage_path = [100], cache_size_mb = 64, create_if_missing = True, storage_read_only = False\<rparr>,
     config_durability = \<lparr>sync_on_commit = True, page_checksums = True\<rparr>, config_logging = \<lparr>log_level_of = LL_Info\<rparr>\<rparr>"

theorem loaded_config_sound_witness:
  "\<exists>c. config_load (\<lambda>_. Ok [] :: (str, unit) result) (\<lambda>_. Ok sample_config :: (config, unit) result) [47, 101, 47, 110] = Ok c
     \<and> storage_path (config_storage c) = [47, 101, 47, 100]"
proof -
  let ?rd = "\<lambda>_ :: path. Ok [] :: (str, unit) result" and ?yaml = "\<lambda>_ :: str. Ok sample_config :: (config, unit) result"
  have trim: "trim_right [47, 101] = [47, 101]"
    by (subst trim_right.simps) (simp add: is_component_def last_piece_def before_body_def is_absolute_def)
  have "config_ok sample_config" by (simp add: config_ok_def sample_config_def)
  then obtain c where c: "config_load ?rd ?yaml [47, 101, 47, 110] = Ok c"
    using loaded_config_sound [of ?rd ?yaml "[47, 101, 47, 110]"] by (auto split: result.splits)
  have "storage_path (config_storage c) = [47, 101] @ SLASH # storage_path (config_storage sample_config)"
    using loaded_config_sound [of ?rd ?yaml "[47, 101, 47, 110]"] trim unfolding c
    by (simp, elim conjE, elim allE [of _ "[47, 101]"] allE [of _ "[110]"])
      (simp add: is_component_def sample_config_def is_absolute_def)
  then show ?thesis using c by (simp add: sample_config_def)
qed

section \<open>The command line\<close>

text \<open>The command line is pairs of \<^verbatim>\<open>--config\<close> and a path, the last of which counts; after them nothing
  more, or an argument that ends the loop.\<close>

lemma arguments_meaning:
  "\<exists>ps rest. args = concat (map (\<lambda>p. [ARG_CONFIG, p]) ps) @ rest \<and> (\<forall>p others. rest \<noteq> ARG_CONFIG # p # others) \<and>
    run_arguments d args =
      (case rest of
         [] \<Rightarrow> Ok (Some (last (d # ps))) :: (path option, ('io, 'yaml) run_error) result
       | a # others \<Rightarrow>
           if \<not> is_str a then Err ArgumentNotUtf8
           else if a = ARG_CONFIG then Err MissingConfigPath
           else if a = ARG_HELP \<or> a = ARG_H then Ok None
           else Err (UnknownArgument a))"
proof (induction args arbitrary: d rule: length_induct)
  case (1 args)
  show ?case
  proof (cases "\<exists>p others. args = ARG_CONFIG # p # others")
    case True
    then obtain p others where args: "args = ARG_CONFIG # p # others" by blast
    have str: "is_str ARG_CONFIG" by (simp add: ARG_CONFIG_def is_str_ascii)
    obtain ps rest where others: "others = concat (map (\<lambda>p. [ARG_CONFIG, p]) ps) @ rest"
      and rest: "\<forall>p others. rest \<noteq> ARG_CONFIG # p # others"
      and run: "run_arguments p others = (case rest of [] \<Rightarrow> Ok (Some (last (p # ps))) :: (path option, ('io, 'yaml) run_error) result
        | a # others \<Rightarrow> if \<not> is_str a then Err ArgumentNotUtf8 else if a = ARG_CONFIG then Err MissingConfigPath
            else if a = ARG_HELP \<or> a = ARG_H then Ok None else Err (UnknownArgument a))"
      using "1.IH" [rule_format, of others p] args by auto
    show ?thesis
      using args others rest run str by (intro exI [of _ "p # ps"] exI [of _ rest]) (simp split: list.split)
  next
    case False
    then show ?thesis
      by (intro exI [of _ "[]"] exI [of _ args]) (cases args; auto split: list.split)
  qed
qed

end
