(* ===== verification/Messages_Props.thy ===== *)
theory Messages_Props
  imports Messages Config_Props
begin

text \<open>
  The properties of what the program says: numbers and RIDs can be read back from the texts, a
  quoted identifier stays on its line, and the whole output of \<^verbatim>\<open>main\<close> for every command line.
\<close>

section \<open>Numbers\<close>

definition is_digit :: "u8 \<Rightarrow> bool" where
  "is_digit b \<longleftrightarrow> 48 \<le> b \<and> b < 58"

definition read_digits :: "str \<Rightarrow> nat" where
  "read_digits ds = foldl (\<lambda>n d. 10 * n + unat (d - 48)) 0 ds"

lemma unat_digit [simp]: "n < 10 \<Longrightarrow> unat (of_nat n :: u8) = n"
  by (simp add: unat_of_nat take_bit_nat_eq_self)

lemma read_digits_append: "read_digits (ds @ [d]) = 10 * read_digits ds + unat (d - 48)"
  by (simp add: read_digits_def)

text \<open>A decimal is read back as the number it shows.\<close>

lemma read_shown: "read_digits (digits 10 n) = n"
proof (induction "10 :: nat" n rule: digits.induct)
  case (1 n)
  show ?case
  proof (cases "n < 10")
    case True
    then show ?thesis by (simp add: digits.simps [of 10 n] read_digits_def)
  next
    case False
    then have "digits 10 n = digits 10 (n div 10) @ [48 + of_nat (n mod 10)]"
      by (simp add: digits.simps [of 10 n])
    then show ?thesis using 1 False by (simp add: read_digits_append)
  qed
qed

lemma shown_digits: "b \<in> set (digits 10 n) \<Longrightarrow> is_digit b"
proof (induction "10 :: nat" n rule: digits.induct)
  case (1 n)
  have "is_digit (48 + of_nat k)" if "k < 10" for k
  proof -
    have "unat (48 + of_nat k :: u8) = 48 + k"
      using that by (simp add: unat_word_ariths unat_of_nat take_bit_nat_eq_self)
    then show ?thesis using that by (simp add: is_digit_def word_le_nat_alt word_less_nat_alt)
  qed
  then show ?case
    using 1 by (subst (asm) digits.simps) (auto split: if_splits)
qed

lemma show_word_inj: "show_word a = show_word b \<longleftrightarrow> a = b"
  by (metis read_shown show_word_def word_unat_eq_iff)

text \<open>A number followed by a text that does not start with a digit can be cut off.\<close>

lemma number_cut:
  assumes "show_word a @ x # s = show_word b @ y # t" and "\<not> is_digit x" and "\<not> is_digit y"
  shows "a = b \<and> s = t"
proof -
  have "takeWhile is_digit (show_word c @ z # u) = show_word c" if "\<not> is_digit z" for c :: "'a word" and z u
    using that shown_digits by (subst takeWhile_append2) (auto simp: show_word_def)
  then have "show_word a = show_word b"
    using assms by metis
  then show ?thesis using assms(1) by (simp add: show_word_inj)
qed

text \<open>The text of a RID in an error message tells which RID it is.\<close>

lemma debug_rid_inj:
  assumes "debug_rid q = debug_rid r"
  shows "q = r"
proof -
  define slot where "slot = (44 :: u8) # lit '' slot_id: SlotId(''"
  define gen where "gen = (44 :: u8) # lit '' generation: ''"
  have shape: "debug_rid x = lit ''Rid { page_id: PageId('' @ show_word (rid_page x) @ 41 # slot @ show_word (rid_slot x)
      @ 41 # gen @ show_word (rid_generation x) @ lit '' }''" for x
    by (simp add: debug_rid_def lit_def slot_def gen_def)
  have stop: "\<not> is_digit 41" by (simp add: is_digit_def)
  have "show_word (rid_page q) @ 41 # slot @ show_word (rid_slot q) @ 41 # gen @ show_word (rid_generation q) @ lit '' }''
      = show_word (rid_page r) @ 41 # slot @ show_word (rid_slot r) @ 41 # gen @ show_word (rid_generation r) @ lit '' }''"
    using assms by (simp only: shape same_append_eq)
  note page = number_cut [OF this stop stop]
  have "show_word (rid_slot q) @ 41 # gen @ show_word (rid_generation q) @ lit '' }''
      = show_word (rid_slot r) @ 41 # gen @ show_word (rid_generation r) @ lit '' }''"
    using page by (simp only: same_append_eq)
  note slots = number_cut [OF this stop stop]
  have "rid_generation q = rid_generation r"
    using slots by (simp add: show_word_inj)
  then show ?thesis using page slots by simp
qed

section \<open>Quoted identifiers\<close>

lemma hex_one_line: "10 \<notin> set (digits 16 n)"
proof (induction "16 :: nat" n rule: digits.induct)
  case (1 n)
  have digit: "(if k < 10 then 48 + of_nat k else 87 + of_nat k) \<noteq> (10 :: u8)" if "k < 16" for k
  proof -
    have "unat (48 + of_nat k :: u8) = 48 + k" "unat (87 + of_nat k :: u8) = 87 + k"
      using that by (simp_all add: unat_word_ariths unat_of_nat take_bit_nat_eq_self)
    then have "unat (48 + of_nat k :: u8) \<noteq> unat (10 :: u8)" "unat (87 + of_nat k :: u8) \<noteq> unat (10 :: u8)" by simp_all
    then show ?thesis by metis
  qed
  then show ?case
    using 1 digit [of n] digit [of "n mod 16"] by (subst digits.simps) (auto split: if_splits)
qed

lemma second_high: "second_of_three a b \<Longrightarrow> 0x80 \<le> b" "second_of_four a b \<Longrightarrow> 0x80 \<le> b" "cont_byte b \<Longrightarrow> 0x80 \<le> b"
  by (auto simp: second_of_three_def second_of_four_def cont_byte_def in_range_def split: if_splits elim: order_trans [rotated])

lemma utf8_step_bytes:
  assumes "utf8_step s = Some (c, s')"
  shows "(\<exists>a. c = ucast a \<and> take (length s - length s') s = [a])
    \<or> (\<forall>b\<in>set (take (length s - length s') s). 0x80 \<le> b)"
  using assms
  by (cases s rule: utf8_step.cases)
    (auto simp: not_less second_high split: if_splits list.splits)

lemma debug_one_line: "10 \<notin> set (debug_str table s)"
proof -
  have "10 \<notin> set (debug_chars table s)"
  proof (induction table s rule: debug_chars.induct)
    case (1 table s)
    have "10 \<notin> set (escape_char c)" for c
      using hex_one_line by (auto simp: escape_char_def)
    moreover have "10 \<notin> set (take (length s - length s') s)" if "utf8_step s = Some (c, s')" "plain_char table c" for c s'
      using utf8_step_bytes [OF that(1)] that(2) by (auto simp: plain_char_def split: if_splits)
    ultimately show ?case
      using 1 by (cases "utf8_step s") (auto simp: debug_chars.simps [of table s])
  qed
  then show ?thesis by (simp add: debug_str_def)
qed

section \<open>The output of main\<close>

lemma config_load_returns:
  assumes "\<And>p. rd p \<noteq> Panic" and "\<And>s. yml s \<noteq> Panic"
  shows "config_load rd yml p \<noteq> Panic"
proof -
  have "config_validate c \<noteq> Panic" for c
    by (simp add: config_validate_def)
  then show ?thesis
    using assms by (auto simp: config_load_def and_then_Panic_iff map_err_Panic_iff)
qed

text \<open>The pairs and the rest are determined by the arguments.\<close>

lemma one_config:
  assumes "\<exists>ps rest. [ARG_CONFIG, x] = concat (map (\<lambda>p. [ARG_CONFIG, p]) ps) @ rest
    \<and> (\<forall>p others. rest \<noteq> ARG_CONFIG # p # others) \<and> P ps rest"
  shows "P [x] []"
proof -
  obtain ps rest where split: "[ARG_CONFIG, x] = concat (map (\<lambda>p. [ARG_CONFIG, p]) ps) @ rest"
    "\<forall>p others. rest \<noteq> ARG_CONFIG # p # others" and P: "P ps rest"
    using assms by blast
  have "ps = [x] \<and> rest = []"
    using split by (cases ps; cases "tl ps") auto
  then show ?thesis using P by simp
qed

text \<open>C35. The output of \<^verbatim>\<open>main\<close> for every command line: it never panics, and prints one line. After any number
  of pairs of \<^verbatim>\<open>--config\<close> and a path, the end of the arguments has the configuration of the last path,
  \<^verbatim>\<open>north.yaml\<close> when there is none, loaded and the place of the database or the error reported; a help
  flag prints the usage, with success; anything else, whatever was to be loaded, fails with the
  reason.\<close>

theorem main_output:
  assumes "\<And>p. rd p \<noteq> Panic" and "\<And>s. yml s \<noteq> Panic"
  shows "\<exists>ps rest. args = concat (map (\<lambda>p. [ARG_CONFIG, p]) ps) @ rest \<and> (\<forall>p others. rest \<noteq> ARG_CONFIG # p # others) \<and>
    (let failed = (\<lambda>text. Ok ([], [lit ''north: '' @ text], False))
     in north_main io yaml rd yml args =
      (case rest of
         [] \<Rightarrow>
           (case config_load rd yml (last (DEFAULT_CONFIG_PATH # ps)) of
              Ok c \<Rightarrow> Ok ([lit ''North configuration is valid (database: ''
                        @ display_path (storage_path (config_storage c)) @ lit '')''], [], True)
            | Err e \<Rightarrow> failed (display_config_error io yaml e)
            | Panic \<Rightarrow> Panic)
       | a # others \<Rightarrow>
           if \<not> is_str a then failed (lit ''arguments must be valid UTF-8'')
           else if a = ARG_CONFIG then failed (lit ''--config requires a path'')
           else if a = ARG_HELP \<or> a = ARG_H then Ok ([lit ''Usage: north [--config <path>]''], [], True)
           else failed (lit ''unknown argument: '' @ a)))
    \<and> north_main io yaml rd yml args \<noteq> Panic"
proof -
  obtain ps rest where args: "args = concat (map (\<lambda>p. [ARG_CONFIG, p]) ps) @ rest"
    and rest: "\<forall>p others. rest \<noteq> ARG_CONFIG # p # others"
    and run: "run_arguments DEFAULT_CONFIG_PATH args = (case rest of
         [] \<Rightarrow> Ok (Some (last (DEFAULT_CONFIG_PATH # ps))) :: (path option, ('a, 'b) run_error) result
       | a # others \<Rightarrow>
           if \<not> is_str a then Err ArgumentNotUtf8
           else if a = ARG_CONFIG then Err MissingConfigPath
           else if a = ARG_HELP \<or> a = ARG_H then Ok None
           else Err (UnknownArgument a))"
    using arguments_meaning [of args DEFAULT_CONFIG_PATH] by blast
  have load: "config_load rd yml (last (DEFAULT_CONFIG_PATH # ps)) \<noteq> Panic"
    by (rule config_load_returns [OF assms])
  show ?thesis
  proof (cases rest)
    case Nil
    then have "run_arguments DEFAULT_CONFIG_PATH args = (Ok (Some (last (DEFAULT_CONFIG_PATH # ps))) :: (path option, ('a, 'b) run_error) result)"
      using run by (simp only: list.case)
    then show ?thesis
      using load args rest Nil
      by (intro exI [of _ ps] exI [of _ rest])
        (cases "config_load rd yml (last (DEFAULT_CONFIG_PATH # ps))"; simp add: north_main_def run_def Let_def del: last.simps)
  next
    case (Cons a others)
    then show ?thesis
      using args rest run
      by (intro exI [of _ ps] exI [of _ rest]) (simp add: north_main_def run_def Let_def)
  qed
qed

theorem main_output_witness:
  "north_main (\<lambda>_ :: unit. []) (\<lambda>_ :: unit. []) (\<lambda>_. Err ()) (\<lambda>_. Err ()) [ARG_CONFIG, [97]]
     = Ok ([], [lit ''north: failed to read a: ''], False)"
proof -
  have "display_path [97] = [97]" by (simp add: display_path.simps)
  then show ?thesis
    using one_config [OF main_output [of "\<lambda>_. Err ()" "\<lambda>_. Err ()" "[ARG_CONFIG, [97]]" "\<lambda>_ :: unit. []" "\<lambda>_ :: unit. []"]]
    by (simp add: Let_def config_load_def lit_def)
qed

end
