(* ===== verification/Safety.thy ===== *)
theory Safety
  imports Prelude
begin

text \<open>
  Calls that cannot panic. \<open>safe I m Q\<close>: from a state that satisfies \<open>I\<close> the call \<open>m\<close> does not panic
  and leaves such a state, whatever it returns; a value it returns satisfies \<open>Q\<close>. The rules follow
  the combinators of \<open>Prelude\<close>.
\<close>

named_theorems safe_intros

fun safe_result :: "('a \<Rightarrow> bool) \<Rightarrow> ('a, 'e) result \<Rightarrow> bool" where
  "safe_result Q (Ok x) \<longleftrightarrow> Q x"
| "safe_result Q (Err e) \<longleftrightarrow> True"
| "safe_result Q Panic \<longleftrightarrow> False"

definition safe :: "('s \<Rightarrow> bool) \<Rightarrow> ('s, 'a, 'e) act \<Rightarrow> ('a \<Rightarrow> bool) \<Rightarrow> bool" where
  "safe I m Q \<longleftrightarrow> (\<forall>s. I s \<longrightarrow> (case m s of (r, s') \<Rightarrow> I s' \<and> safe_result Q r))"

section \<open>Results\<close>

lemma safe_result_not_Panic: "safe_result (\<lambda>_. True) r \<longleftrightarrow> r \<noteq> Panic"
  by (cases r) simp_all

lemma safe_result_weaken: "safe_result P r \<Longrightarrow> (\<And>x. P x \<Longrightarrow> Q x) \<Longrightarrow> safe_result Q r"
  by (cases r) simp_all

lemma safe_result_map_err [simp]: "safe_result Q (map_err g r) = safe_result Q r"
  by (cases r) simp_all

lemma safe_result_and_then:
  "safe_result P r \<Longrightarrow> (\<And>x. P x \<Longrightarrow> safe_result Q (f x)) \<Longrightarrow> safe_result Q (and_then r f)"
  by (cases r) simp_all

lemma safe_result_ok_or: "(\<And>y. x = Some y \<Longrightarrow> Q y) \<Longrightarrow> safe_result Q (ok_or x e)"
  by (cases x) simp_all

section \<open>Calls\<close>

lemma safeI: "(\<And>s r s'. I s \<Longrightarrow> m s = (r, s') \<Longrightarrow> I s' \<and> safe_result Q r) \<Longrightarrow> safe I m Q"
  by (auto simp: safe_def split: prod.split)

lemma safeD: "safe I m Q \<Longrightarrow> I s \<Longrightarrow> m s = (r, s') \<Longrightarrow> I s' \<and> safe_result Q r"
  by (auto simp: safe_def)

lemma safe_weaken: "safe I m P \<Longrightarrow> (\<And>x. P x \<Longrightarrow> Q x) \<Longrightarrow> safe I m Q"
  by (rule safeI) (blast dest: safeD intro: safe_result_weaken)

lemma safe_any: "safe I m P \<Longrightarrow> safe I m (\<lambda>_. True)"
  by (erule safe_weaken) simp

lemma safe_ret [safe_intros]: "Q x \<Longrightarrow> safe I (ret x) Q"
  by (simp add: safe_def act_simps)

lemma safe_fail [safe_intros]: "safe I (fail e) Q"
  by (simp add: safe_def act_simps)

lemma safe_query [safe_intros]: "(\<And>s. I s \<Longrightarrow> safe_result Q (f s)) \<Longrightarrow> safe I (query f) Q"
  by (simp add: safe_def act_simps)

lemma safe_update [safe_intros]: "(\<And>s. I s \<Longrightarrow> I (f s)) \<Longrightarrow> safe I (update f) (\<lambda>_. True)"
  by (simp add: safe_def act_simps)

lemma safe_bind:
  assumes m: "safe I m P" and k: "\<And>x. P x \<Longrightarrow> safe I (k x) Q"
  shows "safe I (bind_act m k) Q"
proof (rule safeI)
  fix s r s' assume s: "I s" and run: "bind_act m k s = (r, s')"
  obtain x s1 where x: "m s = (x, s1)" by (metis prod.exhaust)
  note M = safeD [OF m s x]
  show "I s' \<and> safe_result Q r"
    using M run x safeD [OF k] by (cases x) (auto simp: act_simps)
qed

lemma safe_seq: "safe I m P \<Longrightarrow> safe I k Q \<Longrightarrow> safe I (seq_act m k) Q"
  unfolding seq_act_def by (rule safe_bind)

text \<open>The last call of a sequence may leave the states of the invariant.\<close>

lemma safe_then:
  assumes m: "safe I m P" and s: "I s" and k: "\<And>x s'. P x \<Longrightarrow> I s' \<Longrightarrow> R (k x s')" and err: "\<And>e s'. I s' \<Longrightarrow> R (Err e, s')"
  shows "R (bind_act m k s)"
proof -
  obtain x s1 where x: "m s = (x, s1)" by (metis prod.exhaust)
  show ?thesis
    using safeD [OF m s x] x k err by (cases x) (simp_all add: act_simps)
qed

lemma safe_seq_then:
  "safe I m P \<Longrightarrow> I s \<Longrightarrow> (\<And>s'. I s' \<Longrightarrow> R (k s')) \<Longrightarrow> (\<And>e s'. I s' \<Longrightarrow> R (Err e, s')) \<Longrightarrow> R (seq_act m k s)"
  unfolding seq_act_def by (rule safe_then)

lemma safe_map_err [safe_intros]: "safe I m Q \<Longrightarrow> safe I (map_err_act g m) Q"
  unfolding safe_def by (auto simp: act_simps split: prod.splits)

lemma safe_for_each [safe_intros]:
  assumes "\<And>k. safe I (m k) (\<lambda>_. True)"
  shows "safe I (for_each m ks) (\<lambda>_. True)"
  by (induction ks) (auto intro!: safe_ret safe_bind [OF assms] elim!: safe_bind)

text \<open>A call on a part of the state.\<close>

lemma safe_on_first:
  assumes "safe I m Q" and "\<And>a b. J (a, b) \<longleftrightarrow> I b \<and> K a"
  shows "safe J (\<lambda>(a, b). case m b of (r, b') \<Rightarrow> (r, (a, b'))) Q"
  using assms unfolding safe_def by (auto split: prod.splits)

end
