(* ===== verification/Robust_Pool.thy ===== *)
theory Robust_Pool
  imports Buffer_Props Safety
begin

text \<open>
  The disk and the buffer pool under any file contents and any failures: no call panics, and a
  scope that pins a page leaves no pin and no borrow behind, whatever it returns.
\<close>

section \<open>The disk\<close>

abbreviation (input) never_panics :: "('s, 'a, 'e) act \<Rightarrow> bool" where
  "never_panics m \<equiv> safe (\<lambda>_. True) m (\<lambda>_. True)"

lemma file_safe [safe_intros]:
  "never_panics (file_seek off)" "never_panics (file_write_all src)" "never_panics (file_read_exact n)"
  "never_panics file_sync_all" "never_panics file_len"
  by (auto simp: safe_def file_seek_def file_write_all_def file_read_exact_def file_sync_all_def file_len_def Let_def
      split: option.split)

lemma io_err_safe [safe_intros]: "never_panics m \<Longrightarrow> never_panics (io_err operation path m)"
  unfolding io_err_def by (rule safe_map_err)

lemma on_file_safe [safe_intros]: "(\<And>d. never_panics (m d)) \<Longrightarrow> never_panics (\<lambda>d. on_file (m d) d)"
  unfolding safe_def on_file_def by (simp add: split_beta)

lemma guards_safe [simp]: "ensure_writable d \<noteq> Panic" "ensure_allocated_data_page pid d \<noteq> Panic"
  "validate_file_length n \<noteq> Panic" "decode_header bs \<noteq> Panic"
  by (simp_all add: ensure_writable_def ensure_allocated_data_page_def validate_file_length_def decode_header_def Let_def)

lemma persist_safe [safe_intros]: "never_panics persist_header" "never_panics (\<lambda>d. persist_header (f d))"
  unfolding persist_header_def write_header_to_file_def Let_def safe_def on_file_def
  using safeD [OF safe_seq [OF io_err_safe [OF file_safe(1)] io_err_safe [OF file_safe(2)]]]
  by (auto split: prod.split)

lemma seek_safe [safe_intros]: "never_panics (seek_to_page pid)"
  unfolding seek_to_page_def by (intro safe_intros)

lemmas disk_steps = safe_intros safe_seq [where P = "\<lambda>_. True"] safe_bind [where P = "\<lambda>_. True"]

lemma write_bytes_safe [safe_intros]: "never_panics (write_page_bytes pid bs)"
  unfolding write_page_bytes_def by (intro disk_steps)

lemma disk_allocate_safe [safe_intros]: "never_panics disk_allocate_page"
  unfolding disk_allocate_page_def Let_def
  by (intro disk_steps write_bytes_safe) (auto intro!: disk_steps write_bytes_safe simp: safe_result_not_Panic)

lemma set_root_safe [safe_intros]: "never_panics (set_catalog_root pid)"
  unfolding set_catalog_root_def
  by (intro disk_steps) (auto intro!: disk_steps simp: safe_result_not_Panic split: option.split)

lemma disk_safe [safe_intros]:
  "never_panics (disk_read_page pid)" "never_panics (disk_write_page pg)" "never_panics disk_sync"
  unfolding disk_read_page_def disk_write_page_def disk_sync_def
  by (intro disk_steps write_bytes_safe; simp add: safe_result_not_Panic)+

lemma file_header_safe:
  "never_panics (write_header_to_file path h)" "never_panics (read_header_from_file path)"
  unfolding write_header_to_file_def read_header_from_file_def Let_def
  by (intro disk_steps; simp add: safe_result_not_Panic)+

lemma not_Panic_of_safe: "never_panics m \<Longrightarrow> m s = (r, s') \<Longrightarrow> r \<noteq> Panic"
  using safeD [of "\<lambda>_. True" m "\<lambda>_. True" s r s'] by (simp add: safe_result_not_Panic)

text \<open>Opening a database does not panic, whatever the file holds.\<close>

definition open_steps :: "string \<Rightarrow> (os_file, database_header, disk_error) act" where
  "open_steps path =
     bind_act (io_err ''read database file metadata'' path file_len) (\<lambda>len.
     seq_act (query (\<lambda>_. validate_file_length (of_nat len)))
    (bind_act (read_header_from_file path) (\<lambda>header.
     let physical_page_count = (of_nat len :: u64) div of_nat PAGE_SIZE in
     if physical_page_count < ucast (header_next_page_id header)
     then fail (D_Corrupt ''database header references pages beyond the end of the file'')
     else ret header)))"

lemma open_steps_safe: "never_panics (open_steps path)"
  unfolding open_steps_def Let_def
  by (intro disk_steps file_header_safe) (auto intro!: disk_steps file_header_safe simp: safe_result_not_Panic)

lemma open_steps_run: "open_steps path f \<noteq> (Panic, f')"
  using not_Panic_of_safe [OF open_steps_safe] by blast

lemma open_with_mode_eq:
  "open_with_mode path ro (Some bs) faults = (case faults of
     Some _ # _ \<Rightarrow> Err (D_Io ''open database file'' path OtherIo)
   | _ \<Rightarrow> (case open_steps path \<lparr>file_data = bs, file_pos = 0, file_writable = \<not> ro, file_faults = tl faults\<rparr> of
       (r, f') \<Rightarrow> and_then r (\<lambda>header.
         Ok \<lparr>disk_path = path, disk_file = f', disk_header = header, disk_read_only = ro\<rparr>)))"
  by (simp add: open_with_mode_def open_steps_def split: list.split option.split)

lemma open_safe: "open_with_mode path ro found faults \<noteq> Panic"
proof (cases found)
  case None
  then show ?thesis by (simp add: open_with_mode_def)
next
  case (Some bs)
  show ?thesis
    unfolding Some open_with_mode_eq
    by (auto simp: and_then_Panic_iff open_steps_run split: list.split option.split prod.split)
qed

lemma create_safe: "fst (disk_create path found faults) \<noteq> Panic"
proof -
  have *: "never_panics (seq_act (write_header_to_file path h) (io_err ''synchronize new database file'' path file_sync_all))" for h
    by (intro disk_steps file_header_safe)
  show ?thesis
    using not_Panic_of_safe [OF *]
    by (auto simp: disk_create_def Let_def and_then_Panic_iff split: option.split list.split prod.split)
qed

section \<open>Pins\<close>

lemma pins_frames: "pool_frames p' = pool_frames p \<Longrightarrow> pins p' = pins p"
  by (simp add: pins_def find_frame_def fun_eq_iff)

lemma on_disk_run:
  assumes "never_panics m" and "on_disk m p = (r, p')"
  shows "r \<noteq> Panic \<and> pool_frames p' = pool_frames p \<and> pins p' = pins p"
proof -
  obtain w d where w: "m (pool_disk p) = (w, d)" by (metis prod.exhaust)
  have "w \<noteq> Panic"
    using safeD [OF assms(1) TrueI w] by (simp add: safe_result_not_Panic)
  then show ?thesis
    using assms(2) w by (cases w) (auto simp: on_disk_def intro: pins_frames)
qed

lemma pins_counts [simp]:
  "pins (count_hit p) = pins p" "pins (count_miss p) = pins p" "pins (count_eviction p) = pins p"
  "pins (count_disk_write p) = pins p"
  by (rule pins_frames, simp)+

lemma next_tick_pins: "next_tick p = (r, p') \<Longrightarrow> r \<noteq> Panic \<and> pins p' = pins p"
proof (rule next_tick_run [of p])
  fix t p1
  assume t: "next_tick p = (Ok t, p1)" "next_tick p = (r, p')"
    and f: "\<And>q. find_frame q p1 = find_frame q p
       \<or> find_frame q p1 = map_option (\<lambda>fr. fr\<lparr>frame_last_used := 0\<rparr>) (find_frame q p)"
  have "pins p1 q = pins p q" for q
    using f [of q] by (auto simp: pins_def split: option.split)
  then show "r \<noteq> Panic \<and> pins p' = pins p"
    using t by auto
qed

lemma flush_frame_pins:
  assumes fr: "find_frame pid p = Some fr" and run: "flush_frame pid p = (r, p')"
  shows "r \<noteq> Panic \<and> pins p' = pins p"
proof (cases "frame_borrow fr = Unborrowed \<and> page_dirty (frame_page fr)")
  case False
  then show ?thesis
    using fr run by (auto simp: flush_frame_def get_frame_def act_simps split: if_splits)
next
  case True
  obtain w p1 where w: "on_disk (disk_write_page (frame_page fr)) p = (w, p1)" by (metis prod.exhaust)
  note D = on_disk_run [OF disk_safe(2) w]
  have "pins p1 pid = frame_pin_count fr"
    using D fr by (simp add: pins_def)
  then have "pins (put_frame pid (fr\<lparr>frame_page := pg\<rparr>) p1) = pins p" for pg
    using D by auto
  then show ?thesis
    using fr run True w D by (cases w) (auto simp: flush_frame_def get_frame_def act_simps)
qed

lemma flush_frames_pins:
  "pool_inv p \<Longrightarrow> set pids \<subseteq> fst ` set (pool_frames p) \<Longrightarrow> flush_frames pids p = (r, p') \<Longrightarrow> r \<noteq> Panic \<and> pins p' = pins p"
proof (induction pids arbitrary: p)
  case Nil
  then show ?case by (auto simp: act_simps)
next
  case (Cons pid pids)
  obtain fr where fr: "find_frame pid p = Some fr"
    using Cons.prems(2) by (metis find_frame_def insert_subset list.simps(15) map_of_eq_None_iff not_Some_eq list.set_map)
  obtain w p1 where w: "flush_frame pid p = (w, p1)" by (metis prod.exhaust)
  note F = flush_frame_evolves [OF Cons.prems(1) w fr] and P = flush_frame_pins [OF fr w]
  have keys: "fst ` set (pool_frames p1) = fst ` set (pool_frames p)"
    using F by (metis list.set_map)
  show ?case
  proof (cases w)
    case (Ok u)
    then have "flush_frames pids p1 = (r, p')"
      using Cons.prems(3) w by (simp add: act_simps)
    then show ?thesis
      using Cons.IH [of p1] Cons.prems(2) keys F P evolves_inv by auto
  qed (use Cons.prems(3) w P in \<open>auto simp: act_simps\<close>)
qed

lemma ensure_space_pins:
  assumes inv: "pool_inv p" and run: "ensure_space p = (r, p')"
  shows "r \<noteq> Panic \<and> pins p' = pins p"
proof (cases "length (pool_frames p) < pool_capacity p")
  case True
  then show ?thesis using run by (auto simp: ensure_space_def act_simps)
next
  case full: False
  show ?thesis
  proof (cases "\<exists>pid fr. find_frame pid p = Some fr \<and> frame_pin_count fr = 0")
    case False
    then show ?thesis using ensure_space_full [OF inv full] run by auto
  next
    case True
    then obtain victim where v: "is_victim victim p"
        "ensure_space p = seq_act (flush_frame victim) (seq_act (update (remove_frame victim)) (update count_eviction)) p"
      using ensure_space_full [OF inv full] by auto
    then obtain fr where fr: "find_frame victim p = Some fr" "frame_pin_count fr = 0"
      by (auto simp: is_victim_def)
    obtain w p1 where w: "flush_frame victim p = (w, p1)" by (metis prod.exhaust)
    note P = flush_frame_pins [OF fr(1) w]
    have "pins p1 victim = 0"
      using P fr by (simp add: pins_def)
    then show ?thesis
      using run v(2) w P by (cases w) (auto simp: act_simps pins_remove)
  qed
qed

lemma load_frame_pins:
  assumes inv: "pool_inv p" and run: "load_frame pid tick p = (r, p')"
  shows "r \<noteq> Panic \<and> pins p' = pins p \<and> (\<forall>fr. r = Ok fr \<longrightarrow> frame_pin_count fr = pins p pid)"
proof (cases "find_frame pid p")
  case (Some fr)
  then show ?thesis using run by (auto simp: load_frame_def act_simps pins_def)
next
  case None
  let ?p = "count_miss p"
  have miss: "pool_inv ?p"
    using evolves_inv [OF evolves_other [OF inv, of ?p]] by simp
  obtain e p1 where e: "ensure_space ?p = (e, p1)" by (metis prod.exhaust)
  note E = ensure_space_pins [OF miss e]
  obtain w p2 where w: "on_disk (disk_read_page pid) p1 = (w, p2)" by (metis prod.exhaust)
  note D = on_disk_run [OF disk_safe(1) w]
  have zero: "pins p pid = 0" using None by (simp add: pins_def)
  show ?thesis
  proof (cases "e = Ok () \<and> (\<exists>pg. w = Ok pg)")
    case True
    then obtain pg where pg: "e = Ok ()" "w = Ok pg" by blast
    then show ?thesis
      using run None e w E D zero by (auto simp: load_frame_def act_simps Let_def)
  next
    case False
    then have "(p' = p1 \<or> p' = p2) \<and> (\<exists>x. r = Err x)"
      using run None e w E D by (cases e; cases w) (auto simp: load_frame_def act_simps)
    then show ?thesis using E D by auto
  qed
qed

section \<open>Between scopes and inside one\<close>

text \<open>\<open>calm\<close>: no guard is alive. \<open>settled g\<close>: the one guard alive is for page \<open>g\<close>, and no borrow is.\<close>

definition calm :: "buffer_pool \<Rightarrow> bool" where
  "calm p \<longleftrightarrow> pool_inv p \<and> pins p = (\<lambda>_. 0)"

definition settled :: "page_id \<Rightarrow> buffer_pool \<Rightarrow> bool" where
  "settled g p \<longleftrightarrow> pool_inv p \<and> pins p = (\<lambda>_. 0)(g := 1) \<and> borrows p = (\<lambda>_. Unborrowed)"

lemma calm_inv: "calm p \<Longrightarrow> pool_inv p"
  by (simp add: calm_def)

lemma put_inv:
  assumes "pool_inv p" and "find_frame g p = Some fr" and "frame_ok g fr'"
  shows "pool_inv (put_frame g fr' p)"
  using keeps_put [OF assms, of "g + 1"] by (simp add: keeps_page_def)

lemma settled_put:
  assumes "pool_inv (put_frame g fr p)" and "pins p = (\<lambda>_. 0)(g := n)" and "frame_pin_count fr = 1" and "frame_borrow fr = Unborrowed"
  shows "settled g (put_frame g fr p)"
proof -
  let ?p = "put_frame g fr p"
  have "borrows ?p q = Unborrowed" for q
  proof (cases "q = g")
    case True
    then show ?thesis using assms(4) by (simp add: borrows_def)
  next
    case False
    then have "pins ?p q = 0" using assms(2) by simp
    then show ?thesis by (rule unpinned_unborrowed [OF assms(1)])
  qed
  then show ?thesis
    using assms by (simp add: settled_def fun_eq_iff)
qed

lemma pin_calm:
  assumes calm: "calm p" and run: "pin pid p = (r, p')"
  shows "case r of Ok g \<Rightarrow> g = pid \<and> settled pid p' | Err e \<Rightarrow> calm p' | Panic \<Rightarrow> False"
proof -
  note inv = calm_inv [OF calm]
  have inv': "pool_inv p'"
    using pin_evolves [OF inv run] evolves_inv by blast
  obtain t p1 where t: "next_tick p = (Ok t, p1)"
    using next_tick_run [of p] by metis
  have p1: "pins p1 = (\<lambda>_. 0)" "pool_inv p1"
    using next_tick_pins [OF t] next_tick_evolves [OF inv t] calm by (auto simp: calm_def intro: evolves_inv)
  obtain l p2 where l: "load_frame pid t p1 = (l, p2)" by (metis prod.exhaust)
  note L = load_frame_evolves [OF p1(2) l] and P = load_frame_pins [OF p1(2) l]
  have inv2: "pool_inv p2" using L evolves_inv by blast
  note rest = pin_run [OF inv t l]
  show ?thesis
  proof (cases l)
    case (Ok fr)
    then have fr: "find_frame pid p2 = Some fr" "frame_pin_count fr = 0" "pins p2 = (\<lambda>_. 0)"
      using L P p1 by auto
    have "checked_add_word (0 :: u32) 1 = Some 1"
      by (simp add: checked_add_word_def)
    then have p': "r = Ok pid" "p' = put_frame pid (fr\<lparr>frame_pin_count := 1, frame_last_used := t\<rparr>) p2"
      using run rest Ok fr by auto
    have "frame_borrow fr = Unborrowed"
      using frame_of_inv [OF inv2 fr(1)] fr(2) by (auto simp: frame_ok_def)
    then have "settled pid p'"
      using inv' fr(3) unfolding p'(2) by (intro settled_put [where n = 0]) auto
    then show ?thesis using p' by simp
  next
    case (Err e)
    then show ?thesis using run rest P p1 inv2 by (auto simp: calm_def)
  next
    case Panic
    then show ?thesis using P by simp
  qed
qed

lemma allocate_calm:
  assumes calm: "calm p" and run: "pool_allocate_page p = (r, p')"
  shows "case r of Ok g \<Rightarrow> settled g p' | Err e \<Rightarrow> calm p' | Panic \<Rightarrow> False"
proof (cases "disk_read_only (pool_disk p)")
  case True
  then show ?thesis
    using run calm by (auto simp: pool_allocate_page_def borrow_inner_run [OF calm_inv] act_simps)
next
  case rw: False
  note inv = calm_inv [OF calm]
  have inv': "pool_inv p'"
    using allocate_evolves [OF inv run] evolves_inv by blast
  obtain e p1 where e: "ensure_space p = (e, p1)" by (metis prod.exhaust)
  note E = ensure_space_pins [OF inv e]
  obtain w p2 where w: "on_disk disk_allocate_page p1 = (w, p2)" by (metis prod.exhaust)
  note D = on_disk_run [OF disk_allocate_safe w]
  obtain t p3 where t: "next_tick p2 = (Ok t, p3)"
    using next_tick_run [of p2] by metis
  have pins: "pins p1 = (\<lambda>_. 0)" "pins p2 = (\<lambda>_. 0)" "pins p3 = (\<lambda>_. 0)"
    using E D next_tick_pins [OF t] calm by (auto simp: calm_def)
  show ?thesis
  proof (cases "e = Ok () \<and> (\<exists>pg. w = Ok pg)")
    case False
    then have "(p' = p1 \<or> p' = p2) \<and> (\<exists>x. r = Err x)"
      using run rw e w E D
      by (cases e; cases w) (auto simp: pool_allocate_page_def borrow_inner_run [OF inv] act_simps)
    then show ?thesis using pins inv' by (auto simp: calm_def)
  next
    case True
    then obtain pg where pg: "e = Ok ()" "w = Ok pg" by blast
    let ?fr = "\<lparr>frame_page_id = page_ident pg, frame_page = pg, frame_borrow = Unborrowed, frame_pin_count = 1,
        frame_last_used = t, frame_writable = True\<rparr>"
    have p': "r = Ok (page_ident pg)" "p' = put_frame (page_ident pg) ?fr p3"
      using run rw e w t pg by (auto simp: pool_allocate_page_def borrow_inner_run [OF inv] act_simps Let_def)
    have "settled (page_ident pg) p'"
      using inv' pins unfolding p'(2) by (intro settled_put [where n = 0]) auto
    then show ?thesis using p' by simp
  qed
qed

section \<open>The scopes of client code\<close>

lemma settled_frame:
  assumes "settled g p"
  obtains fr where "find_frame g p = Some fr" and "frame_ok g fr" and "frame_pin_count fr = 1" and "frame_borrow fr = Unborrowed"
proof -
  have inv: "pool_inv p" and one: "pins p g = 1" and free: "borrows p g = Unborrowed"
    using assms by (simp_all add: settled_def)
  obtain fr where fr: "find_frame g p = Some fr"
    using one by (cases "find_frame g p") (auto simp: pins_def)
  then show ?thesis
    using that [of fr] frame_of_inv [OF inv fr] one free by (simp add: pins_def borrows_def)
qed

lemma settled_drop:
  assumes "settled g p"
  shows "calm (drop_guard g p)"
proof -
  obtain fr where fr: "find_frame g p = Some fr" "frame_ok g fr" "frame_pin_count fr = 1" "frame_borrow fr = Unborrowed"
    using settled_frame [OF assms] .
  let ?fr = "fr\<lparr>frame_pin_count := 0\<rparr>"
  have "pool_inv (put_frame g ?fr p)"
    using put_inv [OF _ fr(1), of ?fr] assms fr by (simp add: settled_def frame_ok_def)
  then show ?thesis
    using assms fr by (simp add: drop_guard_def calm_def settled_def fun_eq_iff)
qed

lemma settled_replace:
  assumes s: "settled g p" and fr: "find_frame g p = Some fr" and ok: "frame_ok g fr'"
    and one: "frame_pin_count fr' = 1" "frame_borrow fr' = Unborrowed"
  shows "settled g (put_frame g fr' p)"
proof (rule settled_put)
  show "pool_inv (put_frame g fr' p)"
    using put_inv [OF _ fr ok] s by (simp add: settled_def)
  show "pins p = (\<lambda>_. 0)(g := 1)"
    using s by (simp add: settled_def)
qed (use one in auto)

lemma put_put [simp]: "put_frame g fr' (put_frame g fr p) = put_frame g fr' p"
proof -
  have "AList.update g fr' (AList.update g fr al) = AList.update g fr' al" for al :: "(page_id \<times> frame) list"
    by (induction al) auto
  then show ?thesis by (simp add: put_frame_def)
qed

text \<open>The page a scope works on.\<close>

definition page_at :: "page_id \<Rightarrow> page \<Rightarrow> bool" where
  "page_at pid pg \<longleftrightarrow> page_ident pg = pid \<and> page_sized pg"

lemma reading_safe:
  assumes f: "\<And>pg. page_at g pg \<Longrightarrow> safe_result Q (f pg)"
  shows "safe (settled g) (reading err g f) Q"
proof (rule safeI)
  fix p r p' assume s: "settled g p" and run: "reading err g f p = (r, p')"
  obtain fr where fr: "find_frame g p = Some fr" "frame_ok g fr" "frame_pin_count fr = 1" "frame_borrow fr = Unborrowed"
    using settled_frame [OF s] .
  have "r = f (frame_page fr)" "p' = put_frame g (fr\<lparr>frame_borrow := Unborrowed\<rparr>) p"
    using run fr by (auto simp: reading_def guard_read_def get_frame_def set_borrow_def end_read_def act_simps)
  then show "settled g p' \<and> safe_result Q r"
    using settled_replace [OF s fr(1), of "fr\<lparr>frame_borrow := Unborrowed\<rparr>"] fr f [of "frame_page fr"]
    by (simp add: frame_ok_def page_at_def)
qed

lemma writing_safe:
  assumes f: "safe (page_at g) f Q"
  shows "safe (settled g) (writing err g f) Q"
proof (rule safeI)
  fix p r p' assume s: "settled g p" and run: "writing err g f p = (r, p')"
  obtain fr where fr: "find_frame g p = Some fr" "frame_ok g fr" "frame_pin_count fr = 1" "frame_borrow fr = Unborrowed"
    using settled_frame [OF s] .
  show "settled g p' \<and> safe_result Q r"
  proof (cases "frame_writable fr")
    case False
    then have "p' = p" "r = Err (err BP_ReadOnly)"
      using run fr by (auto simp: writing_def guard_write_def get_frame_def act_simps)
    then show ?thesis using s by simp
  next
    case True
    obtain x pg where x: "f (frame_page fr) = (x, pg)" by (metis prod.exhaust)
    note F = safeD [OF f _ x]
    let ?fr = "fr\<lparr>frame_page := pg, frame_borrow := Unborrowed\<rparr>"
    have "r = x" "p' = put_frame g ?fr p"
      using run fr True x
      by (auto simp: writing_def guard_write_def get_frame_def set_borrow_def end_write_def on_page_def act_simps)
    then show ?thesis
      using settled_replace [OF s fr(1), of ?fr] fr F by (simp add: frame_ok_def page_at_def)
  qed
qed

lemma scope_safe:
  assumes body: "safe (settled g) m Q" and s: "settled g p" and run: "guarded g m p = (r, p')"
  shows "calm p' \<and> safe_result Q r"
proof -
  obtain x p1 where p1: "m p = (x, p1)" "p' = drop_guard g p1" "r = drop_assert g p1 x"
    using run by (auto simp: act_simps split: prod.splits)
  note B = safeD [OF body s p1(1)]
  then have "r = x"
    using p1(3) by (auto simp: drop_assert_def elim!: settled_frame)
  then show ?thesis
    using B p1(2) settled_drop by simp
qed

lemma pinning_safe:
  assumes body: "\<And>g. safe (settled g) (body g) Q"
  shows "safe calm (pinning err pid body) Q"
proof (rule safeI)
  fix p r p' assume calm: "calm p" and run: "pinning err pid body p = (r, p')"
  obtain w p1 where w: "pin pid p = (w, p1)" by (metis prod.exhaust)
  note P = pin_calm [OF calm w]
  show "calm p' \<and> safe_result Q r"
  proof (cases w)
    case (Ok g)
    then show ?thesis
      using P scope_safe [OF body, of pid p1 r p'] run w by (simp add: pinning_def act_simps)
  qed (use P run w in \<open>auto simp: pinning_def act_simps\<close>)
qed

lemma allocating_safe:
  assumes body: "\<And>g. safe (settled g) (body g) Q"
  shows "safe calm (allocating err body) Q"
proof (rule safeI)
  fix p r p' assume calm: "calm p" and run: "allocating err body p = (r, p')"
  obtain w p1 where w: "pool_allocate_page p = (w, p1)" by (metis prod.exhaust)
  note P = allocate_calm [OF calm w]
  show "calm p' \<and> safe_result Q r"
  proof (cases w)
    case (Ok g)
    then show ?thesis
      using P scope_safe [OF body, of g p1 r p'] run w by (simp add: allocating_def act_simps)
  qed (use P run w in \<open>auto simp: allocating_def act_simps\<close>)
qed

lemma read_page_safe:
  assumes "\<And>g pg. page_at g pg \<Longrightarrow> safe_result Q (f pg)"
  shows "safe calm (read_page err pid f) Q"
  unfolding read_page_def by (intro pinning_safe reading_safe assms)

lemma update_page_safe:
  assumes "\<And>g. safe (page_at g) f Q"
  shows "safe calm (update_page err pid f) Q"
  unfolding update_page_def by (intro pinning_safe writing_safe assms)

lemma new_page_safe:
  assumes "\<And>g. safe (page_at g) f Q"
  shows "safe calm (new_page err f) (\<lambda>(pid, x). Q x)"
  unfolding new_page_def
  by (intro allocating_safe safe_bind [OF writing_safe [OF assms]] safe_ret) simp

section \<open>The other calls\<close>

lemma flush_page_safe: "safe calm (flush_page pid) (\<lambda>_. True)"
proof (rule safeI)
  fix p r p' assume calm: "calm p" and run: "flush_page pid p = (r, p')"
  then have inv: "pool_inv p'"
    using flush_page_evolves [OF calm_inv] evolves_inv by blast
  show "calm p' \<and> safe_result (\<lambda>_. True) r"
  proof (cases "find_frame pid p")
    case None
    then show ?thesis
      using run calm by (auto simp: flush_page_def borrow_inner_run [OF calm_inv [OF calm]] act_simps)
  next
    case (Some fr)
    then have "flush_frame pid p = (r, p')"
      using run by (simp add: flush_page_def borrow_inner_run [OF calm_inv [OF calm]] act_simps)
    then show ?thesis
      using flush_frame_pins [OF Some, of r p'] inv calm by (simp add: calm_def safe_result_not_Panic)
  qed
qed

lemma flush_all_frames_safe: "safe calm flush_all_frames (\<lambda>_. True)"
proof (rule safeI)
  fix p r p' assume calm: "calm p" and run: "flush_all_frames p = (r, p')"
  then show "calm p' \<and> safe_result (\<lambda>_. True) r"
    using flush_frames_pins [OF calm_inv [OF calm], of "map fst (pool_frames p)" r p']
      flush_all_frames_evolves [OF calm_inv [OF calm] run] evolves_inv
    by (auto simp: calm_def flush_all_frames_def act_simps safe_result_not_Panic)
qed

lemma on_disk_safe:
  assumes "never_panics m" and "\<And>d r d'. m d = (r, d') \<Longrightarrow> next_id d \<le> next_id d'"
  shows "safe calm (on_disk m) (\<lambda>_. True)"
proof (rule safeI)
  fix p r p' assume calm: "calm p" and run: "on_disk m p = (r, p')"
  have "evolves p p'"
    using on_disk_evolves [OF calm_inv [OF calm] run] assms(2) by blast
  then show "calm p' \<and> safe_result (\<lambda>_. True) r"
    using on_disk_run [OF assms(1) run] evolves_inv calm
    by (auto simp: calm_def safe_result_not_Panic)
qed

lemma borrow_inner_safe: "safe calm borrow_inner_mut (\<lambda>_. True)"
  by (rule safeI) (auto simp: borrow_inner_run [OF calm_inv])

lemma pool_sync_safe: "safe calm pool_sync (\<lambda>_. True)"
  unfolding pool_sync_def
  by (intro safe_seq [OF borrow_inner_safe] safe_seq [OF flush_all_frames_safe] on_disk_safe disk_safe)
    (metis disk_sync_any order_refl)

lemma set_root_pool_safe: "safe calm (pool_set_catalog_root pid) (\<lambda>_. True)"
  unfolding pool_set_catalog_root_def
  by (intro safe_seq [OF borrow_inner_safe] on_disk_safe set_root_safe) (metis set_catalog_root_any order_refl)

end
