(* ===== verification/Robust_Heap.thy ===== *)
theory Robust_Heap
  imports Robust_Pool Heap_Facts
begin

text \<open>
  Heap files over pages that hold any bytes: an access validates the page first, and on a page
  that validates no operation of the slotted page panics. No well-formedness of the heap is
  assumed but that a handle has a page, which every way of making one gives it.
\<close>

section \<open>Slotted pages\<close>

lemma first_reusable_bound:
  "spec_first_reusable (page_slots sp) = Some k \<Longrightarrow> k < nslots (sp_bytes sp)"
  using first_reusable_Some [of "sp_bytes sp" k] by (simp add: page_slots_def)

lemma sp_insert_not_Panic:
  assumes valid: "valid_layout (sp_bytes sp)" and w: "writable sp"
  shows "fst (sp_insert rec sp) \<noteq> Panic"
proof -
  let ?i = "spec_first_reusable (page_slots sp)"
  let ?growth = "if ?i = None then SLOT_ENTRY_SIZE else 0"
  have n: "nslots (sp_bytes sp) \<le> 1020"
    using layoutD(2) [OF valid] .
  show ?thesis
  proof (cases "65535 < length rec")
    case True
    then show ?thesis by (simp add: sp_insert_def act_simps u16_try_from_def)
  next
    case short: False
    show ?thesis
    proof (cases "?growth + length rec \<le> spec_free (page_slots sp)")
      case False
      then have "spec_free (page_slots sp) < ?growth + length rec" by simp
      from make_room_fails [OF valid this] show ?thesis
        using short n by (simp add: sp_insert_def act_simps u16_try_from_def Let_def)
    next
      case True
      obtain bs where run: "insert_make_room rec ?growth (length rec + ?growth) sp =
          (Ok (), if bs = sp_bytes sp then sp else sp_update bs sp)" (is "_ = (_, ?sp1)")
        and bs: "valid_layout bs" "slots_of bs = page_slots sp" "free_lo bs + length rec + ?growth \<le> free_hi bs"
        using make_room_ok [OF valid w True] by blast
      have bound: "k < nslots bs" if "?i = Some k" for k
        using first_reusable_Some [of bs k] bs(2) that by simp
      have "fst (insert_write rec (as_u16 (length rec)) (map_option of_nat ?i) ?sp1) \<noteq> Panic"
        using insert_write_eq [of ?sp1 rec ?i] bound bs w by (simp only: sp_update_self_or Let_def) simp
      then show ?thesis
        using short n run by (simp add: sp_insert_def act_simps u16_try_from_def Let_def)
    qed
  qed
qed

lemma sp_delete_not_Panic: "valid_layout (sp_bytes sp) \<Longrightarrow> fst (sp_delete r sp) \<noteq> Panic"
  by (simp add: sp_delete_eq)

lemma set_next_not_Panic: "writable sp \<Longrightarrow> fst (set_next_page_id n sp) \<noteq> Panic"
  by (simp add: set_next_page_id_eq)

lemma sp_get_not_Panic: "valid_layout (sp_bytes sp) \<Longrightarrow> sp_get r sp \<noteq> Panic"
  by (simp add: sp_get_eq split: option.split)

lemma records_at_not_Panic: "valid_layout (sp_bytes sp) \<Longrightarrow> records_at sp rs \<noteq> Panic"
  by (induction rs) (auto simp: and_then_Panic_iff sp_get_not_Panic)

text \<open>Opening a page that may hold anything.\<close>

lemma from_backing_cases:
  assumes "page_sized (page_ref \<lparr>backing = b\<rparr>)"
  shows "(from_backing b = Ok \<lparr>backing = b\<rparr> \<and> valid_layout (sp_bytes \<lparr>backing = b\<rparr>)) \<or> (\<exists>e. from_backing b = Err e)"
  using validate_cases [of "\<lparr>backing = b\<rparr>"] assms
  by (auto simp: from_backing_def sp_bytes_def page_sized_def split: if_splits)

lemma with_slotted_ref_safe:
  assumes pg: "page_at g pg" and f: "\<And>sp. valid_layout (sp_bytes sp) \<Longrightarrow> safe_result Q (f sp)"
  shows "safe_result Q (with_slotted_ref f pg)"
proof -
  have "page_sized (page_ref \<lparr>backing = Shared pg\<rparr>)"
    using pg by (simp add: page_at_def page_ref_def)
  from from_backing_cases [OF this] show ?thesis
    using f by (auto simp: with_slotted_ref_def from_page_ref_def)
qed

lemma legal_page_at: "page_at g pg \<Longrightarrow> legal_change pg pg' \<Longrightarrow> page_at g pg'"
  by (simp add: page_at_def legal_change_def)

lemma with_slotted_mut_safe:
  assumes legal: "legal_act m"
    and m: "\<And>sp. valid_layout (sp_bytes sp) \<Longrightarrow> writable sp \<Longrightarrow> safe_result Q (fst (m sp))"
  shows "safe (page_at g) (with_slotted_mut m) Q"
proof (rule safeI)
  fix pg r pg' assume pg: "page_at g pg" and run: "with_slotted_mut m pg = (r, pg')"
  let ?sp = "\<lparr>backing = Borrowed pg\<rparr>"
  have ref: "page_ref ?sp = pg" "writable ?sp" "page_sized pg"
    using pg by (simp_all add: page_ref_def writable_def page_at_def)
  obtain x sp' where x: "m ?sp = (x, sp')" by (metis prod.exhaust)
  have "legal_change pg (page_ref sp')"
    using legal ref x unfolding legal_act_def by (metis snd_conv)
  then have "page_at g (page_ref sp')"
    by (rule legal_page_at [OF pg])
  then show "page_at g pg' \<and> safe_result Q r"
    using from_backing_cases [of "Borrowed pg"] m [of ?sp] x run pg ref
    by (auto simp: with_slotted_mut_def from_page_mut_def)
qed

lemma with_slotted_new_safe:
  assumes legal: "legal_act m"
    and m: "\<And>sp. valid_layout (sp_bytes sp) \<Longrightarrow> writable sp \<Longrightarrow> safe_result Q (fst (m sp))"
  shows "safe (page_at g) (with_slotted_new m) Q"
proof (rule safeI)
  fix pg r pg' assume pg: "page_at g pg" and run: "with_slotted_new m pg = (r, pg')"
  let ?sp = "\<lparr>backing = Borrowed (pg\<lparr>page_bytes := empty_layout, page_dirty := True\<rparr>)\<rparr>"
  have sized: "page_sized pg" using pg by (simp add: page_at_def)
  have "writable ?sp" "valid_layout (sp_bytes ?sp)"
    using valid_empty_layout by (simp_all add: writable_def sp_bytes_def page_ref_def)
  then have "safe_result Q r"
    using m [of ?sp] run by (auto simp: with_slotted_new_eq [OF sized] split: prod.splits)
  moreover have "page_at g pg'"
    using legal_page_at [OF pg with_slotted_new_legal [OF legal sized]] run by simp
  ultimately show "page_at g pg' \<and> safe_result Q r" by simp
qed

section \<open>Heap files\<close>

abbreviation has_page :: "heap_file \<Rightarrow> bool" where
  "has_page h \<equiv> heap_pages h \<noteq> []"

lemma heap_create_safe: "safe calm heap_create has_page"
proof -
  have "safe calm (new_page H_Buffer (with_slotted_new (ret ()))) (\<lambda>(pid, x). True)"
    by (intro new_page_safe with_slotted_new_safe legal_intros) (simp add: act_simps)
  then show ?thesis
    unfolding heap_create_def by (rule safe_bind) (auto intro: safe_ret)
qed

lemma next_link_safe: "page_at g pg \<Longrightarrow> safe_result (\<lambda>_. True) (next_link pg)"
  unfolding next_link_def by (rule with_slotted_ref_safe) (simp_all add: next_page_id_link)

lemma open_chain_safe:
  "calm p \<Longrightarrow> open_chain pages visited current p = (r, p') \<Longrightarrow> calm p' \<and> safe_result (\<lambda>ps. ps \<noteq> []) r"
proof (induction pages visited current p rule: open_chain.induct)
  case (1 pages visited current p)
  show ?case
  proof (cases "current \<in> visited")
    case True
    then show ?thesis using "1.prems" by (auto simp: open_chain.simps [of pages])
  next
    case False
    obtain w p1 where w: "read_page H_Buffer current next_link p = (w, p1)" by (metis prod.exhaust)
    have S: "calm p1" "safe_result (\<lambda>_. True) w"
      using safeD [OF read_page_safe [OF next_link_safe] "1.prems"(1) w] by simp_all
    show ?thesis
    proof (cases "\<exists>n. w = Ok (Some n)")
      case True
      then obtain n where n: "w = Ok (Some n)" by blast
      then have "open_chain (pages @ [current]) (insert current visited) n p1 = (r, p')"
        using "1.prems"(2) False w by (simp add: open_chain.simps [of pages])
      with "1.IH" [OF False w [unfolded n, symmetric] refl refl] S(1) show ?thesis by blast
    next
      case no: False
      then show ?thesis
        using "1.prems"(2) False w S by (cases w) (auto simp: open_chain.simps [of pages] split: option.splits)
    qed
  qed
qed

lemma heap_open_safe: "safe calm (heap_open pid) has_page"
proof -
  have "safe calm (open_chain [] {} pid) (\<lambda>ps. ps \<noteq> [])"
    by (rule safeI) (rule open_chain_safe)
  then show ?thesis
    unfolding heap_open_def by (rule safe_bind) (simp add: safe_ret)
qed

lemma insert_attempt_safe: "safe calm (insert_attempt rec pid) (\<lambda>r. r \<noteq> Panic)"
  unfolding insert_attempt_def
proof (intro update_page_safe with_slotted_mut_safe)
  let ?m = "(\<lambda>sp. case sp_insert rec sp of (Panic, sp') \<Rightarrow> (Panic, sp') | (r, sp') \<Rightarrow> (Ok r, sp'))
    :: (slotted_page, rid sp_result, heap_error) act"
  have "snd (?m sp) = snd (sp_insert rec sp)" for sp
    by (simp split: prod.split result.split)
  then show "legal_act ?m"
    using legal_ops(1) [of rec] unfolding legal_act_def by simp
  show "safe_result (\<lambda>r. r \<noteq> Panic) (fst (?m sp))" if "valid_layout (sp_bytes sp)" "writable sp" for sp
    using sp_insert_not_Panic [OF that, of rec] by (auto split: prod.splits result.splits)
qed

lemma insert_into_safe: "safe calm (insert_into rec pids) (\<lambda>_. True)"
proof (induction pids)
  case Nil
  then show ?case by (simp add: safe_ret)
next
  case (Cons pid pids)
  show ?case
    unfolding insert_into.simps
    by (rule safe_bind [OF insert_attempt_safe])
      (auto intro: safe_ret safe_fail Cons.IH split: result.split slotted_page_error.split)
qed

text \<open>A heap handle with the pool.\<close>

definition calm_heap :: "heap_file \<times> buffer_pool \<Rightarrow> bool" where
  "calm_heap = (\<lambda>(h, p). calm p \<and> has_page h)"

lemma on_pool_safe: "safe calm m Q \<Longrightarrow> safe calm_heap (on_pool m) Q"
  unfolding on_pool_def calm_heap_def by (erule safe_on_first) auto

lemma append_page_safe: "safe calm_heap (append_page_with_record rec) (\<lambda>_. True)"
proof -
  have new: "safe calm (new_page H_Buffer (with_slotted_new (map_err_act H_Page (sp_insert rec)))) (\<lambda>(pid, x). True)"
    by (intro new_page_safe with_slotted_new_safe legal_intros)
      (auto simp: act_simps safe_result_not_Panic split: prod.split dest: sp_insert_not_Panic [of _ rec])
  have link: "safe calm (update_page H_Buffer pid (with_slotted_mut (map_err_act H_Page (set_next_page_id n)))) (\<lambda>_. True)" for pid n
    by (intro update_page_safe with_slotted_mut_safe legal_intros)
      (auto simp: act_simps safe_result_not_Panic split: prod.split dest: set_next_not_Panic [of _ n])
  have last: "safe calm_heap (query (\<lambda>(h, p). last_page_id h)) (\<lambda>_. True)"
    by (rule safe_query) (auto simp: calm_heap_def last_page_id_def)
  show ?thesis
    unfolding append_page_with_record_def
  proof (rule safe_bind [OF on_pool_safe [OF new]], clarify)
    fix new_pid :: page_id and rid :: rid
    show "safe calm_heap
      (bind_act (query (\<lambda>(h, p). last_page_id h)) (\<lambda>previous_page_id.
       seq_act (on_pool (update_page H_Buffer previous_page_id
               (with_slotted_mut (map_err_act H_Page (set_next_page_id (Some new_pid))))))
      (seq_act (update (\<lambda>(h, p). (h\<lparr>heap_pages := heap_pages h @ [new_pid]\<rparr>, p))) (ret rid)))) (\<lambda>_. True)"
      by (intro safe_bind [OF last] safe_seq [OF on_pool_safe [OF link]] safe_seq [OF safe_update] safe_ret TrueI)
        (auto simp: calm_heap_def)
  qed
qed

lemma heap_insert_safe: "safe calm_heap (heap_insert rec) (\<lambda>_. True)"
proof -
  have pages: "safe calm_heap (query (\<lambda>(h, p). Ok (heap_pages h))) (\<lambda>_. True)"
    by (rule safe_query) auto
  show ?thesis
    unfolding heap_insert_def
    by (auto intro!: safe_fail safe_bind [OF pages] safe_bind [OF on_pool_safe [OF insert_into_safe]] safe_ret append_page_safe
        split: option.split)
qed

lemma owned_safe: "safe calm (query (\<lambda>_. ensure_owned_rid r h)) (\<lambda>_. True)"
  by (rule safe_query) (simp add: ensure_owned_rid_def)

lemma heap_get_safe: "safe calm (heap_get h r) (\<lambda>_. True)"
  unfolding heap_get_def
  by (intro safe_seq [OF owned_safe] read_page_safe with_slotted_ref_safe)
    (simp_all add: safe_result_not_Panic sp_get_not_Panic)

lemma heap_delete_safe: "safe calm (heap_delete h r) (\<lambda>_. True)"
  unfolding heap_delete_def
  by (intro safe_seq [OF owned_safe] update_page_safe with_slotted_mut_safe legal_intros)
    (auto simp: act_simps safe_result_not_Panic split: prod.split dest: sp_delete_not_Panic [of _ r])

lemma scan_page_safe: "page_at g pg \<Longrightarrow> safe_result (\<lambda>_. True) (scan_page pg)"
  unfolding scan_page_def
proof (erule with_slotted_ref_safe)
  fix sp assume valid: "valid_layout (sp_bytes sp)"
  show "safe_result (\<lambda>_. True) (and_then (map_err H_Page (live_rids sp)) (\<lambda>rids. map_err H_Page (records_at sp rids)))"
    using live_rids_eq [OF layoutD(2) [OF valid]] records_at_not_Panic [OF valid]
    by (simp add: safe_result_not_Panic)
qed

lemma heap_scan_safe: "safe calm (heap_scan h) (\<lambda>_. True)"
  unfolding heap_scan_def by (intro safe_for_each read_page_safe scan_page_safe)

end
