(* ===== verification/Robust_Catalog.thy ===== *)
theory Robust_Catalog
  imports Robust_Heap Database_Props
begin

text \<open>
  The whole engine on any file: from the bytes of a file, whatever they are, and through any
  calls, whatever fails below them, no call of the catalog or of a heap panics.
\<close>

section \<open>The catalog\<close>

lemma load_tables_safe: "safe calm (load_tables recs t ids hi) (\<lambda>_. True)"
proof (induction recs arbitrary: t ids hi)
  case Nil
  then show ?case by (simp add: safe_ret)
next
  case (Cons rec recs)
  have decode: "safe calm (query (\<lambda>_. decode_table_record (record_bytes rec))) (\<lambda>_. True)"
    by (rule safe_query) (simp add: safe_result_not_Panic decode_table_record_not_Panic)
  show ?case
    unfolding load_tables.simps
    by (auto intro!: safe_bind [OF decode] safe_fail safe_seq [OF safe_map_err [OF heap_open_safe]] Cons.IH)
qed

abbreviation has_catalog_page :: "catalog \<Rightarrow> bool" where
  "has_catalog_page c \<equiv> has_page (catalog_heap c)"

lemma catalog_open_safe: "safe calm catalog_open has_catalog_page"
proof -
  have root: "safe calm (query (\<lambda>p. ok_or (header_catalog_root (pool_header p)) CE_NotInitialized)) (\<lambda>_. True)"
    by (rule safe_query) (simp add: safe_result_not_Panic)
  show ?thesis
    unfolding catalog_open_def
    by (intro safe_bind [OF root] safe_bind [OF safe_map_err [OF heap_open_safe]]
        safe_bind [OF safe_map_err [OF heap_scan_safe]] safe_bind [OF load_tables_safe])
      (auto intro: safe_ret)
qed

lemma first_page_id_safe: "has_page h \<Longrightarrow> first_page_id h \<noteq> Panic"
  by (simp add: first_page_id_def split: list.split)

lemma first_query_safe: "has_page h \<Longrightarrow> safe I (query (\<lambda>_. map_err CE_Heap (first_page_id h))) (\<lambda>_. True)"
  by (intro safe_query) (simp add: safe_result_not_Panic first_page_id_safe)

lemma catalog_create_safe: "safe calm catalog_create has_catalog_page"
proof -
  have root: "safe calm (query (\<lambda>p. Ok (header_catalog_root (pool_header p)))) (\<lambda>_. True)"
    by (rule safe_query) simp
  have rest: "safe calm
      (bind_act (map_err_act CE_Heap heap_create) (\<lambda>heap.
       bind_act (query (\<lambda>_. map_err CE_Heap (first_page_id heap))) (\<lambda>root.
       seq_act (map_err_act CE_Buffer (flush_page root))
      (seq_act (map_err_act CE_Buffer (pool_set_catalog_root root))
               (ret \<lparr>catalog_heap = heap, catalog_tables = RBT.empty, next_table_id = FIRST_TABLE_ID\<rparr>)))))
      has_catalog_page"
  proof (rule safe_bind [OF safe_map_err [OF heap_create_safe]])
    fix heap assume heap: "has_page heap"
    show "safe calm
      (bind_act (query (\<lambda>_. map_err CE_Heap (first_page_id heap))) (\<lambda>root.
       seq_act (map_err_act CE_Buffer (flush_page root))
      (seq_act (map_err_act CE_Buffer (pool_set_catalog_root root))
               (ret \<lparr>catalog_heap = heap, catalog_tables = RBT.empty, next_table_id = FIRST_TABLE_ID\<rparr>))))
      has_catalog_page"
      by (intro safe_bind [OF first_query_safe] safe_seq [OF safe_map_err [OF flush_page_safe]]
          safe_seq [OF safe_map_err [OF set_root_pool_safe]] safe_ret) (use heap in simp_all)
  qed
  show ?thesis
    unfolding catalog_create_def by (rule safe_bind [OF root]) (auto intro: rest safe_fail split: option.split)
qed

lemma open_table_heap_safe: "safe calm (open_table_heap c n) has_page"
proof -
  have table: "safe calm (query (\<lambda>_. ok_or (catalog_table c n) (CE_TableNotFound n))) (\<lambda>_. True)"
    by (rule safe_query) (simp add: safe_result_not_Panic)
  show ?thesis
    unfolding open_table_heap_def by (intro safe_bind [OF table] safe_map_err [OF heap_open_safe])
qed

text \<open>A catalog with the pool, while a table is created: the next identifier is still \<open>n\<close>.\<close>

definition calm_catalog :: "u32 \<Rightarrow> catalog \<times> buffer_pool \<Rightarrow> bool" where
  "calm_catalog n = (\<lambda>(c, p). calm p \<and> has_catalog_page c \<and> next_table_id c = n)"

lemma on_catalog_pool_safe: "safe calm m Q \<Longrightarrow> safe (calm_catalog n) (on_catalog_pool m) Q"
  unfolding on_catalog_pool_def calm_catalog_def by (erule safe_on_first) auto

lemma on_catalog_heap_safe: "safe calm_heap m Q \<Longrightarrow> safe (calm_catalog n) (on_catalog_heap m) Q"
proof (rule safeI)
  fix s r s' assume m: "safe calm_heap m Q" and s: "calm_catalog n s" and run: "on_catalog_heap m s = (r, s')"
  obtain c p where cp: "s = (c, p)" by (cases s)
  obtain x h p' where x: "m (catalog_heap c, p) = (x, (h, p'))" by (metis prod.exhaust)
  have "calm_heap (h, p') \<and> safe_result Q x"
    using safeD [OF m _ x] s by (simp add: cp calm_catalog_def calm_heap_def)
  then show "calm_catalog n s' \<and> safe_result Q r"
    using run x s by (auto simp: on_catalog_heap_def cp calm_catalog_def calm_heap_def)
qed

lemma bind_query: "f s = Ok x \<Longrightarrow> bind_act (query f) k s = k x s"
  by (simp add: act_simps)

lemma checked_next_id: "n \<noteq> - 1 \<Longrightarrow> checked_add_word n (1 :: u32) = Some (n + 1)"
  using unat_u32_less [of n] unat_u32_max [of n] by (simp add: checked_add_word_def)

definition create_fine :: "(table_metadata, catalog_error) result \<times> (catalog \<times> buffer_pool) \<Rightarrow> bool" where
  "create_fine = (\<lambda>(r, (c, p)). calm p \<and> has_catalog_page c \<and> r \<noteq> Panic)"

lemma create_fine_err: "calm_catalog n s \<Longrightarrow> create_fine (Err e, s)"
  by (auto simp: calm_catalog_def create_fine_def)

text \<open>The steps up to the record of the table keep the catalog; after it nothing can fail.\<close>

lemma create_table_fine:
  assumes ok: "calm p" "has_catalog_page c"
  shows "create_fine (create_table s (c, p))"
proof (cases "RBT.lookup (catalog_tables c) (schema_name s) \<noteq> None \<or> next_table_id c = - 1
    \<or> MAX_ROW_SIZE < TABLE_RECORD_HEADER_SIZE + length (schema_encode s)")
  case True
  then show ?thesis
    using ok by (auto simp: create_table_def bind_query Let_def fail_def create_fine_def)
next
  case go: False
  have here: "calm_catalog (next_table_id c) (c, p)"
    using ok by (simp add: calm_catalog_def)
  note steps = safe_then [where R = create_fine, OF on_catalog_pool_safe [OF safe_map_err [OF heap_create_safe]] here]
    safe_then [where R = create_fine, OF first_query_safe]
    safe_seq_then [where R = create_fine, OF on_catalog_heap_safe [OF heap_insert_safe]]
  show ?thesis
    using go by (simp add: create_table_def bind_query Let_def)
      (rule steps(1), rule steps(2), assumption, assumption, rule steps(3), assumption,
        auto intro: create_fine_err simp: act_simps checked_next_id calm_catalog_def create_fine_def)
qed

section \<open>Sessions\<close>

text \<open>A pool over a database that was just opened or created: the file may hold any bytes, and any
  of the calls on it may fail, at once or later.\<close>

definition opened_pool :: "buffer_pool \<Rightarrow> bool" where
  "opened_pool p \<longleftrightarrow> (\<exists>path ro found faults n d. pool_new d n = Ok p
     \<and> (open_with_mode path ro found faults = Ok d \<or> fst (disk_create path found faults) = Ok d))"

text \<open>What a client does: the steps of a database in use, and \<^verbatim>\<open>sync\<close>.\<close>

inductive session_step :: "database \<Rightarrow> database \<Rightarrow> bool" where
  session_db: "db_step s s' \<Longrightarrow> session_step s s'"
| session_sync: "pool_sync p = (r, p') \<Longrightarrow> session_step (c, H, p) (c, H, p')"

definition engine_ok :: "database \<Rightarrow> bool" where
  "engine_ok = (\<lambda>(c, H, p). calm p \<and> has_catalog_page c \<and> (\<forall>n. has_page (H n)))"

lemma open_with_mode_header:
  assumes "open_with_mode path ro found faults = Ok d"
  shows "next_id d \<noteq> 0"
proof -
  obtain bs where bs: "found = Some bs"
    using assms by (cases found) (auto simp: open_with_mode_def)
  obtain f f' where "open_steps path f = (Ok (disk_header d), f')"
    using assms unfolding bs open_with_mode_eq
    by (auto simp: and_then_Ok_iff split: list.splits option.splits prod.splits)
  then obtain hbs where "decode_header hbs = Ok (disk_header d)"
    by (auto simp: open_steps_def read_header_from_file_def act_simps Let_def split: prod.splits result.splits if_splits)
  then show ?thesis
    using decode_header_wf by (auto simp: header_wf_def)
qed

lemma disk_create_header: "fst (disk_create path found faults) = Ok d \<Longrightarrow> next_id d \<noteq> 0"
  by (auto simp: disk_create_def Let_def and_then_Ok_iff split: option.splits list.splits prod.splits)

lemma opened_pool_calm: "opened_pool p \<Longrightarrow> calm p"
proof -
  assume "opened_pool p"
  then obtain d n where d: "next_id d \<noteq> 0" and p: "pool_new d n = Ok p"
    unfolding opened_pool_def using open_with_mode_header disk_create_header by blast
  then show ?thesis
    by (auto simp: pool_new_def calm_def pool_inv_def pins_def find_frame_def split: if_splits)
qed

lemma create_keeps_engine:
  assumes "engine_ok (c, H, p)" and "create_table s (c, p) = (r, (c', p'))"
  shows "calm p' \<and> has_catalog_page c' \<and> r \<noteq> Panic"
  using create_table_fine [of p c s] assms by (simp add: engine_ok_def create_fine_def)

lemma insert_keeps_engine:
  assumes "engine_ok (c, H, p)" and "heap_insert rec (H n, p) = (r, (h', p'))"
  shows "calm p' \<and> has_page h' \<and> r \<noteq> Panic"
  using safeD [OF heap_insert_safe _ assms(2)] assms(1) by (simp add: engine_ok_def calm_heap_def safe_result_not_Panic)

lemmas engine_calls = heap_get_safe heap_delete_safe heap_scan_safe pool_sync_safe
  safe_any [OF open_table_heap_safe] safe_any [OF catalog_open_safe] safe_any [OF catalog_create_safe]

lemma engine_call:
  assumes "safe calm m (\<lambda>_. True)" and "engine_ok (c, H, p)" and "m p = (r, p')"
  shows "engine_ok (c, H, p') \<and> r \<noteq> Panic"
  using safeD [OF assms(1) _ assms(3)] assms(2) by (simp add: engine_ok_def safe_result_not_Panic)

lemma calm_call: "safe calm m (\<lambda>_. True) \<Longrightarrow> calm p \<Longrightarrow> fst (m p) \<noteq> Panic"
  using safeD [of calm m "\<lambda>_. True" p "fst (m p)" "snd (m p)"] by (simp add: safe_result_not_Panic)

lemma db_step_engine:
  assumes ok: "engine_ok (c, H, p)" and step: "db_step (c, H, p) s'"
  shows "engine_ok s'"
  using step
proof (elim db_stepE, goal_cases)
  case (1 s r c' p')
  then show ?case
    using create_keeps_engine [OF ok 1(3)] ok by (auto simp: engine_ok_def split: result.split)
next
  case (2 n rec r h' p')
  then show ?case
    using insert_keeps_engine [OF ok, of rec n r h' p'] ok by (simp add: engine_ok_def)
next
  case (3 n rid u p')
  then show ?case using engine_call [OF heap_delete_safe ok] by blast
next
  case (4 n rid b p')
  then show ?case using engine_call [OF heap_get_safe ok] by blast
next
  case (5 n recs p')
  then show ?case using engine_call [OF heap_scan_safe ok] by blast
next
  case (6 n r p')
  then show ?case
    using safeD [OF open_table_heap_safe _ 6(2)] ok by (auto simp: engine_ok_def split: result.split)
next
  case (7 r p')
  then show ?case
    using safeD [OF catalog_open_safe _ 7(2)] ok by (auto simp: engine_ok_def split: result.split)
qed

lemma session_engine:
  assumes "session_step\<^sup>*\<^sup>* s s'" and "engine_ok s"
  shows "engine_ok s'"
  using assms
proof (induction rule: rtranclp_induct)
  case (step t u)
  have "engine_ok t" using step.IH step.prems .
  with step.hyps(2) show ?case
  proof (cases rule: session_step.cases)
    case session_db
    then show ?thesis using db_step_engine [of "fst t" "fst (snd t)" "snd (snd t)" u] \<open>engine_ok t\<close> by simp
  next
    case (session_sync p r p' c H)
    then show ?thesis using engine_call [OF pool_sync_safe, of c H p r p'] \<open>engine_ok t\<close> by simp
  qed
qed simp

text \<open>Opening: neither the disk manager nor the catalog panics on any file.\<close>

theorem opening_never_panics:
  "open_with_mode path ro found faults \<noteq> Panic \<and> fst (disk_create path found faults) \<noteq> Panic
   \<and> (opened_pool p \<longrightarrow> fst (catalog_open p) \<noteq> Panic \<and> fst (catalog_create p) \<noteq> Panic)"
proof -
  have "fst (catalog_open p) \<noteq> Panic \<and> fst (catalog_create p) \<noteq> Panic" if "opened_pool p"
    using calm_call [OF engine_calls(6) opened_pool_calm [OF that]] calm_call [OF engine_calls(7) opened_pool_calm [OF that]]
    by blast
  then show ?thesis
    using open_safe create_safe by blast
qed

text \<open>C3. The engine never panics: whatever bytes the file holds and whatever calls on it fail, partial
  writes included, once a catalog was opened or created no later call of a client panics, after
  any run of calls and whatever those returned, and no guard is left behind between calls.\<close>

theorem engine_never_panics:
  assumes "opened_pool p0" and "catalog_open p0 = (Ok c0, p1) \<or> catalog_create p0 = (Ok c0, p1)"
    and "\<And>n. heap_pages (H0 n) \<noteq> []" and "session_step\<^sup>*\<^sup>* (c0, H0, p1) (c, H, p)"
  shows "fst (create_table s (c, p)) \<noteq> Panic \<and> fst (catalog_open p) \<noteq> Panic \<and> fst (open_table_heap c n p) \<noteq> Panic
    \<and> fst (heap_insert rec (H n, p)) \<noteq> Panic \<and> fst (heap_get (H n) rid p) \<noteq> Panic
    \<and> fst (heap_delete (H n) rid p) \<noteq> Panic \<and> fst (heap_scan (H n) p) \<noteq> Panic \<and> fst (pool_sync p) \<noteq> Panic
    \<and> pins p = (\<lambda>_. 0)"
proof -
  have "engine_ok (c0, H0, p1)"
    using assms(2,3) safeD [OF catalog_open_safe opened_pool_calm [OF assms(1)]]
      safeD [OF catalog_create_safe opened_pool_calm [OF assms(1)]] by (fastforce simp: engine_ok_def)
  then have ok: "engine_ok (c, H, p)"
    using session_engine [OF assms(4)] by blast
  then have calm: "calm p"
    by (simp add: engine_ok_def)
  have "fst (create_table s (c, p)) \<noteq> Panic"
    using create_keeps_engine [OF ok, of s] by (metis prod.exhaust_sel)
  moreover have "fst (heap_insert rec (H n, p)) \<noteq> Panic"
    using insert_keeps_engine [OF ok, of rec n] by (metis prod.exhaust_sel)
  moreover have "pins p = (\<lambda>_. 0)"
    using calm by (simp add: calm_def)
  ultimately show ?thesis
    by (intro conjI engine_calls [THEN calm_call] calm)
qed

theorem engine_never_panics_witness:
  "\<exists>c p. catalog_create (fresh_pool 1) = (Ok c, p) \<and> fst (create_table sample_schema (c, p)) \<noteq> Panic
     \<and> fst (heap_insert [1, 2] (\<lparr>heap_pages = [99]\<rparr>, p)) \<noteq> Panic"
proof -
  obtain c p where c: "catalog_create (fresh_pool 1) = (Ok c, p)"
    by (rule fresh_db)
  have "fst (disk_create ''db'' None []) = Ok fresh_disk"
    by (simp add: disk_create_eq)
  then have "opened_pool (fresh_pool 1)"
    unfolding opened_pool_def using pool_new_eq [of 1] by fastforce
  from engine_never_panics [OF this disjI2 [OF c], of "\<lambda>_. \<lparr>heap_pages = [99]\<rparr>" c "\<lambda>_. \<lparr>heap_pages = [99]\<rparr>" p]
  show ?thesis using c by auto
qed

end
