(* ===== verification/Test_Support.thy ===== *)
theory Test_Support
  imports Utf8
begin

text \<open>
  What the unit tests of the repository use. A test is a result: \<open>Ok ()\<close> when it passes, \<open>Panic\<close>
  when an \<^verbatim>\<open>unwrap\<close> or an assertion fails. The tests are definitions translated from the sources, and
  a lemma for each says that the model passes it.
\<close>

type_synonym 'a unwrapped = "('a, unit) result"
type_synonym test = "unit unwrapped"

definition assert_that :: "bool \<Rightarrow> (unit, 'e) result" where
  "assert_that b = (if b then Ok () else Panic)"

text \<open>\<^verbatim>\<open>matches!(r, Err(e) if p(e))\<close>.\<close>

fun fails_with :: "('e \<Rightarrow> bool) \<Rightarrow> ('a, 'e) result \<Rightarrow> bool" where
  "fails_with p (Ok x) \<longleftrightarrow> False"
| "fails_with p (Err e) \<longleftrightarrow> p e"
| "fails_with p Panic \<longleftrightarrow> False"

text \<open>A string literal of the source, all of them ASCII.\<close>

definition ascii :: "string \<Rightarrow> str" where
  "ascii s = map of_char s"

lemma ascii_length: "length (ascii s) = length s"
  by (simp add: ascii_def)

named_theorems test_simps

lemma assert_that_simps [simp, test_simps]: "assert_that True = Ok ()" "assert_that False = Panic"
  by (simp_all add: assert_that_def)

lemma assert_that_Ok [simp]: "assert_that b = Ok () \<longleftrightarrow> b"
  by (simp add: assert_that_def)

text \<open>A call whose result the test looks at, and an assertion between calls.\<close>

definition attempt :: "('s, 'a, 'e) act \<Rightarrow> ('s, ('a, 'e) result, 'f) act" where
  "attempt m = (\<lambda>s. case m s of (r, s') \<Rightarrow> (Ok r, s'))"

definition assert_act :: "bool \<Rightarrow> ('s, unit, 'e) act" where
  "assert_act b = query (\<lambda>_. assert_that b)"

lemma attempt_run [act_simps]: "attempt m s = (case m s of (r, s') \<Rightarrow> (Ok r, s'))"
  by (simp add: attempt_def)

lemma assert_act_run [act_simps]: "assert_act b s = (assert_that b, s)"
  by (simp add: assert_act_def query_apply)

text \<open>Lists and little-endian integers written out.\<close>

lemma zeros_numeral [test_simps]: "replicate (numeral k) (0 :: u8) = 0 # replicate (pred_numeral k) 0"
  by (simp add: numeral_eq_Suc)

lemma list_update_numeral [test_simps]: "(x # xs)[numeral k := y] = x # xs[pred_numeral k := y]"
  by (simp add: numeral_eq_Suc)

lemma to_le_numeral [test_simps]: "to_le (numeral k) w = ucast w # to_le (pred_numeral k) (drop_bit 8 w)"
  by (simp add: numeral_eq_Suc)

end
