(* ===== verification/Test_Heap.thy ===== *)
theory Test_Heap
  imports Slotted_Props Test_Support
begin

text \<open>The unit tests of \<^verbatim>\<open>heap/slotted_page.rs\<close>.\<close>

section \<open>The tests\<close>

text \<open>A test on \<^verbatim>\<open>SlottedPage::new(pid)\<close>; \<^verbatim>\<open>assert_eq!\<close> on what a method of the page returns.\<close>

definition on_slotted :: "page_id \<Rightarrow> (slotted_page, unit, unit) act \<Rightarrow> test" where
  "on_slotted pid body = and_then (expect (slotted_new pid)) (\<lambda>page. fst (body page))"

definition assert_eq :: "(slotted_page \<Rightarrow> 'a sp_result) \<Rightarrow> 'a \<Rightarrow> (slotted_page, unit, unit) act" where
  "assert_eq f v = query (\<lambda>page. and_then (expect (f page)) (\<lambda>r. assert_that (r = v)))"

abbreviation (input) assert_invalid_rid :: "rid \<Rightarrow> (slotted_page, unit, unit) act" where
  "assert_invalid_rid rid \<equiv> query (\<lambda>page. assert_that
     (fails_with (\<lambda>e. case e of SP_InvalidRid _ \<Rightarrow> True | _ \<Rightarrow> False) (sp_get rid page)))"

definition new_page_has_expected_layout :: test where
  "new_page_has_expected_layout = on_slotted 7 (
     seq_act (query (\<lambda>page. assert_that (sp_page_id page = 7)))
    (seq_act (assert_eq slot_count 0)
    (seq_act (assert_eq live_count 0)
    (seq_act (assert_eq contiguous_free_space (PAGE_SIZE - PAGE_HEADER_SIZE))
             (assert_eq next_page_id None)))))"

definition inserts_and_reads_variable_length_records :: test where
  "inserts_and_reads_variable_length_records = on_slotted 3 (
     bind_act (expect_act (sp_insert (ascii ''north''))) (\<lambda>first.
     bind_act (expect_act (sp_insert (ascii ''database engine''))) (\<lambda>second.
     seq_act (assert_eq (sp_get first) (ascii ''north''))
    (seq_act (assert_eq (sp_get second) (ascii ''database engine''))
    (seq_act (assert_eq slot_count 2)
             (assert_eq live_count 2))))))"

definition deletion_invalidates_old_rid_and_reuses_slot_safely :: test where
  "deletion_invalidates_old_rid_and_reuses_slot_safely = on_slotted 9 (
     bind_act (expect_act (sp_insert (ascii ''old row''))) (\<lambda>old.
     seq_act (expect_act (sp_delete old))
    (seq_act (assert_invalid_rid old)
    (bind_act (expect_act (sp_insert (ascii ''new row''))) (\<lambda>replacement.
     seq_act (assert_act (rid_slot replacement = rid_slot old))
    (seq_act (assert_act (rid_generation replacement = rid_generation old + 1))
    (seq_act (assert_eq (sp_get replacement) (ascii ''new row''))
             (assert_invalid_rid old))))))))"

definition insertion_compacts_deleted_record_space :: test where
  "insertion_compacts_deleted_record_space = on_slotted 11 (
     bind_act (expect_act (sp_insert (replicate 3000 1))) (\<lambda>first.
     bind_act (expect_act (sp_insert (replicate 3000 2))) (\<lambda>second.
     seq_act (expect_act (sp_delete first))
    (bind_act (expect_act (sp_insert (replicate 2500 3))) (\<lambda>third.
     seq_act (assert_eq (sp_get second) (replicate 3000 2))
    (seq_act (assert_eq (sp_get third) (replicate 2500 3))
             (assert_eq live_count 2)))))))"

definition compaction_preserves_live_rids :: test where
  "compaction_preserves_live_rids = on_slotted 12 (
     bind_act (expect_act (sp_insert (ascii ''first''))) (\<lambda>first.
     bind_act (expect_act (sp_insert (ascii ''second''))) (\<lambda>second.
     bind_act (expect_act (sp_insert (ascii ''third''))) (\<lambda>third.
     seq_act (expect_act (sp_delete second))
    (seq_act (expect_act compact)
    (seq_act (assert_eq (sp_get first) (ascii ''first''))
             (assert_eq (sp_get third) (ascii ''third''))))))))"

definition reports_no_space_without_modifying_live_rows :: test where
  "reports_no_space_without_modifying_live_rows = on_slotted 13 (
     bind_act (expect_act (sp_insert (replicate 7000 4))) (\<lambda>existing.
     bind_act (attempt (sp_insert (replicate 2000 5))) (\<lambda>result.
     seq_act (assert_act (fails_with (\<lambda>e. case e of SP_NoSpace _ _ \<Rightarrow> True | _ \<Rightarrow> False) result))
    (seq_act (assert_eq (sp_get existing) (replicate 7000 4))
             (assert_eq live_count 1)))))"

definition survives_conversion_to_and_from_raw_page :: test where
  "survives_conversion_to_and_from_raw_page = on_slotted 14 (
     bind_act (expect_act (sp_insert (ascii ''persistent bytes''))) (\<lambda>rid.
     query (\<lambda>original.
       and_then (expect (into_page original)) (\<lambda>page.
       and_then (expect (from_page page)) (\<lambda>reopened.
       and_then (expect (sp_get rid reopened)) (\<lambda>bs. assert_that (bs = ascii ''persistent bytes'')))))))"

definition rejects_corrupt_page_magic :: test where
  "rejects_corrupt_page_magic = fst (
     (seq_act (expect_act (page_write MAGIC_OFFSET (ascii ''NOPE'')))
              (query (\<lambda>raw. assert_that
                (fails_with (\<lambda>e. e = SP_Corrupt ''invalid heap-page magic'') (from_page raw))))) (zeroed 15))"

definition stores_heap_page_link :: test where
  "stores_heap_page_link = on_slotted 16 (
     seq_act (expect_act (set_next_page_id (Some 17)))
    (seq_act (assert_eq next_page_id (Some 17))
    (seq_act (expect_act (set_next_page_id None))
             (assert_eq next_page_id None))))"

definition generation_exhaustion_retires_slot :: test where
  "generation_exhaustion_retires_slot = on_slotted 18 (
     bind_act (expect_act (sp_insert (ascii ''last generation''))) (\<lambda>rid.
     seq_act (expect_act (write_slot_u16 (rid_slot rid) SLOT_GENERATION 65535))
    (bind_act (query (\<lambda>page. Ok (rid_new (sp_page_id page) (rid_slot rid) 65535))) (\<lambda>exhausted.
     seq_act (expect_act (sp_delete exhausted))
    (bind_act (expect_act (sp_insert (ascii ''different slot''))) (\<lambda>next.
     assert_act (rid_slot next \<noteq> rid_slot exhausted)))))))"

definition shared_page_view_supports_reads_but_rejects_writes :: test where
  "shared_page_view_supports_reads_but_rejects_writes = on_slotted 19 (
     bind_act (expect_act (sp_insert (ascii ''shared''))) (\<lambda>rid.
     query (\<lambda>owned.
       and_then (expect (into_page owned)) (\<lambda>raw.
       and_then (expect (from_page_ref raw)) (\<lambda>shared.
       and_then (expect (sp_get rid shared)) (\<lambda>bs.
       and_then (assert_that (bs = ascii ''shared'')) (\<lambda>_.
         assert_that (fails_with (\<lambda>e. e = SP_ReadOnly) (fst (sp_insert (ascii ''rejected'') shared))))))))))"

section \<open>Running a test on the slots\<close>

text \<open>A page with the given identifier and slots, in a state every call of a test keeps.\<close>

definition paged :: "page_id \<Rightarrow> slot_view list \<Rightarrow> slotted_page \<Rightarrow> bool" where
  "paged pid xs sp \<longleftrightarrow> wf_page sp \<and> writable sp \<and> sp_page_id sp = pid \<and> page_slots sp = xs"

lemma on_slotted_run: "on_slotted pid body = fst (body (fresh_page pid))"
  by (simp add: on_slotted_def slotted_new_eq)

lemma paged_fresh: "paged pid [] (fresh_page pid)"
  by (simp add: paged_def)

named_theorems page_rules

lemma page_insert [page_rules]:
  assumes "paged pid xs sp" and "spec_insert_outcome rec xs = Ok out"
    and "\<And>sp'. paged pid (snd (snd out)) sp' \<Longrightarrow> fst (f (rid_new pid (of_nat (fst out)) (fst (snd out))) sp') = Ok ()"
  shows "fst (bind_act (expect_act (sp_insert rec)) f sp) = Ok ()"
  using insert_refines_ok [of sp rec "fst out" "fst (snd out)" "snd (snd out)"] assms by (auto simp: paged_def same_page_def act_simps)

lemma page_delete [page_rules]:
  assumes "paged pid xs sp" and "rid_page r = pid" "spec_get (unat (rid_slot r)) (rid_generation r) xs \<noteq> None"
    and "\<And>sp'. paged pid (spec_delete (unat (rid_slot r)) (rid_generation r) xs) sp' \<Longrightarrow> fst (m sp') = Ok ()"
  shows "fst (seq_act (expect_act (sp_delete r)) m sp) = Ok ()"
  using delete_refines_ok [of sp r] assms by (auto simp: paged_def same_page_def act_simps)

lemma page_compact [page_rules]:
  assumes "paged pid xs sp" and "\<And>sp'. paged pid xs sp' \<Longrightarrow> fst (m sp') = Ok ()"
  shows "fst (seq_act (expect_act compact) m sp) = Ok ()"
  using compact_refines_ok [of sp] assms by (auto simp: paged_def same_page_def act_simps)

lemma page_pass [page_rules]: "k sp = (Ok (), sp) \<Longrightarrow> fst (m sp) = Ok () \<Longrightarrow> fst (seq_act k m sp) = Ok ()"
  by (simp add: act_simps)

lemma paged_get:
  "paged pid xs sp \<Longrightarrow> sp_get r sp =
    (case (if rid_page r = pid then spec_get (unat (rid_slot r)) (rid_generation r) xs else None)
     of Some rec \<Rightarrow> Ok rec | None \<Rightarrow> Err (SP_InvalidRid r))"
  by (simp add: paged_def sp_get_eq [OF wf_page_valid])

lemma paged_counts:
  assumes "paged pid xs sp"
  shows "hdr (sp_bytes sp) SLOT_COUNT_OFFSET = of_nat (length xs)"
    and "hdr (sp_bytes sp) LIVE_COUNT_OFFSET = of_nat (length (filter view_live xs))"
proof -
  have "length (live_slots bs) = length (filter view_live (slots_of bs))" for bs
    by (simp add: live_slots_def slots_of_def filter_map comp_def)
  then have "nlive (sp_bytes sp) = length (filter view_live xs)" "nslots (sp_bytes sp) = length xs"
    using layoutD(6) [OF wf_page_valid] assms by (auto simp: paged_def page_slots_def)
  moreover have "w = of_nat n" if "unat w = n" for w :: u16 and n
    using that by auto
  ultimately show "hdr (sp_bytes sp) SLOT_COUNT_OFFSET = of_nat (length xs)"
    "hdr (sp_bytes sp) LIVE_COUNT_OFFSET = of_nat (length (filter view_live xs))"
    unfolding nslots_def nlive_def by blast+
qed

lemmas slots_eval = spec_insert_outcome_def spec_insert_def spec_delete_def spec_get_def spec_free_def
  spec_first_reusable_def act_simps assert_eq_def paged_get paged_counts ascii_length rid_new_def Let_def sub_usize_def

lemma pass_new_page: "new_page_has_expected_layout = Ok ()"
  by (simp add: new_page_has_expected_layout_def on_slotted_run slots_eval next_page_id_eq link_raw_def empty_layout_fields free_lo_def free_hi_def)

lemma pass_variable_length: "inserts_and_reads_variable_length_records = Ok ()"
  unfolding inserts_and_reads_variable_length_records_def on_slotted_run
  by (rule page_insert [OF paged_fresh], simp add: slots_eval, rule page_insert, assumption,
      simp add: slots_eval, simp add: slots_eval)

lemma pass_deletion: "deletion_invalidates_old_rid_and_reuses_slot_safely = Ok ()"
  unfolding deletion_invalidates_old_rid_and_reuses_slot_safely_def on_slotted_run
  by (rule page_insert [OF paged_fresh], simp add: slots_eval, rule page_delete, assumption,
      simp add: slots_eval, simp add: slots_eval, rule page_pass, simp add: slots_eval,
      rule page_insert, assumption, simp add: slots_eval, simp add: slots_eval)

lemma pass_insertion_compacts: "insertion_compacts_deleted_record_space = Ok ()"
  unfolding insertion_compacts_deleted_record_space_def on_slotted_run
  by (rule page_insert [OF paged_fresh], simp add: slots_eval, rule page_insert, assumption, simp add: slots_eval,
      rule page_delete, assumption, simp add: slots_eval, simp add: slots_eval,
      rule page_insert, assumption, (simp add: slots_eval)+)

lemma pass_compaction: "compaction_preserves_live_rids = Ok ()"
  unfolding compaction_preserves_live_rids_def on_slotted_run
  by (rule page_insert [OF paged_fresh], simp add: slots_eval, rule page_insert, assumption, simp add: slots_eval,
      rule page_insert, assumption, simp add: slots_eval,
      rule page_delete, assumption, simp add: slots_eval, simp add: slots_eval,
      rule page_compact, assumption, simp add: slots_eval)

lemma pass_no_space: "reports_no_space_without_modifying_live_rows = Ok ()"
proof -
  have "sp_insert (replicate 2000 5) sp = (Err (SP_NoSpace 2008 1152), sp)"
    if "paged 13 [Live 1 (replicate 7000 4)] sp" for sp
    by (rule insert_refines_err) (use that in \<open>auto simp: paged_def spec_insert_outcome_def spec_first_reusable_def spec_free_def\<close>)
  then show ?thesis
    unfolding reports_no_space_without_modifying_live_rows_def on_slotted_run
    by (intro page_insert [OF paged_fresh]) (auto simp: slots_eval)
qed

lemma pass_bad_magic: "rejects_corrupt_page_magic = Ok ()"
  by (simp add: rejects_corrupt_page_magic_def act_simps page_write_eq from_page_def from_backing_def validate_def
      page_ref_def page_read_eq zeroed_def HEAP_MAGIC_def ascii_def check_def)

lemma page_link [page_rules]:
  assumes "paged pid xs sp" and "\<And>sp'. paged pid xs sp' \<Longrightarrow>
      next_page_id sp' = Ok (if n = Some INVALID_PAGE_ID then None else n) \<Longrightarrow> fst (m sp') = Ok ()"
  shows "fst (seq_act (expect_act (set_next_page_id n)) m sp) = Ok ()"
  using set_next_refines_ok [of sp n] assms by (auto simp: paged_def act_simps)

lemma pass_link: "stores_heap_page_link = Ok ()"
  unfolding stores_heap_page_link_def on_slotted_run
  by (rule page_link [OF paged_fresh], rule page_pass, simp add: slots_eval, rule page_link, assumption, simp add: slots_eval)

text \<open>A page given up as raw bytes and opened again.\<close>

definition is_owned :: "slotted_page \<Rightarrow> bool" where
  "is_owned sp = (case backing sp of Owned _ \<Rightarrow> True | _ \<Rightarrow> False)"

lemma owned_mut [keeps_intros]: "keeps is_owned (page_mut f)"
  by (rule keepsI) (auto simp: page_mut_def is_owned_def split: page_backing.splits prod.splits)

lemma owned_offsets [keeps_intros]: "keeps is_owned (write_offsets xs)"
  by (induction xs) (auto simp: write_slot_u16_def intro!: keeps_intros)

lemma owned_insert: "keeps is_owned (sp_insert rec)"
  by (auto simp: sp_insert_def insert_make_room_def insert_write_def compact_def write_header_u16_def write_slot_u16_def
      Let_def intro!: keeps_intros split: prod.split option.split)

lemma into_page_owned: "is_owned sp \<Longrightarrow> into_page sp = Ok (page_ref sp)"
  by (auto simp: is_owned_def into_page_def page_ref_def split: page_backing.splits)

lemma page_insert_owned:
  assumes "paged pid xs sp" and "spec_insert_outcome rec xs = Ok out" and "is_owned sp"
    and "\<And>sp'. paged pid (snd (snd out)) sp' \<Longrightarrow> is_owned sp' \<Longrightarrow>
       fst (f (rid_new pid (of_nat (fst out)) (fst (snd out))) sp') = Ok ()"
  shows "fst (bind_act (expect_act (sp_insert rec)) f sp) = Ok ()"
  using insert_refines_ok [of sp rec "fst out" "fst (snd out)" "snd (snd out)"] keepsD [OF owned_insert] assms
  by (fastforce simp: paged_def same_page_def act_simps)

lemma reopened:
  assumes "paged pid xs sp" and "page_ref \<lparr>backing = b\<rparr> = page_ref sp"
  shows "from_backing b = Ok \<lparr>backing = b\<rparr>" and "sp_get r \<lparr>backing = b\<rparr> = sp_get r sp"
proof -
  have eq: "sp_bytes \<lparr>backing = b\<rparr> = sp_bytes sp" "sp_page_id \<lparr>backing = b\<rparr> = sp_page_id sp"
    using assms(2) by (simp_all add: sp_bytes_def sp_page_id_def)
  have v: "valid_layout (sp_bytes sp)"
    using assms(1) by (simp add: paged_def wf_page_valid)
  then show "from_backing b = Ok \<lparr>backing = b\<rparr>"
    using validate_cases [of "\<lparr>backing = b\<rparr>"] layoutD(1) [OF v] eq by (simp add: from_backing_def)
  show "sp_get r \<lparr>backing = b\<rparr> = sp_get r sp"
    using v eq by (simp add: sp_get_eq page_slots_def)
qed

lemma reopened_owned:
  assumes "paged pid xs sp"
  shows "from_page (page_ref sp) = Ok \<lparr>backing = Owned (page_ref sp)\<rparr>"
    "sp_get r \<lparr>backing = Owned (page_ref sp)\<rparr> = sp_get r sp"
    "from_page_ref (page_ref sp) = Ok \<lparr>backing = Shared (page_ref sp)\<rparr>"
    "sp_get r \<lparr>backing = Shared (page_ref sp)\<rparr> = sp_get r sp"
  using reopened [OF assms, of "Owned (page_ref sp)"] reopened [OF assms, of "Shared (page_ref sp)"]
  by (simp_all add: from_page_def from_page_ref_def page_ref_def [of "\<lparr>backing = _\<rparr>"])

lemma owned_fresh: "is_owned (fresh_page pid)"
  by (simp add: is_owned_def fresh_page_def)

lemma pass_raw_page: "survives_conversion_to_and_from_raw_page = Ok ()"
  unfolding survives_conversion_to_and_from_raw_page_def on_slotted_run
  by (rule page_insert_owned [OF paged_fresh], simp add: slots_eval, rule owned_fresh,
      simp add: slots_eval into_page_owned reopened_owned)

text \<open>Insertion into a shared view is refused, where an owned page has room.\<close>

lemma shared_insert:
  assumes valid: "valid_layout (sp_bytes sp)" and w: "\<not> writable sp"
    and ok: "spec_insert_outcome rec (page_slots sp) = Ok out"
  shows "sp_insert rec sp = (Err SP_ReadOnly, sp)"
proof -
  let ?i = "spec_first_reusable (page_slots sp)"
  let ?growth = "if ?i = None then SLOT_ENTRY_SIZE else 0"
  note L = layoutD [OF valid]
  have fits: "length rec < 65536" "?growth + length rec \<le> spec_free (page_slots sp)"
    using ok by (auto simp: spec_insert_outcome_def Let_def split: if_splits)
  have cfs: "contiguous_free_space sp = Ok (free_hi (sp_bytes sp) - free_lo (sp_bytes sp))"
    using L by (simp add: act_simps sub_usize_def)
  have slot: "j < 1020" if "?i = Some j" for j
    using first_reusable_Some [of "sp_bytes sp" j] that L(2) by (simp add: page_slots_def)
  have run: "compact sp = (Err SP_ReadOnly, sp)"
    using compact_eq [OF valid] w by metis
  show ?thesis
  proof (cases "free_hi (sp_bytes sp) - free_lo (sp_bytes sp) < length rec + ?growth")
    case True
    then have "insert_make_room rec ?growth (length rec + ?growth) sp = (Err SP_ReadOnly, sp)"
      using fits(2) by (simp add: insert_make_room_def act_simps cfs free_space_after_compaction_eq [OF valid] run
          del: contiguous_free_space_eq)
    then show ?thesis
      using fits(1) L(2) by (simp add: sp_insert_def act_simps u16_try_from_def Let_def)
  next
    case False
    then have "insert_make_room rec ?growth (length rec + ?growth) sp = (Ok (), sp)"
      by (simp add: insert_make_room_def act_simps cfs del: contiguous_free_space_eq)
    moreover have "insert_write rec (as_u16 (length rec)) (map_option of_nat ?i) sp = (Err SP_ReadOnly, sp)"
      using False L slot w by (cases ?i) (simp_all add: insert_write_def act_simps sub_usize_def)
    ultimately show ?thesis
      using fits(1) L(2) by (simp add: sp_insert_def act_simps u16_try_from_def Let_def)
  qed
qed

lemma shared_view_insert:
  assumes "paged pid xs sp" and "spec_insert_outcome rec xs = Ok out"
  shows "sp_insert rec \<lparr>backing = Shared (page_ref sp)\<rparr> = (Err SP_ReadOnly, \<lparr>backing = Shared (page_ref sp)\<rparr>)"
proof -
  have "sp_bytes \<lparr>backing = Shared (page_ref sp)\<rparr> = sp_bytes sp"
    by (simp add: sp_bytes_def page_ref_def)
  then show ?thesis
    using assms by (intro shared_insert) (auto simp: paged_def page_slots_def writable_def wf_page_valid)
qed

lemma pass_shared_view: "shared_page_view_supports_reads_but_rejects_writes = Ok ()"
  unfolding shared_page_view_supports_reads_but_rejects_writes_def on_slotted_run
  by (rule page_insert_owned [OF paged_fresh], simp add: slots_eval, rule owned_fresh,
      simp add: slots_eval into_page_owned reopened_owned shared_view_insert)

text \<open>The generation of a live slot, overwritten.\<close>

lemma page_set_generation:
  assumes "paged pid xs sp" and "spec_get i h xs = Some rec" and "g \<noteq> 0"
    and "\<And>sp'. paged pid (xs[i := Live g rec]) sp' \<Longrightarrow> fst (m sp') = Ok ()"
  shows "fst (seq_act (expect_act (write_slot_u16 (of_nat i) SLOT_GENERATION g)) m sp) = Ok ()"
proof -
  let ?bs = "sp_bytes sp"
  define cs where "cs = splice (32 + 8 * i + 4) (to_le 2 g) ?bs"
  have wf: "wf_page sp" "writable sp" and pid: "sp_page_id sp = pid" and xs: "xs = slots_of ?bs"
    using assms(1) by (auto simp: paged_def page_slots_def)
  note V = wf_page_valid [OF wf(1)]
  note L = layoutD [OF V]
  have i: "i < nslots ?bs" "is_live ?bs i" "rec = rec_bytes ?bs i"
    using assms(2) by (auto simp: spec_get_def xs slot_at_def split: if_splits)
  have h: "hdr cs off = hdr ?bs off" if "header_word off" for off
    using that by (auto simp: cs_def frame_simps)
  have f: "sfield cs j k = (if j = i \<and> k = 4 then g else sfield ?bs j k)" if "slot_word k" for j k
  proof -
    have "j < i \<or> i < j \<or> j = i" by arith
    then show ?thesis
      using that i(1) L by (auto simp: cs_def frame_simps)
  qed
  have n: "nslots cs = nslots ?bs" "free_lo cs = free_lo ?bs" "free_hi cs = free_hi ?bs" "nlive cs = nlive ?bs"
    "rec_off cs = rec_off ?bs" "rec_len cs = rec_len ?bs" "slot_gen cs = (slot_gen ?bs)(i := g)"
    "slot_flags cs = slot_flags ?bs"
    by (auto simp: field_defs h f)
  then have s: "is_live cs = is_live ?bs" "live_set cs = live_set ?bs" "range_of cs = range_of ?bs"
    by (auto simp: is_live_def live_set_def range_of_def fun_eq_iff)
  have ok: "slot_ok cs j" if "j < nslots ?bs" for j
    using L(7) [OF that] assms(3) by (auto simp: slot_ok_def n s split: if_splits)
  have hd: "header_ok cs"
    using valid_layout_header_ok [OF V] i(1) L(1,2) by (simp add: header_ok_def cs_def frame_simps nth_splice)
  have len: "length cs = PAGE_SIZE" using L(1) by (simp add: cs_def)
  have valid: "valid_layout cs"
    using V ok hd len unfolding valid_layout_iff header_ok_def by (simp add: n s)
  have recs: "rec_bytes cs j = rec_bytes ?bs j" if "j \<in> live_set ?bs" for j
    using live_in_page(2) [OF V that] L(3,4) i(1) unfolding rec_bytes_def n by (simp add: cs_def frame_simps)
  have slots: "slots_of cs = xs[i := Live g rec]"
    by (rule slots_of_eqI) (use recs i xs in \<open>auto simp: n slot_at_def s nth_list_update live_set_def\<close>)
  have "Reusable 0 \<notin> set (xs[i := Live g rec])"
    using wf_page_gen [OF wf(1)] by (intro not_in_update) (simp_all add: xs page_slots_def)
  moreover have "write_slot_u16 (of_nat i) SLOT_GENERATION g sp = (Ok (), put (32 + 8 * i + 4) (to_le 2 g) sp)"
    using i(1) L(2) wf(2) by (simp add: write_slot_u16_def slot_offset_def page_mut_write_u16 mult.commute)
  ultimately show ?thesis
    using assms(4) valid slots wf(2) pid
    by (simp add: act_simps paged_def wf_page_def wf_layout_def page_slots_def cs_def)
qed

lemma pass_generation: "generation_exhaustion_retires_slot = Ok ()"
proof -
  have "fst (seq_act (expect_act (write_slot_u16 0 SLOT_GENERATION 65535)) m sp) = Ok ()"
    if "paged pid [Live 1 rec] sp" "\<And>sp'. paged pid [Live 65535 rec] sp' \<Longrightarrow> fst (m sp') = Ok ()" for pid rec sp m
    using page_set_generation [OF that(1), of 0 1 rec 65535 m] that(2) by (simp add: spec_get_def)
  note generation = this
  show ?thesis
    unfolding generation_exhaustion_retires_slot_def on_slotted_run
    by (rule page_insert [OF paged_fresh], simp add: slots_eval, simp add: rid_new_def, rule generation, simp,
        simp add: bind_act_run query_apply, rule page_delete, assumption, simp add: paged_def,
        simp add: paged_def spec_get_def, rule page_insert, assumption, simp add: slots_eval, simp add: slots_eval)
qed

end
