(* ===== verification/Test_Storage.thy ===== *)
theory Test_Storage
  imports Disk_Props Test_Support
begin

text \<open>The unit tests of \<^verbatim>\<open>storage/page.rs\<close>, \<^verbatim>\<open>storage/rid.rs\<close> and \<^verbatim>\<open>storage/disk.rs\<close>.\<close>

section \<open>Pages and row identifiers\<close>

definition page_id_maps_to_file_offset :: test where
  "page_id_maps_to_file_offset = assert_that (file_offset 3 = 24 * 1024)"

definition integer_access_is_little_endian_and_marks_page_dirty :: test where
  "integer_access_is_little_endian_and_marks_page_dirty = fst (
     (seq_act (expect_act (write_u32 20 0x12345678))
     (seq_act (query (\<lambda>page. assert_that (slice 20 4 (page_bytes page) = [0x78, 0x56, 0x34, 0x12])))
     (bind_act (query (\<lambda>page. expect (read_u32 20 page))) (\<lambda>v.
      seq_act (assert_act (v = 0x12345678))
              (query (\<lambda>page. assert_that (page_dirty page))))))) (zeroed 1))"

definition rejects_access_beyond_page_boundary :: test where
  "rejects_access_beyond_page_boundary = fst (
     (bind_act (attempt (page_write (PAGE_SIZE - 1) [1, 2])) (\<lambda>written.
      seq_act (assert_act (fails_with (\<lambda>_. True) written))
              (query (\<lambda>page. assert_that (fails_with (\<lambda>_. True) (page_read PAGE_SIZE 1 page)))))) (zeroed 0))"

definition rid_round_trips_through_stable_encoding :: test where
  "rid_round_trips_through_stable_encoding =
     (let rid = rid_new 0x12345678 0x9abc 0xdef0; encoded = rid_encode rid in
      and_then (assert_that (encoded = [0x78, 0x56, 0x34, 0x12, 0xbc, 0x9a, 0xf0, 0xde])) (\<lambda>_.
        assert_that (rid_decode encoded = rid)))"

lemma pass_file_offset: "page_id_maps_to_file_offset = Ok ()"
  by (simp add: page_id_maps_to_file_offset_def file_offset_def)

lemma pass_integer_access: "integer_access_is_little_endian_and_marks_page_dirty = Ok ()"
  by (simp add: integer_access_is_little_endian_and_marks_page_dirty_def act_simps write_u32_def page_write_eq
      read_u32_eq zeroed_def to_le_4)

lemma pass_page_boundary: "rejects_access_beyond_page_boundary = Ok ()"
  by (simp add: rejects_access_beyond_page_boundary_def act_simps page_write_eq page_read_eq)

lemma pass_rid: "rid_round_trips_through_stable_encoding = Ok ()"
  by (simp add: rid_round_trips_through_stable_encoding_def Let_def)
    (simp add: rid_encode_def rid_new_def page_id_to_le_bytes_def to_le_2 to_le_4 Let_def)

section \<open>The disk manager\<close>

text \<open>A path that names no file, and the bytes a manager has left in its file.\<close>

definition test_path :: string where
  "test_path = ''db''"

abbreviation (input) left_by :: "disk_manager \<Rightarrow> bytes option" where
  "left_by d \<equiv> Some (file_data (disk_file d))"

definition create_manager :: "disk_manager unwrapped" where
  "create_manager = expect (fst (disk_create test_path None []))"

definition creates_a_single_header_page :: test where
  "creates_a_single_header_page = (case disk_create test_path None [] of (created, file) \<Rightarrow>
     and_then (expect created) (\<lambda>manager.
     and_then (assert_that (map_option length file = Some PAGE_SIZE)) (\<lambda>_.
     and_then (assert_that (allocated_page_count (disk_header manager) = 0)) (\<lambda>_.
     and_then (assert_that (header_next_page_id (disk_header manager) = 1)) (\<lambda>_.
       assert_that (header_catalog_root (disk_header manager) = None))))))"

definition allocates_writes_and_reopens_pages :: test where
  "allocates_writes_and_reopens_pages = and_then create_manager (\<lambda>manager. fst (
     (bind_act (expect_act disk_allocate_page) (\<lambda>first.
      bind_act (expect_act disk_allocate_page) (\<lambda>second.
      seq_act (assert_act (page_ident first = 1))
     (seq_act (assert_act (page_ident second = 2))
     (case page_write 0 (ascii ''north persists pages'') first of (written, first) \<Rightarrow>
      seq_act (query (\<lambda>_. expect written))
     (seq_act (expect_act (disk_write_page first))
     (seq_act (expect_act disk_sync)
     (query (\<lambda>manager.
        and_then (expect (disk_open test_path (left_by manager) [])) (\<lambda>reopened.
        and_then (assert_that (allocated_page_count (disk_header reopened) = 2)) (\<lambda>_.
        and_then (expect (fst (disk_read_page 1 reopened))) (\<lambda>page.
        and_then (expect (page_read 0 20 page)) (\<lambda>bs.
          assert_that (bs = ascii ''north persists pages'')))))))))))))) manager))"

definition rejects_header_page_and_unallocated_pages :: test where
  "rejects_header_page_and_unallocated_pages = and_then create_manager (\<lambda>manager. fst (
     (bind_act (attempt (disk_read_page 0)) (\<lambda>header.
      seq_act (assert_act (fails_with (\<lambda>e. e = D_HeaderPageIsReserved) header))
     (bind_act (attempt (disk_read_page 1)) (\<lambda>page.
      assert_act (fails_with (\<lambda>e. case e of D_PageNotAllocated _ \<Rightarrow> True | _ \<Rightarrow> False) page))))) manager))"

definition read_only_manager_rejects_mutations :: test where
  "read_only_manager_rejects_mutations = and_then create_manager (\<lambda>writable. fst (
     (bind_act (expect_act disk_allocate_page) (\<lambda>page.
      seq_act (expect_act disk_sync)
     (query (\<lambda>writable.
        and_then (expect (disk_open_read_only test_path (left_by writable) [])) (\<lambda>read_only.
        and_then (assert_that (disk_read_only read_only)) (\<lambda>_. fst (
          (bind_act (attempt disk_allocate_page) (\<lambda>allocated.
           seq_act (assert_act (fails_with (\<lambda>e. e = D_ReadOnly) allocated))
          (bind_act (attempt (disk_write_page page)) (\<lambda>written.
           assert_act (fails_with (\<lambda>e. e = D_ReadOnly) written)))) read_only)))))))) writable))"

definition rejects_misaligned_and_corrupt_files :: test where
  "rejects_misaligned_and_corrupt_files =
     and_then (assert_that (fails_with (\<lambda>e. case e of D_InvalidFileLength _ \<Rightarrow> True | _ \<Rightarrow> False)
       (disk_open test_path (Some (ascii ''not a page'')) []))) (\<lambda>_.
       assert_that (fails_with (\<lambda>e. e = D_Corrupt ''invalid database magic'')
         (disk_open test_path (Some (replicate PAGE_SIZE 0)) [])))"

definition creation_never_overwrites_an_existing_file :: test where
  "creation_never_overwrites_an_existing_file =
     (case disk_create test_path (Some (ascii ''keep me'')) [] of (created, file) \<Rightarrow>
      and_then (assert_that (fails_with (\<lambda>e. case e of D_Io _ _ _ \<Rightarrow> True | _ \<Rightarrow> False) created)) (\<lambda>_.
        assert_that (file = Some (ascii ''keep me''))))"

definition persists_catalog_root_exactly_once :: test where
  "persists_catalog_root_exactly_once = and_then create_manager (\<lambda>manager. fst (
     (bind_act (expect_act disk_allocate_page) (\<lambda>page. let root = page_ident page in
      seq_act (expect_act (set_catalog_root root))
     (bind_act (attempt (set_catalog_root root)) (\<lambda>again.
      seq_act (assert_act (fails_with (\<lambda>e. case e of D_CatalogRootAlreadySet existing \<Rightarrow> existing = root | _ \<Rightarrow> False) again))
     (seq_act (expect_act disk_sync)
     (query (\<lambda>manager.
        and_then (expect (disk_open test_path (left_by manager) [])) (\<lambda>reopened.
          assert_that (header_catalog_root (disk_header reopened) = Some root))))))))) manager))"

lemma create_manager_eq: "create_manager = Ok fresh_disk"
  by (simp add: create_manager_def test_path_def disk_create_eq)

lemma pass_header_page: "creates_a_single_header_page = Ok ()"
  by (simp add: creates_a_single_header_page_def test_path_def disk_create_eq)
    (simp add: fresh_disk_def fresh_header_def allocated_page_count_def)

lemma pass_reserved_pages: "rejects_header_page_and_unallocated_pages = Ok ()"
  by (simp add: rejects_header_page_and_unallocated_pages_def create_manager_eq act_simps disk_read_page_def
      ensure_allocated_data_page_def)

lemma pass_no_overwrite: "creation_never_overwrites_an_existing_file = Ok ()"
  by (simp add: creation_never_overwrites_an_existing_file_def disk_create_def)

lemma pass_bad_files: "rejects_misaligned_and_corrupt_files = Ok ()"
  by (simp add: rejects_misaligned_and_corrupt_files_def disk_open_def open_with_mode_def io_err_def act_simps
      validate_file_length_def ascii_def read_header_from_file_def decode_header_def DATABASE_MAGIC_def Let_def)

lemma zeroed_ident: "page_ident (zeroed pid) = pid"
  by (simp add: zeroed_def)

text \<open>The first page of a new database.\<close>

lemma fresh_allocate:
  obtains d where "disk_allocate_page fresh_disk = (Ok (zeroed 1), d)" "disk_header d = fresh_header\<lparr>header_next_page_id := 2\<rparr>"
    "\<not> disk_read_only d" "disk_ok d" "healthy d" "disk_pages d = [1 \<mapsto> replicate PAGE_SIZE 0]"
proof -
  have h: "disk_header fresh_disk = fresh_header"
    by (simp add: fresh_disk_def)
  show thesis
    using disk_allocate_page_healthy [of fresh_disk] that h fresh_disk_ok by auto
qed

lemma pass_read_only: "read_only_manager_rejects_mutations = Ok ()"
proof -
  obtain d where d: "disk_allocate_page fresh_disk = (Ok (zeroed 1), d)" "disk_ok d" "healthy d"
    by (rule fresh_allocate)
  obtain d' where d': "open_with_mode test_path True (left_by d) [] = Ok d'" "disk_read_only d'"
    using reopen_disk [OF d(2), of test_path True] by blast
  have "disk_allocate_page d' = (Err D_ReadOnly, d')" "disk_write_page pg d' = (Err D_ReadOnly, d')" for pg
    using d'(2) by (simp_all add: disk_allocate_page_def disk_write_page_def ensure_writable_def act_simps)
  then show ?thesis
    by (simp add: read_only_manager_rejects_mutations_def create_manager_eq act_simps d(1) disk_sync_healthy [OF d(3)]
        disk_open_read_only_def d')
qed

lemma pass_catalog_root: "persists_catalog_root_exactly_once = Ok ()"
proof -
  obtain d where d: "disk_allocate_page fresh_disk = (Ok (zeroed 1), d)" "disk_header d = fresh_header\<lparr>header_next_page_id := 2\<rparr>"
      "\<not> disk_read_only d" "disk_ok d" "healthy d"
    by (rule fresh_allocate)
  have alloc: "allocated 1 d"
    by (simp add: allocated_def d(2))
  obtain d1 where d1: "set_catalog_root 1 d = (Ok (), d1)" "disk_header d1 = (disk_header d)\<lparr>header_catalog_root := Some 1\<rparr>"
      "\<not> disk_read_only d1" "disk_ok d1" "healthy d1"
    using set_catalog_root_healthy [OF d(5,4,3) alloc] d(2,3) by (auto simp: fresh_header_def)
  have again: "set_catalog_root 1 d1 = (Err (D_CatalogRootAlreadySet 1), d1)"
    using d1(2,3) d(2)
    by (simp add: set_catalog_root_def act_simps ensure_writable_def ensure_allocated_data_page_def word_le_nat_alt)
  obtain d2 where d2: "open_with_mode test_path False (left_by d1) [] = Ok d2" "disk_header d2 = disk_header d1"
    using reopen_disk [OF d1(4), of test_path False] by blast
  show ?thesis
    by (simp add: persists_catalog_root_exactly_once_def create_manager_eq act_simps d(1) zeroed_def d1(1) again
        disk_sync_healthy [OF d1(5)] disk_open_def d2 d1(2) Let_def)
qed

lemma pass_reopened_pages: "allocates_writes_and_reopens_pages = Ok ()"
proof -
  obtain d where d: "disk_allocate_page fresh_disk = (Ok (zeroed 1), d)" "disk_header d = fresh_header\<lparr>header_next_page_id := 2\<rparr>"
      "\<not> disk_read_only d" "disk_ok d" "healthy d"
    by (rule fresh_allocate)
  obtain d1 where d1: "disk_allocate_page d = (Ok (zeroed 2), d1)" "disk_header d1 = (disk_header d)\<lparr>header_next_page_id := 3\<rparr>"
      "\<not> disk_read_only d1" "disk_ok d1" "healthy d1"
    using disk_allocate_page_healthy [OF d(5,4,3)] d(2,3) by auto
  let ?bs = "splice 0 (ascii ''north persists pages'') (replicate PAGE_SIZE 0)"
  let ?p = "\<lparr>page_ident = 1, page_bytes = ?bs, page_dirty = True\<rparr>"
  have len: "length (ascii ''north persists pages'') = 20" by (simp add: ascii_def)
  have p: "page_write 0 (ascii ''north persists pages'') (zeroed 1) = (Ok (), ?p)"
    by (simp add: page_write_eq len zeroed_def)
  have "allocated (page_ident ?p) d1" "page_sized ?p"
    by (simp_all add: allocated_def d1(2) page_sized_def)
  then obtain d2 where d2: "disk_write_page ?p d1 = (Ok (mark_clean ?p), d2)" "disk_header d2 = disk_header d1"
      "disk_ok d2" "healthy d2" "disk_pages d2 = (disk_pages d1)(1 \<mapsto> ?bs)"
    using disk_write_page_healthy [OF d1(5,4,3), of ?p] by auto
  obtain d3 where d3: "open_with_mode test_path False (left_by d2) [] = Ok d3" "disk_header d3 = disk_header d2"
      "disk_pages d3 = disk_pages d2" "disk_ok d3" "healthy d3"
    using reopen_disk [OF d2(3), of test_path False] by blast
  have page: "disk_pages d3 1 = Some ?bs" using d3(3) d2(5) by simp
  obtain d4 where d4: "disk_read_page 1 d3 = (Ok (from_bytes 1 ?bs), d4)"
    using disk_read_page_healthy [OF d3(5,4), of 1] page by (auto simp: disk_pages_def split: if_splits)
  have bytes: "slice 0 20 ?bs = ascii ''north persists pages''"
    by (simp add: len)
  show ?thesis
    by (simp add: allocates_writes_and_reopens_pages_def create_manager_eq act_simps d(1) d1(1) p d2(1)
        disk_sync_healthy [OF d2(4)] disk_open_def d3(1,2) d2(2) d1(2) d4 page_read_eq
        zeroed_ident allocated_page_count_def from_bytes_def bytes)
qed

end
