(* ===== verification/Test_Pool.thy ===== *)
theory Test_Pool
  imports Test_Storage Buffer_Props
begin

text \<open>The unit tests of \<^verbatim>\<open>storage/buffer_pool.rs\<close>. The values a test still holds when it ends are not
  dropped.\<close>

fun allocate_pages :: "nat \<Rightarrow> (disk_manager, unit, unit) act" where
  "allocate_pages 0 = ret ()"
| "allocate_pages (Suc k) = seq_act (expect_act disk_allocate_page) (allocate_pages k)"

definition database_with_pages :: "nat \<Rightarrow> disk_manager unwrapped" where
  "database_with_pages k = and_then create_manager (\<lambda>disk.
     case allocate_pages k disk of (r, disk) \<Rightarrow> and_then r (\<lambda>_. Ok disk))"

text \<open>A test on the pool of some capacity over a database; \<^verbatim>\<open>drop(pool.pin(id).unwrap())\<close>.\<close>

definition on_new_pool :: "nat \<Rightarrow> disk_manager \<Rightarrow> (buffer_pool, unit, unit) act \<Rightarrow> test" where
  "on_new_pool capacity disk body = and_then (expect (pool_new disk capacity)) (\<lambda>pool. fst (body pool))"

definition drop_page :: "page_guard \<Rightarrow> (buffer_pool, unit, 'e) act" where
  "drop_page g = guarded g (ret ())"

definition pin_and_drop :: "page_id \<Rightarrow> (buffer_pool, unit, unit) act" where
  "pin_and_drop pid = bind_act (expect_act (pin pid)) (\<lambda>guard. drop_page guard)"

definition rejects_zero_capacity :: test where
  "rejects_zero_capacity = and_then create_manager (\<lambda>disk.
     assert_that (fails_with (\<lambda>e. e = BP_ZeroCapacity) (pool_new disk 0)))"

definition cache_hit_avoids_second_disk_read :: test where
  "cache_hit_avoids_second_disk_read = and_then (database_with_pages 1) (\<lambda>disk. on_new_pool 2 disk (
     seq_act (pin_and_drop 1)
    (seq_act (pin_and_drop 1)
    (query (\<lambda>pool. assert_that (pool_counters pool = \<lparr>hits = 1, misses = 1, evictions = 0, disk_writes = 0\<rparr>))))))"

definition pinned_frame_cannot_be_evicted :: test where
  "pinned_frame_cannot_be_evicted = and_then (database_with_pages 2) (\<lambda>disk. on_new_pool 1 disk (
     bind_act (expect_act (pin 1)) (\<lambda>first.
     bind_act (attempt (pin 2)) (\<lambda>second.
     assert_act (fails_with (\<lambda>e. e = BP_AllFramesPinned) second)))))"

definition evicts_least_recently_used_unpinned_frame :: test where
  "evicts_least_recently_used_unpinned_frame = and_then (database_with_pages 3) (\<lambda>disk. on_new_pool 2 disk (
     seq_act (pin_and_drop 1)
    (seq_act (pin_and_drop 2)
    (seq_act (pin_and_drop 1)
    (seq_act (pin_and_drop 3)
    (query (\<lambda>pool.
       and_then (assert_that (contains_page 1 pool)) (\<lambda>_.
       and_then (assert_that (\<not> contains_page 2 pool)) (\<lambda>_.
       and_then (assert_that (contains_page 3 pool)) (\<lambda>_.
         assert_that (evictions (pool_counters pool) = 1)))))))))))"

definition dirty_eviction_writes_page_before_reuse :: test where
  "dirty_eviction_writes_page_before_reuse = and_then (database_with_pages 2) (\<lambda>disk. on_new_pool 1 disk (
     bind_act (expect_act (pin 1)) (\<lambda>first.
     seq_act (expect_act (writing (\<lambda>_. ()) first (expect_act (page_write 0 (ascii ''dirty data'')))))
    (seq_act (drop_page first)
    (seq_act (pin_and_drop 2)
    (bind_act (expect_act (pin 1)) (\<lambda>first_again.
     bind_act (expect_act (reading (\<lambda>_. ()) first_again (\<lambda>page. expect (page_read 0 10 page)))) (\<lambda>bs.
     seq_act (assert_act (bs = ascii ''dirty data''))
             (query (\<lambda>pool. assert_that (disk_writes (pool_counters pool) = 1)))))))))))"

definition allocate_returns_cached_pinned_page :: test where
  "allocate_returns_cached_pinned_page = and_then create_manager (\<lambda>disk. on_new_pool 1 disk (
     bind_act (expect_act pool_allocate_page) (\<lambda>page.
     seq_act (assert_act (page = 1))
    (query (\<lambda>pool.
       and_then (assert_that (contains_page 1 pool)) (\<lambda>_.
         assert_that (cached_page_count pool = 1)))))))"

definition sync_persists_dirty_cached_pages :: test where
  "sync_persists_dirty_cached_pages = and_then (database_with_pages 1) (\<lambda>disk. on_new_pool 2 disk (
     bind_act (expect_act (pin 1)) (\<lambda>page.
     seq_act (expect_act (writing (\<lambda>_. ()) page (expect_act (page_write 32 (ascii ''synced'')))))
    (seq_act (drop_page page)
    (seq_act (expect_act pool_sync)
    (query (\<lambda>pool.
       and_then (expect (disk_open test_path (left_by (pool_disk pool)) [])) (\<lambda>reopened.
       and_then (expect (fst (disk_read_page 1 reopened))) (\<lambda>page.
       and_then (expect (page_read 32 6 page)) (\<lambda>bs.
         assert_that (bs = ascii ''synced'')))))))))))"

definition read_only_pool_rejects_mutable_guard :: test where
  "read_only_pool_rejects_mutable_guard = and_then (database_with_pages 1) (\<lambda>disk.
     case disk_sync disk of (synced, disk) \<Rightarrow>
     and_then (expect synced) (\<lambda>_.
     and_then (expect (disk_open_read_only test_path (left_by disk) [])) (\<lambda>read_only. on_new_pool 1 read_only (
     bind_act (expect_act (pin 1)) (\<lambda>page.
     bind_act (attempt (guard_write page)) (\<lambda>written.
     seq_act (assert_act (fails_with (\<lambda>e. e = BP_ReadOnly) written))
    (bind_act (attempt pool_allocate_page) (\<lambda>allocated.
     assert_act (fails_with (\<lambda>e. e = BP_ReadOnly) allocated)))))))))"

definition simultaneous_read_guards_are_allowed :: test where
  "simultaneous_read_guards_are_allowed = and_then (database_with_pages 1) (\<lambda>disk. on_new_pool 1 disk (
     bind_act (expect_act (pin 1)) (\<lambda>first.
     bind_act (expect_act (pin 1)) (\<lambda>second.
     bind_act (expect_act (guard_read first)) (\<lambda>first_read.
     bind_act (expect_act (guard_read second)) (\<lambda>second_read.
     assert_act (page_ident first_read = page_ident second_read)))))))"

section \<open>A database of zeroed pages\<close>

abbreviation zeros :: bytes where
  "zeros \<equiv> replicate PAGE_SIZE 0"

definition blank :: "nat \<Rightarrow> disk_manager \<Rightarrow> bool" where
  "blank n d \<longleftrightarrow> disk_ok d \<and> healthy d \<and> \<not> disk_read_only d \<and> next_id d = of_nat (n + 1)
     \<and> (\<forall>pid bs. disk_pages d pid = Some bs \<longrightarrow> bs = zeros)"

lemma blank_fresh: "blank 0 fresh_disk"
  by (simp add: blank_def)

lemma unat_page_id: "n < 100 \<Longrightarrow> unat (of_nat (n + 1) :: page_id) = n + 1"
  by (rule unat_of_nat_u32) simp

lemma blank_allocate:
  assumes "blank n d" and "n < 100"
  obtains d' where "disk_allocate_page d = (Ok (zeroed (of_nat (n + 1))), d')" "blank (n + 1) d'"
proof -
  have d: "healthy d" "disk_ok d" "\<not> disk_read_only d" "next_id d = of_nat (n + 1)"
      "\<And>pid bs. disk_pages d pid = Some bs \<Longrightarrow> bs = zeros"
    using assms(1) by (auto simp: blank_def)
  have "unat (next_id d) = n + 1"
    using unat_page_id [OF assms(2)] by (simp only: d(4))
  then have "next_id d \<noteq> - 1"
    using assms(2) unat_u32_max [of "next_id d"] by auto
  from disk_allocate_page_healthy [OF d(1-3) this] obtain d' where
    "disk_allocate_page d = (Ok (zeroed (next_id d)), d')" "disk_header d' = (disk_header d)\<lparr>header_next_page_id := next_id d + 1\<rparr>"
    "disk_read_only d' = disk_read_only d" "disk_ok d'" "healthy d'" "disk_pages d' = (disk_pages d)(next_id d \<mapsto> zeros)"
    by blast
  then show ?thesis
    using d by (intro that [of d']) (auto simp: blank_def split: if_splits)
qed

lemma blank_allocate_pages:
  "blank n d \<Longrightarrow> n + k \<le> 100 \<Longrightarrow> \<exists>d'. allocate_pages k d = (Ok (), d') \<and> blank (n + k) d'"
proof (induction k arbitrary: n d)
  case 0
  then show ?case by (simp add: act_simps)
next
  case (Suc k)
  obtain d' where "disk_allocate_page d = (Ok (zeroed (of_nat (n + 1))), d')" "blank (n + 1) d'"
    using blank_allocate [OF Suc.prems(1)] Suc.prems(2) by auto
  then show ?case
    using Suc.IH [of "n + 1" d'] Suc.prems(2) by (simp add: act_simps)
qed

lemma database_with_pages_run:
  assumes "k \<le> 100"
  obtains d where "database_with_pages k = Ok d" "blank k d"
proof -
  obtain d where d: "allocate_pages k fresh_disk = (Ok (), d)" "blank k d"
    using blank_allocate_pages [OF blank_fresh, of k] assms by auto
  show ?thesis
    by (rule that [OF _ d(2)]) (simp add: database_with_pages_def create_manager_eq d(1))
qed

lemma read_again:
  assumes "disk_ok d" and "healthy d" and "disk_pages d pid = Some bs"
  obtains d' where "disk_read_page pid d = (Ok (from_bytes pid bs), d')" "disk_ok d'" "healthy d'"
    "disk_pages d' = disk_pages d" "disk_header d' = disk_header d" "disk_read_only d' = disk_read_only d"
proof -
  have alloc: "allocated pid d" and bs: "bs = page_on_disk pid d"
    using assms(3) by (auto simp: disk_pages_def split: if_splits)
  obtain d' where d': "disk_read_page pid d = (Ok (from_bytes pid bs), d')" "disk_header d' = disk_header d"
      "disk_bytes d' = disk_bytes d" "disk_read_only d' = disk_read_only d" "disk_ok d'" "healthy d'"
    using disk_read_page_healthy [OF assms(2,1) alloc] bs by blast
  then have "disk_pages d' = disk_pages d"
    by (simp add: disk_pages_def page_on_disk_def allocated_def fun_eq_iff)
  then show ?thesis using that d' by blast
qed

lemma blank_page:
  assumes "blank n d" and "n < 100" and "pid \<noteq> 0" and "pid \<le> of_nat n"
  shows "disk_pages d pid = Some zeros"
proof -
  have "unat pid \<le> n"
    using assms(2,4) by (simp add: word_le_nat_alt unat_of_nat take_bit_nat_eq_self)
  moreover have "unat (next_id d) = n + 1"
    using unat_page_id [OF assms(2)] assms(1) unfolding blank_def by metis
  ultimately have "allocated pid d"
    using assms(3) by (simp add: allocated_def word_less_nat_alt)
  then obtain bs where "disk_pages d pid = Some bs"
    by (simp add: disk_pages_def)
  then show ?thesis
    using assms(1) by (simp add: blank_def)
qed

lemma blank_read:
  assumes "blank n d" and "n < 100" and "pid \<noteq> 0" and "pid \<le> of_nat n"
  obtains d' where "disk_read_page pid d = (Ok (zeroed pid), d')" "blank n d'"
proof -
  obtain d' where d': "disk_read_page pid d = (Ok (from_bytes pid zeros), d')" "disk_ok d'" "healthy d'"
      "disk_pages d' = disk_pages d" "disk_header d' = disk_header d" "disk_read_only d' = disk_read_only d"
    by (rule read_again [OF _ _ blank_page [OF assms]]) (use assms(1) in \<open>auto simp: blank_def\<close>)
  then have "blank n d'"
    using assms(1) by (simp add: blank_def)
  then show ?thesis
    using that d'(1) by (simp add: from_bytes_def zeroed_def)
qed

section \<open>The tests pass\<close>

lemmas pool_eval = on_new_pool_def pool_new_def pin_and_drop_def pin_def borrow_inner_mut_def next_tick_def load_frame_def
  ensure_space_def flush_frame_def get_frame_def on_disk_def find_frame_def put_frame_def remove_frame_def count_hit_def
  count_miss_def count_eviction_def count_disk_write_def drop_guard_def drop_page_def drop_assert_def checked_add_word_def saturating_add_word_def
  contains_page_def cached_page_count_def

lemma pass_zero_capacity: "rejects_zero_capacity = Ok ()"
  by (simp add: rejects_zero_capacity_def create_manager_eq pool_new_def)

lemma pass_cache_hit: "cache_hit_avoids_second_disk_read = Ok ()"
proof -
  obtain d where d: "database_with_pages (Suc 0) = Ok d" "blank 1 d"
    using database_with_pages_run [of 1] by auto
  obtain d1 where d1: "disk_read_page 1 d = (Ok (zeroed 1), d1)" "blank 1 d1"
    by (rule blank_read [OF d(2), of 1]) auto
  show ?thesis
    by (simp add: cache_hit_avoids_second_disk_read_def d(1) pool_eval d1(1) act_simps Let_def)
qed

lemma pass_pinned_frame: "pinned_frame_cannot_be_evicted = Ok ()"
proof -
  obtain d where d: "database_with_pages 2 = Ok d" "blank 2 d"
    by (rule database_with_pages_run [of 2]) auto
  obtain d1 where d1: "disk_read_page 1 d = (Ok (zeroed 1), d1)" "blank 2 d1"
    by (rule blank_read [OF d(2), of 1]) auto
  show ?thesis
    by (simp add: pinned_frame_cannot_be_evicted_def d(1) pool_eval d1(1) act_simps Let_def)
qed

lemma pass_least_recently_used: "evicts_least_recently_used_unpinned_frame = Ok ()"
proof -
  obtain d where d: "database_with_pages 3 = Ok d" "blank 3 d"
    by (rule database_with_pages_run [of 3]) auto
  obtain d1 where d1: "disk_read_page 1 d = (Ok (zeroed 1), d1)" "blank 3 d1"
    by (rule blank_read [OF d(2), of 1]) (auto simp: word_le_nat_alt)
  obtain d2 where d2: "disk_read_page 2 d1 = (Ok (zeroed 2), d2)" "blank 3 d2"
    by (rule blank_read [OF d1(2), of 2]) (auto simp: word_le_nat_alt)
  obtain d3 where d3: "disk_read_page 3 d2 = (Ok (zeroed 3), d3)" "blank 3 d3"
    by (rule blank_read [OF d2(2), of 3]) (auto simp: word_le_nat_alt)
  have clean: "page_dirty (zeroed q) = False" for q by (simp add: zeroed_def)
  show ?thesis
    by (simp add: evicts_least_recently_used_unpinned_frame_def d(1) pool_eval d1(1) d2(1) d3(1) clean act_simps Let_def)
qed

lemma pass_allocate: "allocate_returns_cached_pinned_page = Ok ()"
proof -
  obtain d where d: "disk_allocate_page fresh_disk = (Ok (zeroed 1), d)"
    by (rule fresh_allocate)
  show ?thesis
    by (simp add: allocate_returns_cached_pinned_page_def create_manager_eq pool_eval pool_allocate_page_def d
        zeroed_ident act_simps Let_def)
qed

lemma pass_read_guards: "simultaneous_read_guards_are_allowed = Ok ()"
proof -
  obtain d where d: "database_with_pages (Suc 0) = Ok d" "blank 1 d"
    using database_with_pages_run [of 1] by auto
  obtain d1 where d1: "disk_read_page 1 d = (Ok (zeroed 1), d1)" "blank 1 d1"
    by (rule blank_read [OF d(2), of 1]) auto
  show ?thesis
    by (simp add: simultaneous_read_guards_are_allowed_def d(1) pool_eval d1(1) guard_read_def set_borrow_def act_simps Let_def)
qed

text \<open>A page that a test has written, and writing it to disk.\<close>

definition written_page :: "page_id \<Rightarrow> nat \<Rightarrow> bytes \<Rightarrow> page" where
  "written_page pid off src = \<lparr>page_ident = pid, page_bytes = splice off src zeros, page_dirty = True\<rparr>"

lemma write_zeroed: "off + length src \<le> PAGE_SIZE \<Longrightarrow> page_write off src (zeroed pid) = (Ok (), written_page pid off src)"
  by (simp add: page_write_eq zeroed_def written_page_def)

lemma blank_write:
  assumes "blank n d" and "n < 100" and "pid \<noteq> 0" and "pid \<le> of_nat n" and "off + length src \<le> PAGE_SIZE"
  obtains d' where "disk_write_page (written_page pid off src) d = (Ok (mark_clean (written_page pid off src)), d')"
    "disk_ok d'" "healthy d'" "disk_pages d' = (disk_pages d)(pid \<mapsto> splice off src zeros)"
proof -
  let ?p = "written_page pid off src"
  have "allocated (page_ident ?p) d"
    using blank_page [OF assms(1-4)] by (auto simp: written_page_def disk_pages_def split: if_splits)
  moreover have "page_sized ?p"
    using assms(5) by (simp add: page_sized_def written_page_def)
  ultimately show ?thesis
    using disk_write_page_healthy [of d ?p] assms(1) that by (auto simp: blank_def written_page_def)
qed

lemmas guard_eval = writing_def reading_def guard_read_def guard_write_def set_borrow_def on_page_def end_write_def end_read_def

lemma pass_dirty_eviction: "dirty_eviction_writes_page_before_reuse = Ok ()"
proof -
  obtain d where d: "database_with_pages 2 = Ok d" "blank 2 d"
    by (rule database_with_pages_run [of 2]) auto
  obtain d1 where d1: "disk_read_page 1 d = (Ok (zeroed 1), d1)" "blank 2 d1"
    by (rule blank_read [OF d(2), of 1]) (auto simp: word_le_nat_alt)
  have ro: "disk_read_only d1 = False" using d1(2) by (simp add: blank_def)
  have len: "length (ascii ''dirty data'') = 10" by (simp add: ascii_def)
  let ?p = "written_page 1 0 (ascii ''dirty data'')"
  obtain d2 where d2: "disk_write_page ?p d1 = (Ok (mark_clean ?p), d2)" "disk_ok d2" "healthy d2"
      "disk_pages d2 = (disk_pages d1)(1 \<mapsto> page_bytes ?p)"
    by (rule blank_write [OF d1(2), of 1 0 "ascii ''dirty data''"]) (auto simp: word_le_nat_alt len written_page_def)
  have "disk_pages d2 2 = Some zeros"
    using d2(4) blank_page [OF d1(2), of 2] by simp
  then obtain d3 where d3: "disk_read_page 2 d2 = (Ok (from_bytes 2 zeros), d3)" "disk_ok d3" "healthy d3" "disk_pages d3 = disk_pages d2"
    using read_again [OF d2(2,3)] by metis
  obtain d4 where d4: "disk_read_page 1 d3 = (Ok (from_bytes 1 (page_bytes ?p)), d4)"
    by (rule read_again [OF d3(2,3), of 1]) (auto simp: d3(4) d2(4))
  have p: "page_dirty ?p" "page_dirty (mark_clean ?p) = False" "page_dirty (from_bytes q bs) = False" "page_ident ?p = 1"
      "page_bytes (from_bytes q bs) = bs" "slice 0 10 (page_bytes ?p) = ascii ''dirty data''" for q bs
    by (simp_all add: mark_clean_def from_bytes_def written_page_def len)
  have wr: "page_write 0 (ascii ''dirty data'') (zeroed 1) = (Ok (), ?p)"
    by (rule write_zeroed) (simp add: len)
  show ?thesis
    by (simp add: dirty_eviction_writes_page_before_reuse_def d(1) pool_eval guard_eval d1(1) ro d2(1) d3(1) d4 wr p
        page_read_eq act_simps Let_def)
qed

lemma pass_sync: "sync_persists_dirty_cached_pages = Ok ()"
proof -
  obtain d where d: "database_with_pages (Suc 0) = Ok d" "blank 1 d"
    using database_with_pages_run [of 1] by auto
  obtain d1 where d1: "disk_read_page 1 d = (Ok (zeroed 1), d1)" "blank 1 d1"
    by (rule blank_read [OF d(2), of 1]) auto
  have ro: "disk_read_only d1 = False" using d1(2) by (simp add: blank_def)
  have len: "length (ascii ''synced'') = 6" by (simp add: ascii_def)
  let ?p = "written_page 1 32 (ascii ''synced'')"
  obtain d2 where d2: "disk_write_page ?p d1 = (Ok (mark_clean ?p), d2)" "disk_ok d2" "healthy d2"
      "disk_pages d2 = (disk_pages d1)(1 \<mapsto> page_bytes ?p)"
    by (rule blank_write [OF d1(2), of 1 32 "ascii ''synced''"]) (auto simp: len written_page_def)
  obtain d3 where d3: "open_with_mode test_path False (left_by d2) [] = Ok d3" "disk_pages d3 = disk_pages d2" "disk_ok d3" "healthy d3"
    using reopen_disk [OF d2(2), of test_path False] by blast
  obtain d4 where d4: "disk_read_page 1 d3 = (Ok (from_bytes 1 (page_bytes ?p)), d4)"
    by (rule read_again [OF d3(3,4), of 1]) (auto simp: d3(2) d2(4))
  have p: "page_dirty ?p" "page_bytes (from_bytes q bs) = bs" "slice 32 6 (page_bytes ?p) = ascii ''synced''" for q bs
    by (simp_all add: from_bytes_def written_page_def len)
  have wr: "page_write 32 (ascii ''synced'') (zeroed 1) = (Ok (), ?p)"
    by (rule write_zeroed) (simp add: len)
  show ?thesis
    by (simp add: sync_persists_dirty_cached_pages_def d(1) pool_eval guard_eval d1(1) ro d2(1) wr p
        pool_sync_def flush_all_frames_def disk_sync_healthy [OF d2(3)] disk_open_def d3(1) d4 page_read_eq act_simps Let_def)
qed

lemma pass_read_only_pool: "read_only_pool_rejects_mutable_guard = Ok ()"
proof -
  obtain d where d: "database_with_pages (Suc 0) = Ok d" "blank 1 d"
    using database_with_pages_run [of 1] by auto
  have ok: "disk_ok d" "healthy d"
    using d(2) unfolding blank_def by blast+
  have page: "disk_pages d 1 = Some zeros"
    by (rule blank_page [OF d(2)]) simp_all
  obtain d1 where d1: "open_with_mode test_path True (left_by d) [] = Ok d1" "disk_ok d1" "healthy d1" "disk_read_only d1"
      "disk_pages d1 = disk_pages d"
    using reopen_disk [OF ok(1), of test_path True] by metis
  obtain d2 where d2: "disk_read_page 1 d1 = (Ok (from_bytes 1 zeros), d2)" "disk_read_only d2"
    by (rule read_again [OF d1(2,3), of 1 zeros]) (simp_all add: d1(4,5) page)
  show ?thesis
    by (simp add: read_only_pool_rejects_mutable_guard_def d(1) disk_sync_healthy [OF ok(2)] disk_open_read_only_def
        d1(1) pool_eval guard_eval d2 pool_allocate_page_def act_simps Let_def)
qed

end
