(* ===== verification/Test_Heap_File.thy ===== *)
theory Test_Heap_File
  imports Catalog_Open Test_Pool
begin

text \<open>The unit tests of \<^verbatim>\<open>heap/heap_file.rs\<close>.\<close>

section \<open>The tests\<close>

definition test_pool :: "usize \<Rightarrow> buffer_pool unwrapped" where
  "test_pool capacity = and_then create_manager (\<lambda>disk. expect (pool_new disk capacity))"

text \<open>A test on a new heap of a new pool; methods on \<^verbatim>\<open>&self\<close> of the heap and methods of the pool, as steps
  of the test.\<close>

definition on_new_heap :: "usize \<Rightarrow> (heap_file \<times> buffer_pool, unit, unit) act \<Rightarrow> test" where
  "on_new_heap capacity body = and_then (test_pool capacity) (\<lambda>pool.
     case heap_create pool of (created, pool) \<Rightarrow> and_then (expect created) (\<lambda>heap. fst (body (heap, pool))))"

definition on_heap :: "(heap_file \<Rightarrow> 'a heap_pool_act) \<Rightarrow> 'a heap_act" where
  "on_heap f = bind_act (query (\<lambda>(heap, pool). Ok heap)) (\<lambda>heap. on_pool (f heap))"

definition in_pool :: "(buffer_pool, 'a, 'e) act \<Rightarrow> (heap_file \<times> buffer_pool, 'a, 'e) act" where
  "in_pool m = (\<lambda>(heap, pool). case m pool of (r, pool) \<Rightarrow> (r, (heap, pool)))"

definition creates_inserts_reads_and_deletes :: test where
  "creates_inserts_reads_and_deletes = on_new_heap 2 (
     bind_act (expect_act (heap_insert (ascii ''north row''))) (\<lambda>rid.
     bind_act (expect_act (on_heap (\<lambda>heap. heap_get heap rid))) (\<lambda>bs.
     seq_act (assert_act (bs = ascii ''north row''))
    (seq_act (expect_act (on_heap (\<lambda>heap. heap_delete heap rid)))
    (bind_act (attempt (on_heap (\<lambda>heap. heap_get heap rid))) (\<lambda>got.
     assert_act (fails_with (\<lambda>e. case e of H_Page (SP_InvalidRid _) \<Rightarrow> True | _ \<Rightarrow> False) got)))))))"

definition grows_and_reopens_multi_page_chain :: test where
  "grows_and_reopens_multi_page_chain = on_new_heap 2 (
     bind_act (query (\<lambda>(heap, pool). expect (first_page_id heap))) (\<lambda>first_page.
     bind_act (expect_act (heap_insert (replicate 4000 1))) (\<lambda>first.
     bind_act (expect_act (heap_insert (replicate 4000 2))) (\<lambda>second.
     bind_act (expect_act (heap_insert (replicate 4000 3))) (\<lambda>third.
     seq_act (assert_act (rid_page first = rid_page second))
    (seq_act (assert_act (rid_page third \<noteq> rid_page first))
    (seq_act (query (\<lambda>(heap, pool). assert_that (page_count heap = 2)))
    (seq_act (expect_act (in_pool pool_sync))
    (query (\<lambda>(heap, pool).
       and_then (expect (pool_close pool)) (\<lambda>disk.
       and_then (expect (disk_open_read_only test_path (left_by disk) [])) (\<lambda>disk.
       and_then (expect (pool_new disk 1)) (\<lambda>read_only.
       case heap_open first_page read_only of (opened, read_only) \<Rightarrow>
       and_then (expect opened) (\<lambda>reopened.
       and_then (expect (fst (heap_scan reopened read_only))) (\<lambda>records.
       and_then (assert_that (length records = 3)) (\<lambda>_.
       and_then (index_at records 0) (\<lambda>r.
       and_then (assert_that (record_bytes r = replicate 4000 1)) (\<lambda>_.
       and_then (index_at records 2) (\<lambda>r.
         assert_that (record_bytes r = replicate 4000 3))))))))))))))))))))"

definition reuses_space_in_an_earlier_page :: test where
  "reuses_space_in_an_earlier_page = on_new_heap 2 (
     bind_act (expect_act (heap_insert (replicate 3000 1))) (\<lambda>first.
     bind_act (expect_act (heap_insert (replicate 3000 2))) (\<lambda>_.
     bind_act (expect_act (heap_insert (replicate 3000 3))) (\<lambda>_.
     seq_act (query (\<lambda>(heap, pool). assert_that (page_count heap = 2)))
    (seq_act (expect_act (on_heap (\<lambda>heap. heap_delete heap first)))
    (bind_act (expect_act (heap_insert (replicate 2500 4))) (\<lambda>replacement.
     seq_act (assert_act (rid_page replacement = rid_page first))
             (query (\<lambda>(heap, pool). assert_that (page_count heap = 2))))))))))"

definition rejects_rids_from_another_heap :: test where
  "rejects_rids_from_another_heap = on_new_heap 3 (
     bind_act (expect_act (in_pool heap_create)) (\<lambda>second.
     bind_act (expect_act (heap_insert (ascii ''owned by first''))) (\<lambda>rid.
     bind_act (attempt (in_pool (heap_get second rid))) (\<lambda>got.
     assert_act (fails_with (\<lambda>e. case e of H_RidOutsideHeap _ \<Rightarrow> True | _ \<Rightarrow> False) got)))))"

definition detects_page_chain_cycles :: test where
  "detects_page_chain_cycles = on_new_heap 2 (
     bind_act (query (\<lambda>(heap, pool). expect (first_page_id heap))) (\<lambda>first_page.
     seq_act (expect_act (in_pool (update_page H_Buffer first_page
       (with_slotted_mut (map_err_act H_Page (set_next_page_id (Some first_page)))))))
    (bind_act (attempt (in_pool (heap_open first_page))) (\<lambda>opened.
     assert_act (fails_with (\<lambda>e. case e of H_PageChainCycle page_id \<Rightarrow> page_id = first_page | _ \<Rightarrow> False) opened)))))"

section \<open>The state a test keeps\<close>

text \<open>The pages of the heap with their slots, and the identifier of the next page.\<close>

definition heap_at :: "(page_id \<times> slot_view list) list \<Rightarrow> page_id option \<Rightarrow> heap_file \<times> buffer_pool \<Rightarrow> bool" where
  "heap_at pgs n s \<longleftrightarrow> (case s of (h, p) \<Rightarrow> quiet p \<and> pool_writes p \<and> heap_inv (pool_view p) h \<and> heap_pages h = map fst pgs
     \<and> (\<forall>x\<in>set pgs. slots_at (pool_view p) (fst x) = snd x) \<and> pool_next p = n)"

lemma heap_atD:
  assumes "heap_at pgs n (h, p)"
  shows "quiet p" "pool_writes p" "heap_inv (pool_view p) h" "heap_pages h = map fst pgs" "pool_next p = n"
    "\<And>x. x \<in> set pgs \<Longrightarrow> slots_at (pool_view p) (fst x) = snd x"
  using assms by (simp_all add: heap_at_def)

lemma on_new_heap_run:
  assumes "0 < cap" and "cap \<le> 10" and "\<And>s. heap_at [(1, [])] (Some 2) s \<Longrightarrow> fst (body s) = Ok ()"
  shows "on_new_heap cap body = Ok ()"
proof -
  obtain p where p: "heap_create (fresh_pool cap) = (Ok \<lparr>heap_pages = [1]\<rparr>, p)" "quiet p" "pool_writes p"
    "heap_inv (pool_view p) \<lparr>heap_pages = [1]\<rparr>" "slots_at (pool_view p) 1 = []" "pool_next p = Some 2"
    by (rule fresh_heap [OF assms(1)])
  then have "heap_at [(1, [])] (Some 2) (\<lparr>heap_pages = [1]\<rparr>, p)"
    by (simp add: heap_at_def)
  then show ?thesis
    using assms p(1) by (simp add: on_new_heap_def test_pool_def create_manager_eq pool_new_eq)
qed

text \<open>Insertion into the first page, and into a new page where no page has room.\<close>

lemma insert_first_run:
  assumes s: "heap_at ((pid, xs) # pgs) n (h, p)" and len: "length rec \<le> MAX_RECORD_SIZE"
    and ok: "spec_insert_outcome rec xs = Ok out"
  shows "\<exists>p'. heap_insert rec (h, p) = (Ok (rid_new pid (of_nat (fst out)) (fst (snd out))), (h, p'))
    \<and> heap_at ((pid, snd (snd out)) # pgs) n (h, p')"
proof -
  note H = heap_atD [OF s]
  have slots: "slots_at (pool_view p) pid = xs" using H(6) by force
  have wf: "\<And>q. q \<in> set (heap_pages h) \<Longrightarrow> wf_at (pool_view p) q"
    using H(3) by (simp add: heap_inv_def)
  have "choose_page rec (pool_view p) (heap_pages h) = Some pid"
    using H(4) slots ok by simp
  then obtain p' bs where p': "quiet p'" "pool_writes p'" "pool_next p' = pool_next p"
      "insert_into rec (heap_pages h) p = (Ok (Some (rid_new pid (of_nat (fst out)) (fst (snd out)))), p')"
    and bs: "pool_view p' = (pool_view p)(pid \<mapsto> bs)" "wf_layout bs" "slots_of bs = snd (snd out)"
      "link_of bs = link_at (pool_view p) pid"
    using insert_into_run [OF H(1,2) wf, where rec = rec] slots ok by (cases out) force
  have "pid \<notin> set (map fst pgs)"
    using H(3,4) by (simp add: heap_inv_def)
  then have "heap_at ((pid, snd (snd out)) # pgs) n (h, p')"
    using H p' bs heap_inv_update [OF H(3) bs(2,4)] by (auto simp: heap_at_def slots_at_def)
  then show ?thesis
    using p'(4) len by (simp add: heap_insert_def on_pool_def act_simps)
qed

lemma insert_first_page:
  assumes "heap_at ((pid, xs) # pgs) n s" and "length rec \<le> MAX_RECORD_SIZE" and "spec_insert_outcome rec xs = Ok out"
    and "\<And>s'. heap_at ((pid, snd (snd out)) # pgs) n s' \<Longrightarrow> fst (f (rid_new pid (of_nat (fst out)) (fst (snd out))) s') = Ok ()"
  shows "fst (bind_act (expect_act (heap_insert rec)) f s) = Ok ()"
  using insert_first_run [of pid xs pgs n "fst s" "snd s" rec out] assms by (auto simp: act_simps)

lemma insert_new_page:
  assumes s: "heap_at pgs (Some n) s" and len: "length rec \<le> MAX_RECORD_SIZE"
    and full: "\<And>pid xs. (pid, xs) \<in> set pgs \<Longrightarrow> \<exists>a b. spec_insert_outcome rec xs = Err (SP_NoSpace a b)"
    and next_id: "id_after n = Some n'"
    and rest: "\<And>s'. heap_at (pgs @ [(n, [Live 1 rec])]) (Some n') s' \<Longrightarrow> fst (f (rid_new n 0 1) s') = Ok ()"
  shows "fst (bind_act (expect_act (heap_insert rec)) f s) = Ok ()"
proof -
  obtain h p where hp: "s = (h, p)" by (cases s)
  note H = heap_atD [OF s [unfolded hp]]
  have wf: "\<And>q. q \<in> set (heap_pages h) \<Longrightarrow> wf_at (pool_view p) q"
    using H(3) by (simp add: heap_inv_def)
  have "\<exists>a b. spec_insert_outcome rec (slots_at (pool_view p) q) = Err (SP_NoSpace a b)" if "q \<in> set (heap_pages h)" for q
    using that H(4,6) full by force
  then have "choose_page rec (pool_view p) qs = None" if "set qs \<subseteq> set (heap_pages h)" for qs
    using that by (induction qs) fastforce+
  then obtain p1 where p1: "quiet p1" "pool_writes p1" "pool_next p1 = pool_next p" "pool_view p1 = pool_view p"
      "insert_into rec (heap_pages h) p = (Ok None, p1)"
    using insert_into_run [OF H(1,2) wf, where rec = rec] by fastforce
  have chain: "pages_chain (pool_view p1) h None"
    using H(3) p1(4) by (simp add: heap_inv_chain)
  obtain p' h' where run: "append_page_with_record rec (h, p1) = (Ok (rid_new n 0 1), (h', p'))" "quiet p'"
      "pool_writes p'" "heap_inv (pool_view p') h'" "heap_pages h' = heap_pages h @ [n]"
      "\<forall>pid\<in>set (heap_pages h). slots_at (pool_view p') pid = slots_at (pool_view p1) pid" "pool_next p' = id_after n"
      "slots_at (pool_view p') n = [Live 1 rec]"
    using append_run [OF p1(1) chain p1(2) len] p1(3) H(5) by auto
  have step: "heap_insert rec (h, p) = (Ok (rid_new n 0 1), (h', p'))"
    using p1(5) run(1) len by (simp add: heap_insert_def on_pool_def act_simps)
  have "heap_at (pgs @ [(n, [Live 1 rec])]) (Some n') (h', p')"
    using run H next_id p1(4) by (auto simp: heap_at_def)
  then show ?thesis
    using rest step hp by (simp add: act_simps)
qed

text \<open>Lookup and deletion in the first page.\<close>

lemma get_first_page:
  assumes "heap_at ((pid, xs) # pgs) n s" and "rid_page r = pid"
  shows "\<exists>s'. on_heap (\<lambda>h. heap_get h r) s = (case spec_get (unat (rid_slot r)) (rid_generation r) xs of
       Some b \<Rightarrow> Ok b | None \<Rightarrow> Err (H_Page (SP_InvalidRid r)), s') \<and> heap_at ((pid, xs) # pgs) n s'"
proof -
  obtain h p where hp: "s = (h, p)" by (cases s)
  note H = heap_atD [OF assms(1) [unfolded hp]]
  have "heap_lookup (pool_view p) h r = spec_get (unat (rid_slot r)) (rid_generation r) xs" "rid_page r \<in> set (heap_pages h)"
    using H(4) H(6) [of "(pid, xs)"] assms(2) by (simp_all add: heap_lookup_def)
  then show ?thesis
    using heap_get_run [OF H(1,3), of r] assms hp
    by (auto simp: on_heap_def on_pool_def act_simps heap_at_def)
qed

lemma delete_first_page:
  assumes "heap_at ((pid, xs) # pgs) n s" and "rid_page r = pid"
    and "spec_get (unat (rid_slot r)) (rid_generation r) xs \<noteq> None"
    and rest: "\<And>s'. heap_at ((pid, spec_delete (unat (rid_slot r)) (rid_generation r) xs) # pgs) n s' \<Longrightarrow> fst (m s') = Ok ()"
  shows "fst (seq_act (expect_act (on_heap (\<lambda>h. heap_delete h r))) m s) = Ok ()"
proof -
  obtain h p where hp: "s = (h, p)" by (cases s)
  note H = heap_atD [OF assms(1) [unfolded hp]]
  have slots: "slots_at (pool_view p) pid = xs" using H(6) [of "(pid, xs)"] by simp
  have "heap_lookup (pool_view p) h r = spec_get (unat (rid_slot r)) (rid_generation r) xs"
    using H(4) slots assms(2) by (simp add: heap_lookup_def)
  then obtain p' where p': "quiet p'" "pool_writes p'" "heap_inv (pool_view p') h" "pool_next p' = pool_next p"
      "heap_delete h r p = (Ok (), p')"
      "\<forall>q\<in>set (heap_pages h). slots_at (pool_view p') q = (if q = rid_page r
         then spec_delete (unat (rid_slot r)) (rid_generation r) (slots_at (pool_view p) q) else slots_at (pool_view p) q)"
    using heap_delete_run [OF H(1,3,2), of r] assms(3) by (auto split: option.splits)
  have "fst x \<noteq> pid" if "x \<in> set pgs" for x
    using H(3,4) that by (force simp: heap_inv_def)
  then have "heap_at ((pid, spec_delete (unat (rid_slot r)) (rid_generation r) xs) # pgs) n (h, p')"
    using H p' slots assms(2) by (simp add: heap_at_def)
  then show ?thesis
    using rest p'(5) hp by (simp add: on_heap_def on_pool_def act_simps)
qed

lemmas heap_eval = spec_insert_outcome_def spec_insert_def spec_delete_def spec_get_def spec_free_def
  spec_first_reusable_def ascii_length rid_new_def

lemma found_in_first_page:
  assumes "heap_at ((pid, xs) # pgs) n s" and "rid_page r = pid"
    and "spec_get (unat (rid_slot r)) (rid_generation r) xs = Some b"
    and "\<And>s'. heap_at ((pid, xs) # pgs) n s' \<Longrightarrow> fst (f b s') = Ok ()"
  shows "fst (bind_act (expect_act (on_heap (\<lambda>h. heap_get h r))) f s) = Ok ()"
  using get_first_page [OF assms(1,2)] assms(3,4) by (auto simp: act_simps)

lemma gone_from_first_page:
  assumes "heap_at ((pid, xs) # pgs) n s" and "rid_page r = pid"
    and "spec_get (unat (rid_slot r)) (rid_generation r) xs = None"
    and "\<And>s'. heap_at ((pid, xs) # pgs) n s' \<Longrightarrow> fst (f (Err (H_Page (SP_InvalidRid r))) s') = Ok ()"
  shows "fst (bind_act (attempt (on_heap (\<lambda>h. heap_get h r))) f s) = Ok ()"
  using get_first_page [OF assms(1,2)] assms(3,4) by (auto simp: act_simps)

lemma checked: "k s = (Ok (), s) \<Longrightarrow> fst (m s) = Ok () \<Longrightarrow> fst (seq_act k m s) = Ok ()"
  by (simp add: act_simps)

lemma pages_checked: "heap_at pgs n s \<Longrightarrow> length pgs = k \<Longrightarrow> query (\<lambda>(heap, pool). assert_that (page_count heap = k)) s = (Ok (), s)"
  by (auto simp: heap_at_def page_count_def act_simps)

lemma first_page_read:
  "heap_at ((pid, xs) # pgs) n s \<Longrightarrow> fst (f pid s) = Ok () \<Longrightarrow>
   fst (bind_act (query (\<lambda>(heap, pool). expect (first_page_id heap))) f s) = Ok ()"
  by (auto simp: heap_at_def first_page_id_def act_simps)

lemma pass_heap_basics: "creates_inserts_reads_and_deletes = Ok ()"
  unfolding creates_inserts_reads_and_deletes_def
  by (rule on_new_heap_run, simp, simp, rule insert_first_page, assumption, simp add: heap_eval, simp add: heap_eval,
      rule found_in_first_page, assumption, simp add: heap_eval, simp add: heap_eval,
      rule checked, simp add: act_simps, rule delete_first_page, assumption, simp add: heap_eval, simp add: heap_eval,
      rule gone_from_first_page, assumption, simp add: heap_eval, simp add: heap_eval, simp add: act_simps)

lemma pass_reuse: "reuses_space_in_an_earlier_page = Ok ()"
  unfolding reuses_space_in_an_earlier_page_def
  by (rule on_new_heap_run, simp, simp, rule insert_first_page, assumption, simp, simp add: heap_eval,
      rule insert_first_page, assumption, simp, simp add: heap_eval,
      rule insert_new_page, assumption, simp, simp add: heap_eval, simp add: id_after_def,
      rule checked, rule pages_checked, assumption, simp, simp, rule delete_first_page, assumption, simp add: heap_eval, simp add: heap_eval,
      rule insert_first_page, assumption, simp, simp add: heap_eval,
      rule checked, simp add: act_simps heap_eval, simp add: pages_checked)

text \<open>A second heap in the pool.\<close>

lemma create_second:
  assumes s: "heap_at pgs (Some n) s" and next_id: "id_after n = Some n'"
    and rest: "\<And>s'. heap_at pgs (Some n') s' \<Longrightarrow> fst (f \<lparr>heap_pages = [n]\<rparr> s') = Ok ()"
  shows "fst (bind_act (expect_act (in_pool heap_create)) f s) = Ok ()"
proof -
  obtain h p where hp: "s = (h, p)" by (cases s)
  note H = heap_atD [OF s [unfolded hp]]
  obtain p' where p': "heap_create p = (Ok \<lparr>heap_pages = [n]\<rparr>, p')" "quiet p'" "pool_writes p'" "pool_view p n = None"
      "\<forall>pid. pid \<noteq> n \<longrightarrow> pool_view p' pid = pool_view p pid" "pool_next p' = id_after n"
    using heap_create_run [OF H(1,2,5)] by blast
  have "n \<notin> set (heap_pages h)"
    using H(3) p'(4) by (auto simp: heap_inv_def wf_at_def)
  then have "\<forall>pid\<in>set (heap_pages h). pool_view p' pid = pool_view p pid"
    using p'(5) by metis
  then have "heap_inv (pool_view p') h" "\<forall>x\<in>set pgs. slots_at (pool_view p') (fst x) = snd x"
    using heap_agree(1) [OF H(3), of "pool_view p'"] H(4,6) by (auto simp: slots_at_def)
  then have "heap_at pgs (Some n') (h, p')"
    using H p' next_id by (simp add: heap_at_def)
  then show ?thesis
    using rest p'(1) hp by (simp add: in_pool_def act_simps)
qed

lemma pass_other_heap: "rejects_rids_from_another_heap = Ok ()"
  unfolding rejects_rids_from_another_heap_def
  by (rule on_new_heap_run, simp, simp, rule create_second, assumption, simp add: id_after_def,
      rule insert_first_page, assumption, simp add: heap_eval, simp add: heap_eval,
      simp add: act_simps in_pool_def heap_get_def ensure_owned_rid_def heap_eval split: prod.split)

lemma pass_cycle: "detects_page_chain_cycles = Ok ()"
  unfolding detects_page_chain_cycles_def
proof (rule on_new_heap_run, simp, simp, rule first_page_read, assumption)
  fix s :: "heap_file \<times> buffer_pool"
  assume s: "heap_at [(1, [])] (Some 2) s"
  obtain h p where hp: "s = (h, p)" by (cases s)
  note H = heap_atD [OF s [unfolded hp]]
  have "wf_at (pool_view p) 1" using H(3,4) by (simp add: heap_inv_def)
  from set_link_run [OF H(1,2) this, of 1] obtain p1 bs where
    link: "update_page H_Buffer 1 (with_slotted_mut (map_err_act H_Page (set_next_page_id (Some 1)))) p = (Ok (), p1)"
    and p1: "quiet p1" "pool_view p1 = (pool_view p)(1 \<mapsto> bs)" "wf_layout bs" "link_of bs = Some 1"
    by auto
  have "chain (pool_view p1) [1] (Some 1)" "wf_at (pool_view p1) 1"
    using p1 by (auto simp: link_at_def wf_at_def)
  from open_chain_run [OF p1(1) refl this(1), of "[]"] this(2)
  obtain p2 where "open_chain [] {} 1 p1 = open_chain [1] {1} 1 p2" by auto
  then have "heap_open 1 p1 = (Err (H_PageChainCycle 1), p2)"
    by (simp add: heap_open_def act_simps open_chain.simps)
  then show "fst (seq_act (expect_act (in_pool (update_page H_Buffer 1
       (with_slotted_mut (map_err_act H_Page (set_next_page_id (Some 1)))))))
    (bind_act (attempt (in_pool (heap_open 1))) (\<lambda>opened.
     assert_act (fails_with (\<lambda>e. case e of H_PageChainCycle page_id \<Rightarrow> page_id = 1 | _ \<Rightarrow> False) opened))) s) = Ok ()"
    using link by (simp add: hp in_pool_def act_simps)
qed

text \<open>The records of a heap in page and slot order, read from the slots.\<close>

fun slot_payloads :: "slot_view list \<Rightarrow> bytes list" where
  "slot_payloads [] = []"
| "slot_payloads (Live g rec # xs) = rec # slot_payloads xs"
| "slot_payloads (v # xs) = slot_payloads xs"

lemma payloads_filter: "slot_payloads (map f is) = map (\<lambda>i. the (case f i of Live g rec \<Rightarrow> Some rec | _ \<Rightarrow> None)) (filter (\<lambda>i. view_live (f i)) is)"
  by (induction "is") (auto split: slot_view.split)

lemma page_records_payloads: "map record_bytes (page_records pid bs) = slot_payloads (slots_of bs)"
  unfolding slots_of_def payloads_filter page_records_def live_slots_def
  by (auto simp: slot_at_def is_live_def intro!: map_cong filter_cong)

lemma scan_at:
  assumes "quiet p" and "heap_inv (pool_view p) h"
  shows "\<exists>recs p'. heap_scan h p = (Ok recs, p')
    \<and> map record_bytes recs = concat (map (\<lambda>pid. slot_payloads (slots_at (pool_view p) pid)) (heap_pages h))"
  using heap_scan_eq [OF assms] by (auto simp: map_concat page_records_payloads slots_at_def comp_def)

text \<open>A database synchronized and closed, and opened again for reading only.\<close>

lemma sync_close_reopen:
  assumes "quiet p" and "0 < cap" and "cap \<le> MAP_CAPACITY_LIMIT"
  obtains p1 d d' q where "pool_sync p = (Ok (), p1)" and "pool_close p1 = Ok d"
    and "disk_open_read_only test_path (left_by d) [] = Ok d'" and "pool_new d' cap = Ok q" and "quiet q"
    and "pool_view q = pool_view p" and "pool_root q = pool_root p"
proof -
  have sound: "pool_sound p" "\<And>pid. borrows p pid = Unborrowed"
    using quietD [OF assms(1)] by auto
  obtain p1 where p1: "pool_sync p = (Ok (), p1)" "pool_sound p1" "same_client_state p p1"
    using pool_sync_sound [OF sound] by blast
  have "\<And>pid. borrows p1 pid = Unborrowed" using p1(3) sound(2) by (simp add: same_client_state_def)
  from pool_close_sound [OF p1(2) this] obtain d where d: "pool_close p1 = Ok d" "disk_ok d" "disk_pages d = pool_view p1"
      "disk_meta d = disk_meta (pool_disk p1)"
    by blast
  obtain d' q where r: "open_with_mode test_path True (Some (file_data (disk_file d))) [] = Ok d'" "pool_new d' cap = Ok q"
    "quiet q" "pool_view q = disk_pages d" "pool_root q = disk_root d"
    by (rule restart [OF d(2) assms(2,3)])
  have "disk_open_read_only test_path (left_by d) [] = Ok d'"
    using r(1) by (simp add: disk_open_read_only_def)
  moreover have "pool_root q = pool_root p" "pool_view q = pool_view p"
    using r(4,5) d(3,4) p1(3) by (simp_all add: same_client_state_def pool_root_def disk_root_def)
  ultimately show ?thesis
    using that p1(1) d(1) r(2,3) by blast
qed

lemma pass_reopened_chain: "grows_and_reopens_multi_page_chain = Ok ()"
proof -
  let ?a = "replicate 4000 (1 :: u8)" and ?b = "replicate 4000 (2 :: u8)" and ?c = "replicate 4000 (3 :: u8)"
  let ?rest = "seq_act (expect_act (in_pool pool_sync))
    (query (\<lambda>(heap, pool).
       and_then (expect (pool_close pool)) (\<lambda>disk.
       and_then (expect (disk_open_read_only test_path (left_by disk) [])) (\<lambda>disk.
       and_then (expect (pool_new disk 1)) (\<lambda>read_only.
       case heap_open 1 read_only of (opened, read_only) \<Rightarrow>
       and_then (expect opened) (\<lambda>reopened.
       and_then (expect (fst (heap_scan reopened read_only))) (\<lambda>records.
       and_then (assert_that (length records = 3)) (\<lambda>_.
       and_then (index_at records 0) (\<lambda>r.
       and_then (assert_that (record_bytes r = ?a)) (\<lambda>_.
       and_then (index_at records 2) (\<lambda>r.
         assert_that (record_bytes r = ?c)))))))))))) :: (heap_file \<times> buffer_pool, unit, unit) act"
  have rest: "fst (?rest s) = Ok ()" if s: "heap_at [(1, [Live 1 ?a, Live 1 ?b]), (2, [Live 1 ?c])] (Some 3) s" for s
  proof -
    obtain h p where hp: "s = (h, p)" by (cases s)
    note H = heap_atD [OF s [unfolded hp]]
    obtain p1 d d' q where r: "pool_sync p = (Ok (), p1)" "pool_close p1 = Ok d"
      "disk_open_read_only test_path (left_by d) [] = Ok d'" "pool_new d' 1 = Ok q" "quiet q" "pool_view q = pool_view p"
      by (rule sync_close_reopen [OF H(1), of 1]) auto
    obtain q1 where q1: "heap_open 1 q = (Ok h, q1)" "quiet q1" "pool_view q1 = pool_view p"
      using heap_open_run [OF r(5), of h] r(6) H(3,4) by auto
    obtain recs q2 where recs: "heap_scan h q1 = (Ok recs, q2)"
        "map record_bytes recs = concat (map (\<lambda>pid. slot_payloads (slots_at (pool_view p) pid)) (heap_pages h))"
      using scan_at [OF q1(2), of h] q1(3) H(3) by auto
    then have "map record_bytes recs = [?a, ?b, ?c]"
      using H(4) H(6) [of "(1, [Live 1 ?a, Live 1 ?b])"] H(6) [of "(2, [Live 1 ?c])"] by simp
    then obtain r1 r2 r3 where "recs = [r1, r2, r3]" "record_bytes r1 = ?a" "record_bytes r3 = ?c"
      by auto
    then show ?thesis
      using r q1 recs(1) hp by (simp add: in_pool_def index_at_def act_simps)
  qed
  show ?thesis
    unfolding grows_and_reopens_multi_page_chain_def
    by (rule on_new_heap_run, simp, simp, rule first_page_read, assumption,
        rule insert_first_page, assumption, simp, simp add: heap_eval,
        rule insert_first_page, assumption, simp, simp add: heap_eval,
        rule insert_new_page, assumption, simp, simp add: heap_eval, simp add: id_after_def,
        rule checked, simp add: act_simps heap_eval, rule checked, simp add: act_simps heap_eval,
        rule checked, rule pages_checked, assumption, simp, rule rest, simp)
qed

end
