(* ===== verification/Test_Schema.thy ===== *)
theory Test_Schema
  imports Table Test_Support
begin

text \<open>The unit tests of \<^verbatim>\<open>schema/row.rs\<close> and \<^verbatim>\<open>schema/table.rs\<close>.\<close>

lemmas schema_eval = schema_new_def validate_identifier_def chars_ascii is_str_ascii ascii_alphabetic_def ascii_alphanumeric_def
  ascii_def primary_key_column_def required_column_def nullable_column_def compile_def

section \<open>Rows\<close>

definition row_test_schema :: "table_schema unwrapped" where
  "row_test_schema = expect (schema_new (ascii ''items'')
     [primary_key_column (ascii ''id'') DT_Int,
      required_column (ascii ''score'') DT_Float,
      required_column (ascii ''active'') DT_Bool,
      required_column (ascii ''name'') DT_Text,
      nullable_column (ascii ''metadata'') DT_Bytes])"

definition fixed_encoding_is_stable_and_little_endian :: test where
  "fixed_encoding_is_stable_and_little_endian =
     and_then (expect (schema_new (ascii ''flags'')
       [primary_key_column (ascii ''id'') DT_Int, required_column (ascii ''active'') DT_Bool])) (\<lambda>schema.
     and_then (expect (encode_row schema [V_Int 42, V_Bool True])) (\<lambda>row.
       assert_that (row = [1, 0, 42, 0, 0, 0, 0, 0, 0, 0, 1])))"

text \<open>The floats of the tests, as their bits.\<close>

abbreviation (input) float_4_5 :: u64 where "float_4_5 \<equiv> 0x4012000000000000"
abbreviation (input) float_1_0 :: u64 where "float_1_0 \<equiv> 0x3FF0000000000000"

definition round_trips_all_types_and_borrows_variable_values :: test where
  "round_trips_all_types_and_borrows_variable_values =
     and_then row_test_schema (\<lambda>schema.
     and_then (expect (encode_row schema
       [V_Int 7, V_Float float_4_5, V_Bool True, V_Text (ascii ''north''), V_Bytes [1, 2, 3]])) (\<lambda>row.
     and_then (expect (decode_row schema row)) (\<lambda>decoded.
       assert_that (decoded =
         [R_Int 7, R_Float float_4_5, R_Bool True, R_Text (ascii ''north''), R_Bytes [1, 2, 3]]))))"

definition supports_null_and_projected_decoding :: test where
  "supports_null_and_projected_decoding =
     and_then row_test_schema (\<lambda>schema.
     and_then (expect (encode_row schema
       [V_Int 9, V_Float float_1_0, V_Bool False, V_Text (ascii ''potato''), V_Null])) (\<lambda>row.
     and_then (expect (project_row schema row [3, 0, 4])) (\<lambda>projected.
     and_then (assert_that (projected = [R_Text (ascii ''potato''), R_Int 9, R_Null])) (\<lambda>_.
     and_then (expect (primary_key_value schema row)) (\<lambda>key.
       assert_that (key = R_Int 9))))))"

definition rejects_wrong_types_counts_and_required_nulls :: test where
  "rejects_wrong_types_counts_and_required_nulls =
     and_then row_test_schema (\<lambda>schema.
     and_then (assert_that (fails_with (\<lambda>e. case e of RE_WrongValueCount _ _ \<Rightarrow> True | _ \<Rightarrow> False)
       (encode_row schema [V_Int 1]))) (\<lambda>_.
     and_then (assert_that (fails_with (\<lambda>e. case e of RE_TypeMismatch column _ _ \<Rightarrow> column = ascii ''id'' | _ \<Rightarrow> False)
       (encode_row schema [V_Text (ascii ''wrong''), V_Float float_1_0, V_Bool True, V_Text (ascii ''name''), V_Null]))) (\<lambda>_.
       assert_that (fails_with (\<lambda>e. case e of RE_NullNotAllowed column \<Rightarrow> column = ascii ''id'' | _ \<Rightarrow> False)
       (encode_row schema [V_Null, V_Float float_1_0, V_Bool True, V_Text (ascii ''name''), V_Null])))))"

definition rejects_noncanonical_or_invalid_row_bytes :: test where
  "rejects_noncanonical_or_invalid_row_bytes =
     and_then row_test_schema (\<lambda>schema.
     and_then (expect (encode_row schema
       [V_Int 1, V_Float float_1_0, V_Bool True, V_Text (ascii ''valid''), V_Null])) (\<lambda>row.
     and_then (expect (ok_or (column_offset (schema_layout schema) 2) ())) (\<lambda>bool_offset.
     and_then (copy_at row bool_offset [3]) (\<lambda>row.
     and_then (assert_that (fails_with (\<lambda>e. e = RE_Corrupt ''boolean column is not zero or one'')
       (decode_row schema row))) (\<lambda>_.
     and_then (copy_at row bool_offset [1]) (\<lambda>row.
     and_then (expect (ok_or (column_offset (schema_layout schema) 3) ())) (\<lambda>text_offset.
     and_then (copy_at row text_offset (to_le 4 (0 :: u32))) (\<lambda>row.
       assert_that (fails_with (\<lambda>e. e = RE_Corrupt ''variable column payload is not canonical'')
         (decode_row schema row))))))))))"

definition rejects_rows_too_large_for_one_heap_page :: test where
  "rejects_rows_too_large_for_one_heap_page =
     and_then (expect (schema_new (ascii ''documents'')
       [primary_key_column (ascii ''id'') DT_Int, required_column (ascii ''body'') DT_Text])) (\<lambda>schema.
       assert_that (fails_with (\<lambda>e. case e of RE_RowTooLarge _ _ \<Rightarrow> True | _ \<Rightarrow> False)
         (encode_row schema [V_Int 1, V_Text (concat (replicate 8192 (ascii ''x'')))])))"

lemmas encode_eval = encode_row_def encode_def copy_at_def encode_column_def append_variable_def set_null_def index_at_def
  u32_try_from_def splice_def as_u32_def

lemmas decode_eval = decode_row_def decode_def project_row_def project_def primary_key_value_def decode_column_def
  validate_row_def validate_column_def decode_column_unchecked_def slice_at_def slice_def is_null_def row_read_u32_def
  variable_payload_def eight_bytes_def checked_add_usize_def upt_rec_numeral column_offset_def

lemma pass_fixed_encoding: "fixed_encoding_is_stable_and_little_endian = Ok ()"
  by (simp add: fixed_encoding_is_stable_and_little_endian_def schema_eval encode_eval test_simps Let_def)

lemma pass_all_types: "round_trips_all_types_and_borrows_variable_values = Ok ()"
  by (simp add: round_trips_all_types_and_borrows_variable_values_def row_test_schema_def schema_eval encode_eval
      decode_eval test_simps Let_def)

lemma pass_null_and_projection: "supports_null_and_projected_decoding = Ok ()"
  by (simp add: supports_null_and_projected_decoding_def row_test_schema_def schema_eval encode_eval
      decode_eval test_simps Let_def)

lemma pass_wrong_values: "rejects_wrong_types_counts_and_required_nulls = Ok ()"
  by (simp add: rejects_wrong_types_counts_and_required_nulls_def row_test_schema_def schema_eval encode_eval
      test_simps Let_def)

lemma pass_invalid_bytes: "rejects_noncanonical_or_invalid_row_bytes = Ok ()"
  by (simp add: rejects_noncanonical_or_invalid_row_bytes_def row_test_schema_def schema_eval encode_eval
      decode_eval test_simps Let_def)

lemma pass_too_large: "rejects_rows_too_large_for_one_heap_page = Ok ()"
  by (simp add: rejects_rows_too_large_for_one_heap_page_def schema_eval encode_eval test_simps Let_def length_concat)

section \<open>Schemas\<close>

definition valid_schema :: "table_schema unwrapped" where
  "valid_schema = expect (schema_new (ascii ''users'')
     [primary_key_column (ascii ''id'') DT_Int,
      required_column (ascii ''name'') DT_Text,
      nullable_column (ascii ''email'') DT_Text])"

definition requires_exactly_one_non_null_primary_key :: test where
  "requires_exactly_one_non_null_primary_key =
     and_then (assert_that (fails_with (\<lambda>e. e = SE_MissingPrimaryKey)
       (schema_new (ascii ''users'') [required_column (ascii ''id'') DT_Int]))) (\<lambda>_.
       assert_that (fails_with (\<lambda>e. e = SE_MultiplePrimaryKeys)
         (schema_new (ascii ''users'')
            [primary_key_column (ascii ''id'') DT_Int, primary_key_column (ascii ''email'') DT_Text])))"

definition rejects_duplicate_and_invalid_identifiers :: test where
  "rejects_duplicate_and_invalid_identifiers =
     and_then (assert_that (fails_with (\<lambda>e. case e of SE_DuplicateColumn name \<Rightarrow> name = ascii ''id'' | _ \<Rightarrow> False)
       (schema_new (ascii ''users'')
          [primary_key_column (ascii ''id'') DT_Int, required_column (ascii ''id'') DT_Text]))) (\<lambda>_.
       assert_that (fails_with (\<lambda>e. case e of SE_InvalidIdentifier kind _ \<Rightarrow> kind = ''table'' | _ \<Rightarrow> False)
         (schema_new (ascii ''not valid'') [primary_key_column (ascii ''id'') DT_Int])))"

definition schema_encoding_round_trips_and_recompiles_layout :: test where
  "schema_encoding_round_trips_and_recompiles_layout =
     and_then valid_schema (\<lambda>schema.
     and_then (expect (schema_decode (schema_encode schema))) (\<lambda>decoded.
     and_then (assert_that (decoded = schema)) (\<lambda>_.
     and_then (expect (schema_primary_key decoded)) (\<lambda>key.
     and_then (assert_that (column_name key = ascii ''id'')) (\<lambda>_.
       assert_that (column_index decoded (ascii ''email'') = Some 2))))))"

definition rejects_truncated_and_unknown_schema_encodings :: test where
  "rejects_truncated_and_unknown_schema_encodings =
     and_then valid_schema (\<lambda>schema.
     let encoded = schema_encode schema in
     and_then (assert_that (fails_with (\<lambda>e. case e of SE_CorruptEncoding _ \<Rightarrow> True | _ \<Rightarrow> False)
       (schema_decode (take (length encoded - 1) encoded)))) (\<lambda>_.
     let first_type_offset = 8 + 2 + length (ascii ''users'') + 2 + length (ascii ''id'') in
     and_then (copy_at encoded first_type_offset [255]) (\<lambda>unknown_type.
       assert_that (fails_with (\<lambda>e. e = SE_CorruptEncoding ''unknown column type tag'') (schema_decode unknown_type)))))"

lemma decode_columns_numeral:
  "decode_columns (numeral k) columns =
     bind_act decode_declaration (\<lambda>column. decode_columns (pred_numeral k) (columns @ [column]))"
  by (simp add: numeral_eq_Suc)

lemmas declaration_eval = decode_columns_numeral schema_encode_def SCHEMA_MAGIC_def write_string_def write_column_def as_u16_def schema_decode_def
  decode_schema_def decode_declarations_def decode_declaration_def cursor_new_def cursor_take_def cursor_read_u8_def
  cursor_read_u16_def cursor_read_string_def cursor_is_empty_def type_from_tag_def act_simps schema_primary_key_def
  column_index_def

lemma pass_one_primary_key: "requires_exactly_one_non_null_primary_key = Ok ()"
  by (simp add: requires_exactly_one_non_null_primary_key_def schema_eval test_simps Let_def)

lemma pass_identifiers: "rejects_duplicate_and_invalid_identifiers = Ok ()"
  by (simp add: rejects_duplicate_and_invalid_identifiers_def schema_eval test_simps Let_def)

lemma pass_schema_round_trip: "schema_encoding_round_trips_and_recompiles_layout = Ok ()"
  by (simp add: schema_encoding_round_trips_and_recompiles_layout_def valid_schema_def schema_eval encode_eval decode_eval
      declaration_eval test_simps Let_def)

lemma pass_schema_truncation: "rejects_truncated_and_unknown_schema_encodings = Ok ()"
  by (simp add: rejects_truncated_and_unknown_schema_encodings_def valid_schema_def schema_eval encode_eval decode_eval
      declaration_eval test_simps Let_def)

end
