(* ===== verification/Test_Catalog.thy ===== *)
theory Test_Catalog
  imports Database Catalog_Props Test_Heap_File Test_Schema
begin

text \<open>The unit tests of \<^verbatim>\<open>catalog/mod.rs\<close>.\<close>

section \<open>The tests\<close>

definition named_schema :: "string \<Rightarrow> table_schema unwrapped" where
  "named_schema name = expect (schema_new (ascii name)
     [primary_key_column (ascii ''id'') DT_Int, required_column (ascii ''name'') DT_Text])"

definition test_pool_of_three :: "buffer_pool unwrapped" where
  "test_pool_of_three = test_pool 3"

text \<open>A test on a new catalog; methods of the pool, and methods on \<^verbatim>\<open>&self\<close> of the catalog that use the
  pool, as steps of the test; \<^verbatim>\<open>unwrap\<close> of an option.\<close>

definition on_new_catalog :: "(catalog \<times> buffer_pool, unit, unit) act \<Rightarrow> test" where
  "on_new_catalog body = and_then test_pool_of_three (\<lambda>pool.
     case catalog_create pool of (created, pool) \<Rightarrow> and_then (expect created) (\<lambda>catalog. fst (body (catalog, pool))))"

definition with_pool :: "(catalog \<Rightarrow> (buffer_pool, 'a, 'e) act) \<Rightarrow> (catalog \<times> buffer_pool, 'a, 'e) act" where
  "with_pool f = (\<lambda>(catalog, pool). case f catalog pool of (r, pool) \<Rightarrow> (r, (catalog, pool)))"

definition unwrap :: "'a option \<Rightarrow> 'a unwrapped" where
  "unwrap x = expect (ok_or x ())"

definition creates_catalog_root_and_rejects_second_initialization :: test where
  "creates_catalog_root_and_rejects_second_initialization = on_new_catalog (
     query (\<lambda>(catalog, pool).
       and_then (expect (catalog_root_page_id catalog)) (\<lambda>root.
       and_then (assert_that (header_catalog_root (pool_header pool) = Some root)) (\<lambda>_.
         assert_that (fails_with (\<lambda>e. case e of CE_AlreadyInitialized _ \<Rightarrow> True | _ \<Rightarrow> False)
           (fst (catalog_create pool)))))))"

definition persists_immutable_table_metadata :: test where
  "persists_immutable_table_metadata = on_new_catalog (
     bind_act (query (\<lambda>_. named_schema ''users'')) (\<lambda>schema.
     bind_act (expect_act (create_table schema)) (\<lambda>users.
     seq_act (assert_act (metadata_id users = TableId 1))
    (bind_act (query (\<lambda>_. expect (schema_primary_key (metadata_schema users)))) (\<lambda>key.
     seq_act (assert_act (column_name key = ascii ''id''))
    (seq_act (query (\<lambda>(catalog, pool). assert_that (table_count catalog = 1)))
    (bind_act (attempt (create_table schema)) (\<lambda>again.
     seq_act (assert_act (fails_with (\<lambda>e. case e of CE_DuplicateTableName name \<Rightarrow> name = ascii ''users'' | _ \<Rightarrow> False) again))
    (seq_act (expect_act (with_pool (\<lambda>_. pool_sync)))
    (query (\<lambda>(catalog, pool).
       and_then (expect (pool_close pool)) (\<lambda>disk.
       and_then (expect (disk_open_read_only test_path (left_by disk) [])) (\<lambda>disk.
       and_then (expect (pool_new disk 2)) (\<lambda>read_only.
       and_then (expect (fst (catalog_open read_only))) (\<lambda>reopened.
       and_then (assert_that (table_count reopened = 1)) (\<lambda>_.
       and_then (unwrap (catalog_table reopened (ascii ''users''))) (\<lambda>table.
         assert_that (metadata_schema table = schema))))))))))))))))))"

definition table_rows_survive_catalog_and_heap_reopen :: test where
  "table_rows_survive_catalog_and_heap_reopen = on_new_catalog (
     bind_act (query (\<lambda>_. named_schema ''users'')) (\<lambda>schema.
     seq_act (expect_act (create_table schema))
    (bind_act (query (\<lambda>(catalog, pool). unwrap (catalog_table catalog (ascii ''users'')))) (\<lambda>table.
     let users_schema = metadata_schema table in
     bind_act (expect_act (with_pool (\<lambda>catalog. open_table_heap catalog (ascii ''users'')))) (\<lambda>heap.
     bind_act (query (\<lambda>_. expect (encode_row users_schema [V_Int 7, V_Text (ascii ''Ada'')]))) (\<lambda>encoded.
     seq_act (expect_act (with_pool (\<lambda>_ pool. case heap_insert encoded (heap, pool) of (r, (heap, pool)) \<Rightarrow> (r, pool))))
    (seq_act (expect_act (with_pool (\<lambda>_. pool_sync)))
    (query (\<lambda>(catalog, pool).
       and_then (expect (pool_close pool)) (\<lambda>disk.
       and_then (expect (disk_open_read_only test_path (left_by disk) [])) (\<lambda>disk.
       and_then (expect (pool_new disk 2)) (\<lambda>read_only.
       case catalog_open read_only of (opened, read_only) \<Rightarrow>
       and_then (expect opened) (\<lambda>catalog.
       case open_table_heap catalog (ascii ''users'') read_only of (opened, read_only) \<Rightarrow>
       and_then (expect opened) (\<lambda>heap.
       and_then (expect (fst (heap_scan heap read_only))) (\<lambda>records.
       and_then (assert_that (length records = 1)) (\<lambda>_.
       and_then (unwrap (catalog_table catalog (ascii ''users''))) (\<lambda>table.
       and_then (index_at records 0) (\<lambda>r.
       and_then (expect (decode_row (metadata_schema table) (record_bytes r))) (\<lambda>values.
         assert_that (values = [R_Int 7, R_Text (ascii ''Ada'')]))))))))))))))))))))"

definition reports_missing_tables_and_uninitialized_database :: test where
  "reports_missing_tables_and_uninitialized_database = and_then test_pool_of_three (\<lambda>pool.
     case catalog_open pool of (opened, pool) \<Rightarrow>
     and_then (assert_that (fails_with (\<lambda>e. e = CE_NotInitialized) opened)) (\<lambda>_.
     case catalog_create pool of (created, pool) \<Rightarrow>
     and_then (expect created) (\<lambda>catalog.
       assert_that (fails_with (\<lambda>e. case e of CE_TableNotFound name \<Rightarrow> name = ascii ''missing'' | _ \<Rightarrow> False)
         (fst (open_table_heap catalog (ascii ''missing'') pool))))))"

section \<open>A new catalog\<close>

lemma test_pool_of_three_eq: "test_pool_of_three = Ok (fresh_pool 3)"
  by (simp add: test_pool_of_three_def test_pool_def create_manager_eq pool_new_eq)

lemma pass_second_creation: "creates_catalog_root_and_rejects_second_initialization = Ok ()"
proof -
  obtain c p where s: "catalog_create (fresh_pool 3) = (Ok c, p)" "\<And>H. catalog_ok p c H"
    "catalog_heap c = \<lparr>heap_pages = [1]\<rparr>"
    by (rule fresh_catalog [of 3]) auto
  have "pool_root p = Some 1"
    using s(2) [of "\<lambda>_. undefined"] s(3) by (simp add: catalog_ok_def)
  then have root: "header_catalog_root (pool_header p) = Some 1"
    by (simp add: pool_header_root)
  then have "catalog_create p = (Err (CE_AlreadyInitialized 1), p)"
    by (simp add: catalog_create_def act_simps)
  then show ?thesis
    using s root by (simp add: creates_catalog_root_and_rejects_second_initialization_def on_new_catalog_def
        test_pool_of_three_eq act_simps catalog_root_page_id_def first_page_id_def)
qed

lemma pass_missing_tables: "reports_missing_tables_and_uninitialized_database = Ok ()"
proof -
  obtain c p where s: "catalog_create (fresh_pool 3) = (Ok c, p)" "catalog_tables c = RBT.empty"
    by (rule fresh_catalog [of 3]) auto
  have "header_catalog_root (pool_header (fresh_pool 3)) = None"
    using fresh_root [of 3] by (simp add: pool_header_root)
  then have "catalog_open (fresh_pool 3) = (Err CE_NotInitialized, fresh_pool 3)"
    by (simp add: catalog_open_def act_simps)
  then show ?thesis
    using s by (simp add: reports_missing_tables_and_uninitialized_database_def test_pool_of_three_eq open_table_heap_def
        catalog_table_def act_simps)
qed

section \<open>One table\<close>

definition users :: table_schema where
  "users = \<lparr>schema_name = ascii ''users'',
     schema_columns = [primary_key_column (ascii ''id'') DT_Int, required_column (ascii ''name'') DT_Text],
     primary_key_index = 0,
     schema_layout = compile [primary_key_column (ascii ''id'') DT_Int, required_column (ascii ''name'') DT_Text]\<rparr>"

lemma users_new: "schema_new (ascii ''users'')
    [primary_key_column (ascii ''id'') DT_Int, required_column (ascii ''name'') DT_Text] = Ok users"
  by (simp add: users_def schema_eval test_simps Let_def)

lemma named_users: "named_schema ''users'' = Ok users"
  by (simp add: named_schema_def users_new)

lemma users_wf: "schema_wf users"
  using users_new schema_new_Ok by blast

lemma users_length: "length (schema_encode users) < 1000"
  by (simp add: users_def schema_eval declaration_eval Let_def)

lemma users_key: "schema_primary_key users = Ok (primary_key_column (ascii ''id'') DT_Int)"
  by (simp add: users_def schema_primary_key_def)

text \<open>The table of the tests, created in a new catalog.\<close>

lemma users_created:
  obtains c p md c' p' where "catalog_create (fresh_pool 3) = (Ok c, p)" and "create_table users (c, p) = (Ok md, (c', p'))"
    and "metadata_schema md = users" and "metadata_id md = TableId 1"
    and "RBT.lookup (catalog_tables c') = [ascii ''users'' \<mapsto> md]"
    and "catalog_ok p' c' (\<lambda>_. \<lparr>heap_pages = [heap_first_page_id md]\<rparr>)" and "pool_writes p'"
    and "slots_at (pool_view p') (heap_first_page_id md) = []" and "pool_next p' \<noteq> None"
proof -
  obtain c p where s: "catalog_create (fresh_pool 3) = (Ok c, p)" "pool_writes p" "\<And>H. catalog_ok p c H" "pool_next p = Some 2"
    "catalog_heap c = \<lparr>heap_pages = [1]\<rparr>" "catalog_tables c = RBT.empty" "next_table_id c = 1" "slots_at (pool_view p) 1 = []"
    by (rule fresh_catalog [of 3]) auto
  obtain r c' p' where r: "create_table users (c, p) = (r, (c', p'))" "create_outcome users c p (\<lambda>_. undefined) r c' p'"
    using create_table_run [OF s(3,2) users_wf] by blast
  have "\<not> create_refusal users c p e" for e
    using s users_length by (auto simp: create_refusal_def id_after_def)
  then obtain md where md: "r = Ok md"
    using r(2) by (cases r) (auto simp: create_outcome_def)
  have name: "schema_name users = ascii ''users''" by (simp add: users_def)
  have tables: "RBT.lookup (catalog_tables c') = [ascii ''users'' \<mapsto> md]"
    using r(2) md s(6) name by (simp add: create_outcome_def)
  have "catalog_ok p' c' ((\<lambda>_. undefined)(ascii ''users'' := \<lparr>heap_pages = [heap_first_page_id md]\<rparr>))"
    using r(2) md name by (simp add: create_outcome_def)
  then have "catalog_ok p' c' (\<lambda>_. \<lparr>heap_pages = [heap_first_page_id md]\<rparr>)"
    using tables by (auto simp: catalog_ok_def heaps_match_def split: if_splits)
  then show ?thesis
    using that [OF s(1) r(1) [unfolded md]] r(2) md s(4,7) tables by (auto simp: create_outcome_def id_after_def)
qed

lemma table_count_one: "RBT.lookup (catalog_tables c) = [n \<mapsto> md] \<Longrightarrow> table_count c = 1"
proof -
  assume t: "RBT.lookup (catalog_tables c) = [n \<mapsto> md]"
  have "distinct (map fst (RBT.entries (catalog_tables c)))" "set (RBT.entries (catalog_tables c)) = {(n, md)}"
    using RBT.distinct_entries t by (auto simp: RBT.lookup_in_tree [symmetric] split: if_splits)
  then show ?thesis
    by (metis table_count_def distinct_map distinct_card card_1_singleton_iff One_nat_def)
qed

lemma pass_metadata: "persists_immutable_table_metadata = Ok ()"
proof -
  obtain c p md c' p' where s: "catalog_create (fresh_pool 3) = (Ok c, p)" "create_table users (c, p) = (Ok md, (c', p'))"
    "metadata_schema md = users" "metadata_id md = TableId 1" "RBT.lookup (catalog_tables c') = [ascii ''users'' \<mapsto> md]"
    "catalog_ok p' c' (\<lambda>_. \<lparr>heap_pages = [heap_first_page_id md]\<rparr>)" "pool_writes p'"
    by (rule users_created)
  have "create_table users (c', p') = (Err (CE_DuplicateTableName (ascii ''users'')), (c', p'))"
    using s(5) by (simp add: create_table_def act_simps users_def)
  moreover have "table_count c' = 1" by (rule table_count_one [OF s(5)])
  moreover obtain p1 d d' q where q: "pool_sync p' = (Ok (), p1)" "pool_close p1 = Ok d"
      "disk_open_read_only test_path (left_by d) [] = Ok d'" "pool_new d' 2 = Ok q" "quiet q" "pool_view q = pool_view p'"
      "pool_root q = pool_root p'"
    by (rule sync_close_reopen [OF catalog_okD(1) [OF s(6)], of 2]) auto
  moreover obtain t q' where t: "catalog_open q = (Ok (c'\<lparr>catalog_tables := t\<rparr>), q')" "RBT.lookup t = [ascii ''users'' \<mapsto> md]"
    using catalog_open_run [OF catalog_ok_restart [OF s(6) q(5-7)]] s(5) by auto
  moreover have "table_count (c'\<lparr>catalog_tables := t\<rparr>) = 1"
    by (rule table_count_one) (simp add: t(2))
  ultimately show ?thesis
    using s(1-4) by (simp add: persists_immutable_table_metadata_def on_new_catalog_def test_pool_of_three_eq named_users
        users_key with_pool_def unwrap_def catalog_table_def primary_key_column_def act_simps)
qed

lemma ada_row:
  "\<exists>row. encode_row users [V_Int 7, V_Text (ascii ''Ada'')] = Ok row \<and> length row \<le> MAX_RECORD_SIZE
    \<and> decode_row users row = Ok [R_Int 7, R_Text (ascii ''Ada'')]"
  by (simp add: users_def schema_eval encode_eval decode_eval test_simps Let_def)

lemma pass_rows_survive: "table_rows_survive_catalog_and_heap_reopen = Ok ()"
proof -
  obtain c p md c' p' where s: "catalog_create (fresh_pool 3) = (Ok c, p)" "create_table users (c, p) = (Ok md, (c', p'))"
    "metadata_schema md = users" "RBT.lookup (catalog_tables c') = [ascii ''users'' \<mapsto> md]"
    "catalog_ok p' c' (\<lambda>_. \<lparr>heap_pages = [heap_first_page_id md]\<rparr>)" "pool_writes p'"
    "slots_at (pool_view p') (heap_first_page_id md) = []"
    by (rule users_created)
  let ?h = "\<lparr>heap_pages = [heap_first_page_id md]\<rparr>" and ?n = "ascii ''users''"
  have table: "catalog_table c' ?n = Some md" by (simp add: catalog_table_def s(4))
  obtain row where row: "encode_row users [V_Int 7, V_Text (ascii ''Ada'')] = Ok row" "length row \<le> MAX_RECORD_SIZE"
      "decode_row users row = Ok [R_Int 7, R_Text (ascii ''Ada'')]"
    using ada_row by blast
  obtain p1 where p1: "open_table_heap c' ?n p' = (Ok ?h, p1)" "catalog_ok p1 c' (\<lambda>_. ?h)" "pool_view p1 = pool_view p'" "pool_writes p1"
    using open_table_heap_run [OF s(5), of ?n] s(4,6) by auto
  have "heap_at [(heap_first_page_id md, [])] (pool_next p1) (?h, p1)"
    using catalog_okD(1) [OF p1(2)] catalog_ok_table(1) [OF p1(2) s(4) [THEN fun_cong, of ?n, simplified]] p1(3,4) s(7)
    by (simp add: heap_at_def)
  then obtain rid p2 where p2: "heap_insert row (?h, p1) = (Ok rid, (?h, p2))"
      "heap_at [(heap_first_page_id md, [Live 1 row])] (pool_next p1) (?h, p2)"
    using insert_first_run [of "heap_first_page_id md" "[]" "[]" "pool_next p1" ?h p1 row] row(2) by (auto simp: heap_eval)
  have ok: "catalog_ok p2 c' (\<lambda>_. ?h)"
    using table_insert(1) [OF p1(2,4), of ?n row "Ok rid" ?h p2] p2(1) table by (simp add: fun_upd_idem)
  obtain p3 d d' q where q: "pool_sync p2 = (Ok (), p3)" "pool_close p3 = Ok d"
      "disk_open_read_only test_path (left_by d) [] = Ok d'" "pool_new d' 2 = Ok q" "quiet q" "pool_view q = pool_view p2"
      "pool_root q = pool_root p2"
    by (rule sync_close_reopen [OF catalog_okD(1) [OF ok], of 2]) auto
  obtain t q1 where t: "catalog_open q = (Ok (c'\<lparr>catalog_tables := t\<rparr>), q1)" "RBT.lookup t = [?n \<mapsto> md]"
      "catalog_ok q1 (c'\<lparr>catalog_tables := t\<rparr>) (\<lambda>_. ?h)" "pool_view q1 = pool_view p2"
    using catalog_open_run [OF catalog_ok_restart [OF ok q(5-7)]] s(4) q(6) by auto
  have tables: "RBT.lookup (catalog_tables (c'\<lparr>catalog_tables := t\<rparr>)) = [?n \<mapsto> md]" by (simp add: t(2))
  obtain q2 where q2: "open_table_heap (c'\<lparr>catalog_tables := t\<rparr>) ?n q1 = (Ok ?h, q2)" "quiet q2" "pool_view q2 = pool_view p2"
    using open_table_heap_run [OF t(3), of ?n] tables t(4) by (auto dest: catalog_okD(1))
  obtain recs q3 where recs: "heap_scan ?h q2 = (Ok recs, q3)"
      "map record_bytes recs = concat (map (\<lambda>pid. slot_payloads (slots_at (pool_view q2) pid)) (heap_pages ?h))"
    using scan_at [OF q2(2), of ?h] q2(3) heap_atD(3) [OF p2(2)] by auto
  then have "map record_bytes recs = [row]"
    using heap_atD(6) [OF p2(2), of "(heap_first_page_id md, [Live 1 row])"] q2(3) by simp
  then obtain r where "recs = [r]" "record_bytes r = row" by auto
  moreover have "catalog_table (c'\<lparr>catalog_tables := t\<rparr>) ?n = Some md" by (simp add: catalog_table_def t(2))
  ultimately show ?thesis
    using s(1-3) table p1(1) p2(1) q(1-4) t(1) q2(1) recs(1) row(1,3)
    by (simp add: table_rows_survive_catalog_and_heap_reopen_def on_new_catalog_def test_pool_of_three_eq named_users
        with_pool_def unwrap_def index_at_def Let_def act_simps)
qed

end
