(* ===== verification/Spec2Isabelle.thy ===== *)
theory Spec2Isabelle
  imports Database_Props Messages_Props Robust_Catalog Test_Heap Test_Catalog
begin

text \<open>
  A verification library of the storage engine NorthDB (paths below are under \<^verbatim>\<open>src/src/\<close>).

  \<^bold>\<open>The program.\<close> A database is one file of 8192-byte pages. From the bottom up:

  \<^item> \<^verbatim>\<open>DiskManager\<close> (\<^verbatim>\<open>storage/disk.rs\<close>) reads, writes and appends pages of the file and keeps the
    header of page zero: page size, next page identifier, catalog root. \<^verbatim>\<open>Page\<close> and \<^verbatim>\<open>Rid\<close>
    (\<^verbatim>\<open>storage/page.rs\<close>, \<^verbatim>\<open>storage/rid.rs\<close>) are its data.
  \<^item> \<^verbatim>\<open>BufferPool\<close> (\<^verbatim>\<open>storage/buffer_pool.rs\<close>) caches pages in frames with pin counts and evicts the
    least recently used unpinned one; a \<^verbatim>\<open>PageGuard\<close> is a pin, and the borrow state of the frame's
    \<^verbatim>\<open>RefCell\<close> says who reads or writes it.
  \<^item> \<^verbatim>\<open>SlottedPage\<close> (\<^verbatim>\<open>heap/slotted_page.rs\<close>) lays records of variable length out in a page and names
    them by page, slot and generation; a deleted slot is reused with the next generation.
  \<^item> \<^verbatim>\<open>HeapFile\<close> (\<^verbatim>\<open>heap/heap_file.rs\<close>) chains slotted pages through the pool into a file of records.
  \<^item> \<^verbatim>\<open>RowLayout\<close> and \<^verbatim>\<open>TableSchema\<close> (\<^verbatim>\<open>schema/row.rs\<close>, \<^verbatim>\<open>schema/table.rs\<close>) turn typed values and
    declarations of tables into records and back.
  \<^item> \<^verbatim>\<open>Catalog\<close> (\<^verbatim>\<open>catalog/mod.rs\<close>) keeps one record per table in a heap whose first page the header
    names, and hands out the heaps of the tables.
  \<^item> \<^verbatim>\<open>Config\<close> (\<^verbatim>\<open>config.rs\<close>) and the command line (\<^verbatim>\<open>main.rs\<close>) load and check a configuration.

  \<^bold>\<open>How it is modelled.\<close> \<open>Prelude\<close>: a \<^verbatim>\<open>Result\<close> with a third outcome \<open>Panic\<close> (index out of range, overflow,
  a broken \<^verbatim>\<open>expect\<close>), stateful operations as functions from a state to an outcome and a state, checked
  integers, little-endian codecs, slices. Integers are words of their width; \<^verbatim>\<open>usize\<close> is a natural number
  whose checked operations have the bound of 64 bits. A byte string is a list of bytes; a \<^verbatim>\<open>str\<close> is one
  that the UTF-8 decoder of \<open>Utf8\<close> accepts. A file is its bytes with a cursor and a script of
  failures, one entry per system call, so that a theorem over all scripts covers every combination
  of failed calls and partial writes. Records have the fields of the structs and functions their names.

  \<^bold>\<open>Theories.\<close>

  \<^item> \<open>Interfaces\<close>: the contracts between components as locales. \<open>page_map\<close>, what the pool needs of the
    disk, is interpreted in \<open>Disk_Props\<close>; \<open>page_store\<close>, what heaps need of the pool, in
    \<open>Buffer_Props\<close>; \<open>keyed_store\<close>, keys that are never given out again, for slotted pages, heaps and
    the catalog in \<open>Slotted_Props\<close>, \<open>Heap_Props\<close> and \<open>Database\<close>.
  \<^item> \<open>Page\<close>; \<open>Disk\<close> with \<open>Disk_Facts\<close> (the invariant \<open>disk_ok\<close>, the codec of the header) and
    \<open>Disk_Props\<close> (a database is a map from identifiers to pages; what holds under failures).
  \<^item> \<open>Buffer_Pool\<close> with \<open>Buffer_Facts\<close> (the invariant under any failures), \<open>Buffer_View\<close> (what clients see:
    \<open>pool_view\<close>, cached or not) and \<open>Buffer_Props\<close>.
  \<^item> \<open>Slotted_Page\<close> with \<open>Slotted_Layout\<close> (valid pages, and that \<open>validate\<close> decides them), \<open>Slotted_Spec\<close>
    (the abstract page: a list of slots), \<open>Slotted_Update\<close> and \<open>Slotted_Insert\<close> (the writes, compaction),
    \<open>Slotted_Refine\<close> (each operation is its specification on the slots) and \<open>Slotted_Props\<close>.
  \<^item> \<open>Heap_File\<close> with \<open>Heap_Facts\<close> (the invariant \<open>heap_inv\<close>, the abstract heap \<open>heap_lookup\<close>), \<open>Heap_Runs\<close>
    (each operation's result, effect and frame) and \<open>Heap_Props\<close>.
  \<^item> \<open>Row\<close> with \<open>Row_Facts\<close> (the image of a row, and that the encoder writes it), \<open>Row_Decode\<close> (the decoder
    accepts exactly images) and \<open>Row_Props\<close>; \<open>Table\<close> with \<open>Table_Props\<close>.
  \<^item> \<open>Catalog\<close> with \<open>Catalog_Codec\<close>, \<open>Catalog_Root\<close> (who changes the catalog root), \<open>Catalog_Facts\<close> (the
    invariant \<open>catalog_ok\<close> of a catalog, its table heaps and the pool), \<open>Catalog_Runs\<close>,
    \<open>Catalog_Open\<close> and \<open>Catalog_Props\<close>.
  \<^item> \<open>Database\<close> and \<open>Database_Props\<close>: a catalog with one handle per table, every client operation as a
    step, and what holds along every run. This theory: rows in tables, and restarts.
  \<^item> \<open>Safety\<close>, \<open>Robust_Pool\<close>, \<open>Robust_Heap\<close> and \<open>Robust_Catalog\<close>: \<open>safe I m Q\<close>, a call that does not panic and
    keeps \<open>I\<close>, with a rule per combinator; that every call of the engine is safe with \<open>calm\<close> (the invariant of the
    pool, no guard alive) for \<open>I\<close>, on pages that hold any bytes and a file that fails in any way.
  \<^item> \<open>Config\<close> and \<open>Config_Props\<close>; \<open>Messages\<close> and \<open>Messages_Props\<close>: the \<^verbatim>\<open>Display\<close> and \<^verbatim>\<open>source\<close> of
    every error type, and the output of \<^verbatim>\<open>main\<close>.
  \<^item> \<open>Test_Support\<close>, \<open>Test_Storage\<close>, \<open>Test_Pool\<close>, \<open>Test_Heap\<close>, \<open>Test_Heap_File\<close>, \<open>Test_Schema\<close> and \<open>Test_Catalog\<close>:
    the unit tests of the source as definitions over the model, under the names they have there
    (\<open>expect\<close> for \<^verbatim>\<open>unwrap\<close>, \<open>assert_that\<close> for \<^verbatim>\<open>assert!\<close>), each with a lemma that it passes: it computes
    \<open>Ok ()\<close>. A file a test leaves behind is the bytes of the disk it closed.

  \<^bold>\<open>What is proved.\<close> For each component an invariant every operation keeps, the outcome of each operation on
  every branch, errors included, and that no operation panics on a sound state; refinements of abstract
  specifications (pages of a file, slots of a page, records of a heap, tables of a catalog); exactness of
  the codecs of rows, schemas and table records in both directions; that no call panics on a damaged file
  either, whatever fails below it; RIDs and table identifiers that are never given out again; durability of \<^verbatim>\<open>sync\<close> and of the creation of a catalog up to
  the bytes a new process reads. C36 to C40, and
  \<open>spare_bits_ignored\<close> of \<open>Row_Props\<close>, state behaviour the code does not intend.

  \<^bold>\<open>Termination.\<close> No fuel is used. Opening a heap recurses on the identifiers not yet visited, trimming a
  path on its length; all other loops are structural.

  \<^bold>\<open>Assumptions.\<close> Theorems on sound states take the file to work (\<open>quiet\<close>: no failures left in the script, no
  guard alive), unless they say otherwise; those of \<open>Robust_Catalog\<close> assume nothing of the file and of its calls. The steps of \<open>Database\<close> use one handle per table, because two
  handles on one heap lose records (\<open>stale_handle_loses_record\<close>). Reading the configuration file and
  the YAML parser, a third-party crate, are arguments of the definitions that use them; so are, for
  the texts, the operating system's description of an I/O error and the Unicode table of printable characters.

  \<^bold>\<open>Not modelled.\<close> Real I/O below the file interface, the module tree
  (\<^verbatim>\<open>lib.rs\<close> and the \<^verbatim>\<open>mod.rs\<close> files of re-exports), the unit tests of \<^verbatim>\<open>config.rs\<close>, which run the
  YAML parser, and the temporary files of the tests. Panics of a checked build are modelled, the
  debug assertion of \<^verbatim>\<open>PageGuard\<close>'s drop and the capacity overflow of \<^verbatim>\<open>HashMap\<close> (\<open>MAP_CAPACITY_LIMIT\<close>) included;
  running out of memory, which ends the process, is not.
\<close>

section \<open>Rows in tables\<close>

lemma stored_row_decodes:
  assumes "schema_wf s" and "encode_row s vals = Ok row" and "list_all text_ok vals"
  shows "\<exists>refs. decode_row s row = Ok refs \<and> map to_owned refs = vals" and "length row \<le> MAX_ROW_SIZE"
proof -
  have enc: "encode (compile (schema_columns s)) (schema_columns s) vals = Ok row"
    using assms(1,2) by (simp add: encode_row_def schema_wf_def)
  have row: "is_row (schema_columns s) vals row"
    using encoded_is_row [OF enc assms(3)] .
  then show "length row \<le> MAX_ROW_SIZE" by (simp add: is_row_def)
  show "\<exists>refs. decode_row s row = Ok refs \<and> map to_owned refs = vals"
    using Row_Decode.decode_row [OF row] assms(1) by (simp add: Table.decode_row_def schema_wf_def comp_def)
qed

text \<open>C4. A row that was inserted is read back: in a sound database every list of values the schema of
  a table accepts is encoded to a record no larger than a page holds, so that insertion fails
  only when the page identifiers are used up or a page of the table is too full; otherwise
  looking up the new RID gives the record and decoding it the values.\<close>

theorem inserted_row_is_read_back:
  assumes "catalog_ok p c H" and "pool_writes p" and "catalog_table c n = Some md"
    and "encode_row (metadata_schema md) vals = Ok row" and "list_all text_ok vals"
  shows "\<exists>r h' p'. heap_insert row (H n, p) = (r, (h', p')) \<and>
    (case r of
       Ok rid \<Rightarrow> \<exists>refs p''. heap_get h' rid p' = (Ok row, p'') \<and> decode_row (metadata_schema md) row = Ok refs
         \<and> map to_owned refs = vals
     | Err e \<Rightarrow> (pool_next p = None \<and> e = H_Buffer (BP_Disk D_PageIdExhausted))
         \<or> (\<exists>pid\<in>set (heap_pages (H n)). spec_first_reusable (slots_at (pool_view p) pid) = None
              \<and> spec_free (slots_at (pool_view p) pid) < SLOT_ENTRY_SIZE)
     | Panic \<Rightarrow> False)"
proof -
  have table: "RBT.lookup (catalog_tables c) n = Some md"
    using assms(3) by (simp add: catalog_table_def)
  note T = catalog_ok_table [OF assms(1) table]
  have s: "schema_wf (metadata_schema md)" using T(5) by (simp add: metadata_wf_def)
  note R = stored_row_decodes [OF s assms(4,5)]
  obtain r h' p' where run: "heap_insert row (H n, p) = (r, (h', p'))" "quiet p'" "heap_inv (pool_view p') h'"
    and out: "case r of Ok rid \<Rightarrow> heap_lookup (pool_view p') h' = (heap_lookup (pool_view p) (H n))(rid \<mapsto> row)
      | Err e \<Rightarrow> insert_refusal row (H n) p e | Panic \<Rightarrow> False"
    using heap_insert_run [OF catalog_okD(1) [OF assms(1)] T(1) assms(2), of row] by (force split: result.splits)
  have "\<exists>p''. heap_get h' rid p' = (Ok row, p'')" if "r = Ok rid" for rid
    using heap_get_run [OF run(2,3), of rid] out that by auto
  then show ?thesis
    using run(1) out R by (intro exI [of _ r] exI [of _ h'] exI [of _ p']) (cases r; auto simp: insert_refusal_def)
qed

theorem inserted_row_is_read_back_witness:
  "\<exists>c p md c' p' h row rid h2 p2 p3 refs. catalog_create (fresh_pool 1) = (Ok c, p)
     \<and> create_table sample_schema (c, p) = (Ok md, (c', p')) \<and> encode_row sample_schema sample_values = Ok row
     \<and> heap_insert row (h, p') = (Ok rid, (h2, p2)) \<and> heap_get h2 rid p2 = (Ok row, p3)
     \<and> decode_row sample_schema row = Ok refs \<and> map to_owned refs = sample_values"
proof -
  obtain c p md c' p' H where s: "catalog_create (fresh_pool 1) = (Ok c, p)" "create_table sample_schema (c, p) = (Ok md, (c', p'))"
    "catalog_ok p' c' H" "pool_writes p'" "catalog_table c' [116] = Some md" "metadata_schema md = sample_schema"
    "pool_next p' \<noteq> None" "H [116] = \<lparr>heap_pages = [heap_first_page_id md]\<rparr>" "slots_at (pool_view p') (heap_first_page_id md) = []"
    by (rule sample_db) blast
  let ?row = "row_image sample_columns sample_values"
  have enc: "encode_row (metadata_schema md) sample_values = Ok ?row"
    using sample_row by (simp add: encode_row_def s(6) sample_schema_def)
  have room: "\<not> spec_free (slots_at (pool_view p') (heap_first_page_id md)) < SLOT_ENTRY_SIZE"
    by (simp add: s(9) spec_free_def)
  obtain r h2 p2 where run: "heap_insert ?row (H [116], p') = (r, (h2, p2))"
    and out: "case r of
       Ok rid \<Rightarrow> \<exists>refs p3. heap_get h2 rid p2 = (Ok ?row, p3) \<and> decode_row (metadata_schema md) ?row = Ok refs
         \<and> map to_owned refs = sample_values
     | Err e \<Rightarrow> False | Panic \<Rightarrow> False"
    using inserted_row_is_read_back [OF s(3-5) enc sample_text] s(7,8) room by (force split: result.splits)
  then obtain rid refs p3 where "r = Ok rid" "heap_get h2 rid p2 = (Ok ?row, p3)" "decode_row sample_schema ?row = Ok refs"
      "map to_owned refs = sample_values"
    using s(6) by (cases r) auto
  then show ?thesis
    using s(1,2,6) enc run by (intro exI conjI) auto
qed

section \<open>Restarts\<close>

text \<open>C5. A synchronized database survives a restart: after \<^verbatim>\<open>sync\<close> the bytes of the file, opened by a new
  process in either mode with a pool of any capacity a
  \<^verbatim>\<open>HashMap\<close> can be built with, give the same catalog and the same records in
  every table, and a sound database to go on with.\<close>

theorem database_survives_restart:
  assumes "catalog_ok p c H" and "0 < cap" and "cap \<le> MAP_CAPACITY_LIMIT"
  shows "\<exists>p' d q c' q'. pool_sync p = (Ok (), p')
    \<and> open_with_mode path ro (Some (file_data (disk_file (pool_disk p')))) [] = Ok d \<and> pool_new d cap = Ok q
    \<and> catalog_open q = (Ok c', q') \<and> catalog_table c' = catalog_table c \<and> next_table_id c' = next_table_id c
    \<and> catalog_ok q' c' H \<and> pool_view q' = pool_view p \<and> pool_writes q' = (\<not> ro)"
proof -
  have q: "pool_sound p" "\<And>pid. borrows p pid = Unborrowed"
    using quietD [OF catalog_okD(1) [OF assms(1)]] by auto
  obtain p' where p': "pool_sync p = (Ok (), p')" "pool_sound p'" "same_client_state p p'" "disk_pages (pool_disk p') = pool_view p"
    using pool_sync_sound [OF q] by blast
  have ok: "disk_ok (pool_disk p')" using p'(2) by (simp add: pool_sound_def)
  obtain d q where d: "open_with_mode path ro (Some (file_data (disk_file (pool_disk p')))) [] = Ok d" "pool_new d cap = Ok q"
      "quiet q" "pool_view q = disk_pages (pool_disk p')" "pool_root q = disk_root (pool_disk p')" "pool_writes q = (\<not> ro)"
    by (rule restart [OF ok assms(2,3)])
  have "pool_root q = pool_root p"
    using d(5) p'(3) by (simp add: same_client_state_def pool_root_def disk_root_def)
  then have "catalog_ok q c H"
    using catalog_ok_restart [OF assms(1) d(3)] d(4) p'(4) by simp
  from catalog_open_run [OF this] show ?thesis
    using p'(1,4) d by (auto simp: catalog_table_def fun_eq_iff)
qed

theorem database_survives_restart_witness:
  "\<exists>c p md c' p' p2 d q c2 q2. catalog_create (fresh_pool 1) = (Ok c, p) \<and> create_table sample_schema (c, p) = (Ok md, (c', p'))
     \<and> pool_sync p' = (Ok (), p2) \<and> open_with_mode ''db'' True (Some (file_data (disk_file (pool_disk p2)))) [] = Ok d
     \<and> pool_new d 4 = Ok q \<and> catalog_open q = (Ok c2, q2) \<and> catalog_table c2 [116] = Some md"
proof -
  obtain c p md c' p' H where s: "catalog_create (fresh_pool 1) = (Ok c, p)" "create_table sample_schema (c, p) = (Ok md, (c', p'))"
    "catalog_ok p' c' H" "catalog_table c' [116] = Some md"
    by (rule sample_db) blast
  obtain p2 d q c2 q2 where "pool_sync p' = (Ok (), p2)"
      "open_with_mode ''db'' True (Some (file_data (disk_file (pool_disk p2)))) [] = Ok d" "pool_new d 4 = Ok q"
      "catalog_open q = (Ok c2, q2)" "catalog_table c2 = catalog_table c'"
    using database_survives_restart [OF s(3), of 4 "''db''" True] by auto
  then show ?thesis using s by metis
qed

text \<open>C26. Creating a catalog is durable when it returns, without a sync: a process that stops right
  after it leaves a file whose catalog opens and is empty. A database that has a catalog
  refuses a second one and is left alone.\<close>

theorem catalog_creation_durable:
  assumes "quiet p" and "pool_writes p" and "0 < cap" and "cap \<le> MAP_CAPACITY_LIMIT"
  shows "case pool_root p of
      Some root \<Rightarrow> catalog_create p = (Err (CE_AlreadyInitialized root), p)
    | None \<Rightarrow> pool_next p \<noteq> None \<longrightarrow>
        (\<exists>c p' d q c' q'. catalog_create p = (Ok c, p') \<and> catalog_ok p' c H
          \<and> open_with_mode path ro (Some (file_data (disk_file (pool_disk p')))) [] = Ok d \<and> pool_new d cap = Ok q
          \<and> catalog_open q = (Ok c', q') \<and> catalog_table c' = Map.empty \<and> next_table_id c' = FIRST_TABLE_ID)"
proof (cases "pool_root p")
  case (Some root)
  then show ?thesis by (simp add: catalog_create_def pool_header_root act_simps)
next
  case None
  have "\<exists>c p' d q c' q'. catalog_create p = (Ok c, p') \<and> catalog_ok p' c H
      \<and> open_with_mode path ro (Some (file_data (disk_file (pool_disk p')))) [] = Ok d \<and> pool_new d cap = Ok q
      \<and> catalog_open q = (Ok c', q') \<and> catalog_table c' = Map.empty \<and> next_table_id c' = FIRST_TABLE_ID"
    if "pool_next p = Some n" for n
  proof -
    note next_page = that
    let ?h = "\<lparr>heap_pages = [n]\<rparr>"
    let ?c = "\<lparr>catalog_heap = ?h, catalog_tables = RBT.empty, next_table_id = FIRST_TABLE_ID\<rparr>"
    obtain p' where p': "catalog_create p = (Ok ?c, p')" "catalog_ok p' ?c H" "disk_pages (pool_disk p') n = pool_view p' n"
      using catalog_create_run [OF assms(1,2) None next_page, of H] by (auto simp: Let_def)
    note D = catalog_okD [OF p'(2)]
    have ok: "disk_ok (pool_disk p')" using quietD(1) [OF D(1)] by (simp add: pool_sound_def)
    obtain d q where d: "open_with_mode path ro (Some (file_data (disk_file (pool_disk p')))) [] = Ok d" "pool_new d cap = Ok q"
        "quiet q" "pool_view q = disk_pages (pool_disk p')" "pool_root q = disk_root (pool_disk p')"
      by (rule restart [OF ok assms(3,4)])
    have same: "pool_view q pid = pool_view p' pid" if "pid \<in> set (heap_pages (catalog_heap ?c))" for pid
      using that d(4) p'(3) by simp
    have "catalog_ok q ?c H"
      using D d(3,5) heap_agree [OF D(2) same] by (simp add: catalog_ok_def heaps_match_def pool_root_def)
    from catalog_open_run [OF this] show ?thesis
      using p'(1,2) d(1,2) by (auto simp: catalog_table_def fun_eq_iff)
  qed
  then show ?thesis using None by auto
qed

theorem catalog_creation_durable_witness:
  "\<exists>c p d q c' q'. catalog_create (fresh_pool 1) = (Ok c, p)
     \<and> open_with_mode ''db'' False (Some (file_data (disk_file (pool_disk p)))) [] = Ok d \<and> pool_new d 1 = Ok q
     \<and> catalog_open q = (Ok c', q') \<and> catalog_table c' = Map.empty"
  using catalog_creation_durable [OF fresh_pool_quiet [of 1], of 1 "\<lambda>_. undefined" "''db''" False]
  by (auto simp: fresh_root pool_next_fresh)

end
